(* ===== verification/Dpdk_Prelude.thy ===== *)
theory Dpdk_Prelude
  imports Main "HOL-Library.Word" "HOL-Library.Multiset" "HOL-Library.Sublist"
begin

text \<open>
  Shared ground of the development: machine-word type names, raw memory as the program sees it
  through \<open>rte_pktmbuf_mtod\<close>, little-endian loads and stores of the host, the byte-order
  conversions, the assigned protocol numbers, and the generic lemmas the components share.
  The target is a little-endian host, as the source assumes when it masks big-endian
  addresses (\<open>dpdkx/device.cpp\<close>, lines 32-34 and 374).
\<close>

unbundle bit_operations_syntax

named_theorems mem_simps \<open>loads and stores of packet memory\<close>
named_theorems wire_defs \<open>assigned numbers and header sizes\<close>

type_synonym byte = "8 word"
type_synonym u8 = "8 word"
type_synonym u16 = "16 word"
type_synonym u32 = "32 word"
type_synonym u64 = "64 word"
type_synonym memory = "nat \<Rightarrow> byte"

section \<open>Bytes of machine words\<close>

fun of_le :: "byte list \<Rightarrow> nat" where
  "of_le [] = 0"
| "of_le (b # bs) = unat b + 256 * of_le bs"

fun to_le :: "nat \<Rightarrow> nat \<Rightarrow> byte list" where
  "to_le 0 v = []"
| "to_le (Suc n) v = of_nat v # to_le n (v div 256)"

lemma length_to_le [simp]: "length (to_le n v) = n"
  by (induction n arbitrary: v) auto

lemma byte_less: "unat (b :: byte) < 256"
  using unsigned_less [of b, where 'a = nat] by simp

lemma unat_byte_of_nat: "unat (of_nat v :: byte) = v mod 256"
  by (simp add: unat_of_nat take_bit_eq_mod)

lemma of_le_to_le: "of_le (to_le n v) = v mod 256 ^ n"
proof (induction n arbitrary: v)
  case 0
  then show ?case by simp
next
  case (Suc n)
  have "v mod 256 ^ Suc n = 256 * (v div 256 mod 256 ^ n) + v mod 256"
    by (simp add: mod_mult2_eq)
  then show ?case by (simp add: Suc.IH unat_byte_of_nat)
qed

lemma to_le_of_le: "to_le (length bs) (of_le bs) = bs"
proof (induction bs)
  case Nil
  then show ?case by simp
next
  case (Cons b bs)
  have "(unat b + 256 * of_le bs) div 256 = of_le bs"
    using byte_less [of b] by simp
  moreover have "(of_nat (unat b + 256 * of_le bs) :: byte) = b"
    by (simp only: word_unat_eq_iff unat_byte_of_nat) (simp add: byte_less)
  ultimately show ?case using Cons.IH by simp
qed

lemma of_le_less: "of_le bs < 256 ^ length bs"
proof (induction bs)
  case Nil
  then show ?case by simp
next
  case (Cons b bs)
  have "unat b < 256" using byte_less [of b] by simp
  with Cons.IH show ?case by simp
qed


section \<open>Lists updated by index\<close>

lemma take_Suc_update: "k < length xs \<Longrightarrow> take (Suc k) (xs[k := b]) = take k xs @ [b]"
  by (simp add: take_Suc_conv_app_nth)

section \<open>Conversions between widths\<close>

lemma unat_ucast_mod: "unat (ucast (x :: 'a::len word) :: 'b::len word) = unat x mod 2 ^ LENGTH('b)"
  by (simp add: unsigned_ucast_eq take_bit_eq_mod)

lemma unat_ucast_up:
  "LENGTH('a) \<le> LENGTH('b) \<Longrightarrow> unat (ucast (x :: 'a::len word) :: 'b::len word) = unat x"
proof -
  assume "LENGTH('a) \<le> LENGTH('b)"
  then have "(2 :: nat) ^ LENGTH('a) \<le> 2 ^ LENGTH('b)" by simp
  then have "unat x < 2 ^ LENGTH('b)"
    using unsigned_less [of x, where 'a = nat] by (rule less_le_trans [rotated])
  then show ?thesis by (simp add: unat_ucast_mod)
qed

lemma unat_of_nat_mod: "unat (of_nat n :: 'a::len word) = n mod 2 ^ LENGTH('a)"
  by (simp add: unat_of_nat take_bit_eq_mod)

lemma unat_drop_bit_div: "unat (drop_bit k (w :: 'a::len word)) = unat w div 2 ^ k"
  by (subst unat_drop_bit_eq) (rule drop_bit_eq_div)

lemma unat_add_small:
  "unat a + unat b < 2 ^ LENGTH('a) \<Longrightarrow> unat (a + b :: 'a::len word) = unat a + unat b"
  by (simp add: unat_word_ariths)

lemma unat_not: "unat (NOT (x :: 'a::len word)) = 2 ^ LENGTH('a) - 1 - unat x"
proof -
  have "NOT x = - 1 - x" by (simp add: not_eq_complement)
  moreover have "unat (- 1 :: 'a word) = 2 ^ LENGTH('a) - 1"
    by (simp add: unsigned_minus_1_eq_mask mask_eq_exp_minus_1)
  ultimately show ?thesis by (metis (no_types) unat_sub word_order.extremum)
qed

lemma nth_to_le: "i < n \<Longrightarrow> to_le n v ! i = of_nat (v div 256 ^ i)"
proof (induction n arbitrary: v i)
  case 0
  then show ?case by simp
next
  case (Suc n)
  then show ?case by (cases i) (simp_all add: div_mult2_eq)
qed

lemma to_le_word:
  "to_le n (unat (w :: 'a::len word)) = map (\<lambda>i. ucast (drop_bit (8 * i) w)) [0..<n]"
proof (rule nth_equalityI)
  fix i
  assume "i < length (to_le n (unat w))"
  moreover have "(256 :: nat) ^ i = 2 ^ (8 * i)" by (simp add: power_mult)
  ultimately show "to_le n (unat w) ! i = map (\<lambda>i. ucast (drop_bit (8 * i) w)) [0..<n] ! i"
    by (simp add: nth_to_le word_unat_eq_iff unat_of_nat_mod unat_ucast_mod unat_drop_bit_div)
qed simp

section \<open>Packet memory\<close>

definition fetch :: "memory \<Rightarrow> nat \<Rightarrow> nat \<Rightarrow> byte list" where
  "fetch m off n = map (\<lambda>i. m (off + i)) [0..<n]"

definition store :: "memory \<Rightarrow> nat \<Rightarrow> byte list \<Rightarrow> memory" where
  "store m off bs = (\<lambda>i. if off \<le> i \<and> i < off + length bs then bs ! (i - off) else m i)"

definition ldw :: "memory \<Rightarrow> nat \<Rightarrow> 'a::len word" where
  "ldw m off = of_nat (of_le (fetch m off (LENGTH('a) div 8)))"

definition stw :: "memory \<Rightarrow> nat \<Rightarrow> 'a::len word \<Rightarrow> memory" where
  "stw m off w = store m off (to_le (LENGTH('a) div 8) (unat w))"

text \<open>\<open>rte_cpu_to_be_N\<close>, \<open>rte_be_to_cpu_N\<close>, \<open>RTE_BE16\<close> and \<open>rte_bswap64\<close> on a little-endian host.\<close>

definition bswap :: "'a::len word \<Rightarrow> 'a word" where
  "bswap w = of_nat (of_le (rev (to_le (LENGTH('a) div 8) (unat w))))"

lemma length_fetch [simp]: "length (fetch m off n) = n"
  by (simp add: fetch_def)

lemma nth_fetch [simp]: "i < n \<Longrightarrow> fetch m off n ! i = m (off + i)"
  by (simp add: fetch_def)

lemma fetch_append: "fetch m off (a + b) = fetch m off a @ fetch m (off + a) b"
  by (rule nth_equalityI) (auto simp: nth_append)

lemma store_apply [mem_simps]:
  "store m off bs i = (if off \<le> i \<and> i < off + length bs then bs ! (i - off) else m i)"
  by (simp add: store_def)

lemma fetch_store_same [mem_simps]: "n = length bs \<Longrightarrow> fetch (store m off bs) off n = bs"
  by (rule nth_equalityI) (auto simp: store_apply)

lemma fetch_store_disjoint [mem_simps]:
  "off + length bs \<le> p \<or> p + n \<le> off \<Longrightarrow> fetch (store m off bs) p n = fetch m p n"
  by (rule nth_equalityI) (auto simp: store_apply)

lemma fetch_stw_disjoint [mem_simps]:
  "off + LENGTH('a) div 8 \<le> p \<or> p + n \<le> off \<Longrightarrow>
     fetch (stw m off (w :: 'a::len word)) p n = fetch m p n"
  by (simp add: stw_def fetch_store_disjoint)

lemma fetch_stw_same [mem_simps]:
  "n = LENGTH('a) div 8 \<Longrightarrow> fetch (stw m off (w :: 'a::len word)) off n = to_le n (unat w)"
  by (simp add: stw_def fetch_store_same)

lemma stw_apply [mem_simps]:
  "off + LENGTH('a) div 8 \<le> i \<or> i < off \<Longrightarrow> stw m off (w :: 'a::len word) i = m i"
  by (auto simp: stw_def store_apply)

lemma stw_byte [mem_simps]: "stw m off (w :: 8 word) = m(off := w)"
proof (rule ext)
  fix i
  have "off \<le> i \<and> i < Suc off \<longleftrightarrow> i = off" by auto
  then show "stw m off w i = (m(off := w)) i" by (simp add: stw_def store_def)
qed

lemma fetch_upd_disjoint [mem_simps]: "i < off \<or> off + n \<le> i \<Longrightarrow> fetch (m(i := b)) off n = fetch m off n"
  by (rule nth_equalityI) auto

lemma ldw_upd_disjoint [mem_simps]:
  "i < off \<or> off + LENGTH('a) div 8 \<le> i \<Longrightarrow> (ldw (m(i := b)) off :: 'a::len word) = ldw m off"
  by (simp add: ldw_def fetch_upd_disjoint)

lemma pow256: "8 dvd n \<Longrightarrow> (256 :: nat) ^ (n div 8) = 2 ^ n"
proof -
  assume "8 dvd n"
  then obtain k where "n = 8 * k" ..
  moreover have "(256 :: nat) = 2 ^ 8" by simp
  ultimately show ?thesis by (simp add: power_mult del: power_numeral)
qed

lemma unat_less_pow256: "8 dvd LENGTH('a) \<Longrightarrow> unat (w :: 'a::len word) < 256 ^ (LENGTH('a) div 8)"
  by (simp add: pow256)

lemma unat_ldw:
  assumes "8 dvd LENGTH('a)"
  shows "unat (ldw m off :: 'a::len word) = of_le (fetch m off (LENGTH('a) div 8))"
proof -
  have "of_le (fetch m off (LENGTH('a) div 8)) < 2 ^ LENGTH('a)"
    using of_le_less [of "fetch m off (LENGTH('a) div 8)"] by (simp add: pow256 [OF assms])
  then show ?thesis by (simp add: ldw_def unat_of_nat_mod)
qed

lemma ldw_cong:
  "(\<And>i. i < LENGTH('a) div 8 \<Longrightarrow> m (off + i) = m' (off + i)) \<Longrightarrow> (ldw m off :: 'a::len word) = ldw m' off"
proof -
  assume "\<And>i. i < LENGTH('a) div 8 \<Longrightarrow> m (off + i) = m' (off + i)"
  then have "fetch m off (LENGTH('a) div 8) = fetch m' off (LENGTH('a) div 8)"
    by (intro nth_equalityI) simp_all
  then show ?thesis by (simp add: ldw_def)
qed

lemma ldw_stw_same [mem_simps]:
  "8 dvd LENGTH('a) \<Longrightarrow> ldw (stw m off (w :: 'a::len word)) off = w"
  by (simp add: ldw_def fetch_stw_same of_le_to_le unat_less_pow256)

lemma ldw_stw_disjoint [mem_simps]:
  "off + LENGTH('a) div 8 \<le> p \<or> p + LENGTH('b) div 8 \<le> off \<Longrightarrow>
     (ldw (stw m off (w :: 'a::len word)) p :: 'b::len word) = ldw m p"
  by (simp add: ldw_def fetch_stw_disjoint)

lemma ldw_store_disjoint [mem_simps]:
  "off + length bs \<le> p \<or> p + LENGTH('b) div 8 \<le> off \<Longrightarrow>
     (ldw (store m off bs) p :: 'b::len word) = ldw m p"
  by (simp add: ldw_def fetch_store_disjoint)

lemma bswap_bswap [simp]: "8 dvd LENGTH('a) \<Longrightarrow> bswap (bswap (w :: 'a::len word)) = w"
proof -
  assume d: "8 dvd LENGTH('a)"
  let ?n = "LENGTH('a) div 8"
  let ?bs = "rev (to_le ?n (unat w))"
  have "of_le ?bs < 2 ^ LENGTH('a)"
    using of_le_less [of ?bs] by (simp add: pow256 [OF d])
  then have "unat (bswap w) = of_le ?bs"
    by (simp add: bswap_def unat_of_nat take_bit_nat_eq_self)
  moreover have "to_le ?n (of_le ?bs) = ?bs"
    using to_le_of_le [of ?bs] by simp
  ultimately show ?thesis
    by (simp add: bswap_def [of "bswap w"] of_le_to_le unat_less_pow256 [OF d])
qed

lemma to_le_bswap:
  assumes d: "8 dvd LENGTH('a)" and n: "n = LENGTH('a) div 8"
  shows "to_le n (unat (bswap (w :: 'a::len word))) = rev (to_le n (unat w))"
proof -
  let ?bs = "rev (to_le n (unat w))"
  have "of_le ?bs < 2 ^ LENGTH('a)"
    using of_le_less [of ?bs] by (simp add: pow256 [OF d] n)
  then have "unat (bswap w) = of_le ?bs"
    by (simp add: bswap_def unat_of_nat take_bit_nat_eq_self n)
  then show ?thesis
    using to_le_of_le [of ?bs] by simp
qed

lemma bswap_inject: "8 dvd LENGTH('a) \<Longrightarrow> bswap (x :: 'a::len word) = bswap y \<longleftrightarrow> x = y"
  by (metis (no_types) bswap_bswap)

section \<open>Assigned numbers and header sizes\<close>

text \<open>
  IANA EtherTypes and protocol numbers, and the sizes of the wire headers. They are named as in
  the DPDK headers the program includes; the values are the published ones.
\<close>

abbreviation RTE_ETHER_TYPE_IPV4 :: u16 where "RTE_ETHER_TYPE_IPV4 \<equiv> 0x0800"
abbreviation RTE_ETHER_TYPE_ARP :: u16 where "RTE_ETHER_TYPE_ARP \<equiv> 0x0806"
abbreviation RTE_ETHER_TYPE_VLAN :: u16 where "RTE_ETHER_TYPE_VLAN \<equiv> 0x8100"
abbreviation RTE_ETHER_TYPE_QINQ :: u16 where "RTE_ETHER_TYPE_QINQ \<equiv> 0x88A8"
abbreviation IPPROTO_ICMP :: u8 where "IPPROTO_ICMP \<equiv> 1"
abbreviation IPPROTO_IGMP :: u8 where "IPPROTO_IGMP \<equiv> 2"
abbreviation IPPROTO_UDP :: u8 where "IPPROTO_UDP \<equiv> 17"

lemma to_le_numeral: "to_le (numeral k) v = of_nat v # to_le (pred_numeral k) (v div 256)"
  by (simp only: numeral_eq_Suc [of k] to_le.simps)

lemma fetch_0: "fetch m off 0 = []"
  by (simp add: fetch_def)

lemma fetch_Suc: "fetch m off (Suc n) = m off # fetch m (Suc off) n"
  by (rule nth_equalityI) (auto simp: nth_Cons split: nat.splits)

lemma fetch_numeral: "fetch m off (numeral k) = m off # fetch m (Suc off) (pred_numeral k)"
  by (simp only: numeral_eq_Suc [of k] fetch_Suc)

lemmas word_eval = to_le_numeral fetch_0 fetch_Suc fetch_numeral ldw_def bswap_def

lemma be_ether_types [simp]:
  "bswap RTE_ETHER_TYPE_IPV4 = 0x0008" "bswap RTE_ETHER_TYPE_ARP = 0x0608"
  "bswap RTE_ETHER_TYPE_VLAN = 0x0081" "bswap RTE_ETHER_TYPE_QINQ = 0xA888"
  by (simp_all add: word_eval)

end
