(* ===== verification/Numerics.thy ===== *)
theory Numerics
  imports Dpdk_Prelude "HOL-Library.Signed_Division"
begin

text \<open>
  Arithmetic of \<open>dpdkx/detail/numerics.hpp\<close>, \<open>dpdkx/detail/utils.{hpp,cpp}\<close>, \<open>dpdkx/utils.hpp\<close>
  and the clock members of \<open>dpdkx/device.{hpp,cpp}\<close>, at machine width. A division by zero traps
  in the program and is \<open>None\<close> here. The DPDK calls (\<open>rte_eth_read_clock\<close>, the TSC, the timer,
  \<open>rte_eth_link_get_nowait\<close>) are arguments that carry what they returned.
\<close>

section \<open>Definitions\<close>

abbreviation NS_PER_S :: u64 where "NS_PER_S \<equiv> 1000000000"

definition mul_div :: "u64 \<Rightarrow> u64 \<Rightarrow> u64 \<Rightarrow> u64 option" where
  "mul_div x n d =
     (let res = (ucast x :: 128 word) * ucast n
      in if d = 0 then None else Some (ucast (res div ucast d)))"

text \<open>
  The program calls \<open>mul_div\<close> with 64-bit unsigned arguments only. The template itself is \<open>mul_div_at w sg\<close>: \<open>w\<close> and
  \<open>sg\<close> are the width and the signedness of \<open>decltype(x * n / d)\<close>, and the arguments are the values of its operands, which are converted
  to the 128-bit type of that signedness. In the \<open>WIN32\<close> branch \<open>mp\<close> is the conversion to Boost's \<open>uint128_t\<close>.
\<close>

definition cast_to :: "nat \<Rightarrow> bool \<Rightarrow> int \<Rightarrow> int" where
  "cast_to w sg v = (if sg then signed_take_bit (w - 1) v else take_bit w v)"

definition mul_div_at :: "nat \<Rightarrow> bool \<Rightarrow> int \<Rightarrow> int \<Rightarrow> int \<Rightarrow> int option" where
  "mul_div_at w sg x n d =
     (let res = cast_to 128 sg (cast_to 128 sg x * cast_to 128 sg n)
      in if d = 0 then None else Some (cast_to w sg (res sdiv cast_to 128 sg d)))"

definition mul_div_win32 :: "(int \<Rightarrow> int) \<Rightarrow> nat \<Rightarrow> bool \<Rightarrow> int \<Rightarrow> int \<Rightarrow> int \<Rightarrow> int option" where
  "mul_div_win32 mp w sg x n d =
     (let res = cast_to 128 sg (cast_to 128 sg x * cast_to 128 sg n);
          l = cast_to w False res;
          m = take_bit 128 (push_bit 64 (mp (cast_to w sg (drop_bit 64 res))));
          m = m OR mp l
      in if d = 0 then None else Some (cast_to w sg (m div mp d)))"

definition timestamp_fix :: "u64 \<Rightarrow> u64 \<Rightarrow> u64 option" where
  "timestamp_fix clock_hz timestamp = mul_div timestamp NS_PER_S clock_hz"

definition ns_timer :: "u64 \<Rightarrow> u64 \<Rightarrow> u64 option" where
  "ns_timer cycles hz = (if hz = 0 then None else Some (cycles * NS_PER_S div hz))"

text \<open>\<open>rd\<close> is the tick count when \<open>rte_eth_read_clock\<close> returned 0, \<open>None\<close> otherwise.\<close>

definition read_clock :: "bool \<Rightarrow> bool \<Rightarrow> u64 \<Rightarrow> u64 option \<Rightarrow> u64 option \<Rightarrow> u64 option" where
  "read_clock clock_enabled clock_bswap clock_hz rd timer =
     (case rd of
        Some ts \<Rightarrow> if clock_enabled
                   then timestamp_fix clock_hz (if clock_bswap then bswap ts else ts)
                   else timer
      | None \<Rightarrow> timer)"

text \<open>The result is the frequency and the value of the reference parameter \<open>swap\<close>.\<close>

definition estimate_clock_freq ::
    "bool \<Rightarrow> u64 option \<Rightarrow> u64 \<Rightarrow> u64 option \<Rightarrow> u64 \<Rightarrow> u64 \<Rightarrow> (u64 \<times> bool) option" where
  "estimate_clock_freq swap rd0 rtds_ticks_base rd1 rtds_ticks tsc_hz =
     (case rd0 of None \<Rightarrow> Some (0, swap)
      | Some base \<Rightarrow>
        (case rd1 of None \<Rightarrow> Some (0, swap)
         | Some ticks \<Rightarrow>
           (let swap' = (drop_bit 32 ticks \<noteq> drop_bit 32 base);
                dev_ticks = (if swap' then bswap ticks else ticks);
                dev_ticks_base = (if swap' then bswap base else base)
            in if rtds_ticks - rtds_ticks_base = 0 then None
               else Some (tsc_hz * (dev_ticks - dev_ticks_base) div (rtds_ticks - rtds_ticks_base),
                          swap'))))"

text \<open>
  \<open>std::chrono::milliseconds\<close> has a 64-bit count; the number of retries is converted to a
  32-bit \<open>int\<close>, modulo \<open>2^32\<close>.
\<close>

definition retry :: "int \<Rightarrow> int \<times> int" where
  "retry timeout =
     (if timeout \<le> 100 then (timeout, 1)
      else (100, sint (of_int ((timeout + 100 - 1) div 100) :: 32 word)))"

text \<open>
  The polling loop of \<open>device::link_status\<close>. \<open>poll k\<close> is what the \<open>k\<close>-th call of
  \<open>rte_eth_link_get_nowait\<close> returned and whether it reported the link up. The result is the
  value the function returns and the number of polls it made.
\<close>

fun link_poll :: "(nat \<Rightarrow> int \<times> bool) \<Rightarrow> nat \<Rightarrow> nat \<Rightarrow> int \<times> nat" where
  "link_poll poll k 0 = (0, k)"
| "link_poll poll k (Suc retries) =
     (let (res, up) = poll k
      in if res = 0 \<and> up then (res, Suc k) else link_poll poll (Suc k) retries)"

definition link_status :: "(nat \<Rightarrow> int \<times> bool) \<Rightarrow> int \<Rightarrow> int \<times> nat" where
  "link_status poll timeout =
     (let (effective_timeout, retries) = retry timeout in link_poll poll 0 (nat retries))"

definition ether_addr_for_ipv4_mcast :: "u32 \<Rightarrow> byte list" where
  "ether_addr_for_ipv4_mcast addr =
     (let int_addr = drop_bit 16 (bswap ((0x01005e000000 :: u64) OR (ucast addr AND 0x7fffff)))
      in take 6 (to_le 8 (unat int_addr)))"

section \<open>Multiplication and division through 128 bits\<close>

lemma unat_product128:
  "unat ((ucast x :: 128 word) * ucast (n :: u64)) = unat (x :: u64) * unat n"
proof -
  have "unat x * unat n < 2 ^ 64 * 2 ^ 64"
    using unsigned_less [of x, where 'a = nat] unsigned_less [of n, where 'a = nat]
    by (intro mult_strict_mono) simp_all
  then show ?thesis by (simp add: unat_word_ariths unat_ucast_up)
qed

lemma unat_mul_div:
  "mul_div x n d = Some q \<Longrightarrow> unat q = unat x * unat n div unat d mod 2 ^ 64"
proof -
  assume "mul_div x n d = Some q"
  then have "q = ucast ((ucast x :: 128 word) * ucast n div ucast d)"
    by (auto simp: mul_div_def Let_def split: if_splits)
  then have "unat q = unat ((ucast x :: 128 word) * ucast n div ucast d) mod 2 ^ 64"
    by (simp only: unat_ucast_mod) simp
  moreover have "unat (ucast d :: 128 word) = unat d"
    by (rule unat_ucast_up) simp
  ultimately show ?thesis by (simp only: unat_div unat_product128)
qed

lemma mul_div_Some: "d \<noteq> 0 \<Longrightarrow> \<exists>q. mul_div x n d = Some q"
  by (simp add: mul_div_def)

text \<open>\<open>mul_div\<close> traps only for a zero divisor; otherwise it returns the exact quotient of the
  full product, so no bit of \<open>x * n\<close> is lost, and the result is exact whenever it fits in 64 bits.\<close>

theorem mul_div_exact:
  assumes "d \<noteq> 0" and "unat x * unat n div unat d < 2 ^ 64"
  shows "\<exists>q. mul_div x n d = Some q \<and> unat q = unat x * unat n div unat d"
  using mul_div_Some [OF assms(1), of x n] unat_mul_div [of x n d] assms(2) by auto

theorem mul_div_exact_witness:
  "\<exists>q. mul_div (- 1) 111 (- 1) = Some q \<and> unat q = unat (- 1 :: u64) * unat (111 :: u64) div unat (- 1 :: u64)"
  using mul_div_exact [of "- 1" "- 1" 111] by simp

text \<open>The values of an integer type.\<close>

definition in_type :: "nat \<Rightarrow> bool \<Rightarrow> int \<Rightarrow> bool" where
  "in_type w sg v \<longleftrightarrow> (if sg then - (2 ^ (w - 1)) \<le> v \<and> v < 2 ^ (w - 1) else 0 \<le> v \<and> v < 2 ^ w)"

lemma cast_to_in_type: "0 < w \<Longrightarrow> in_type w sg v \<Longrightarrow> cast_to w sg v = v"
  by (auto simp: in_type_def cast_to_def take_bit_int_eq_self signed_take_bit_int_eq_self)

lemma in_type_abs: "in_type w sg v \<Longrightarrow> \<bar>v\<bar> \<le> 2 ^ (if sg then w - 1 else w)"
  by (auto simp: in_type_def)

lemma in_type_128: "w \<le> 64 \<Longrightarrow> in_type w sg v \<Longrightarrow> in_type 128 sg v"
proof -
  assume w: "w \<le> 64" and v: "in_type w sg v"
  then have "w - 1 \<le> 127" "w \<le> 128" by simp_all
  then have "(2 :: int) ^ (w - 1) \<le> 2 ^ 127" "(2 :: int) ^ w \<le> 2 ^ 128" by (intro power_increasing; simp)+
  then show ?thesis using v by (auto simp: in_type_def split: if_splits)
qed

lemma in_type_product:
  assumes "w \<le> 64" and "in_type w sg x" and "in_type w sg n"
  shows "in_type 128 sg (x * n)"
proof (cases sg)
  case True
  have le: "(2 :: int) ^ (w - 1) \<le> 2 ^ 63" using assms(1) by (intro power_increasing) auto
  have "\<bar>x\<bar> \<le> 2 ^ 63" "\<bar>n\<bar> \<le> 2 ^ 63" using in_type_abs [OF assms(2)] in_type_abs [OF assms(3)] True le by auto
  then have "\<bar>x * n\<bar> \<le> 2 ^ 63 * 2 ^ 63" unfolding abs_mult by (intro mult_mono) auto
  then have "- (2 ^ 126) \<le> x * n" "x * n \<le> 2 ^ 126" by simp_all
  then show ?thesis using True by (simp add: in_type_def)
next
  case False
  have le: "(2 :: int) ^ w \<le> 2 ^ 64" using assms(1) by (intro power_increasing) auto
  have "0 \<le> x" "x < 2 ^ 64" "0 \<le> n" "n < 2 ^ 64" using assms(2,3) False le by (auto simp: in_type_def)
  then have "0 \<le> x * n" "x * n < 2 ^ 64 * 2 ^ 64" by (simp, intro mult_strict_mono) simp_all
  then show ?thesis using False by (simp add: in_type_def)
qed

text \<open>The 64-bit function is this instance of the template.\<close>

lemma mul_div_u64: "map_option uint (mul_div x n d) = mul_div_at 64 False (uint x) (uint n) (uint d)"
proof (cases "d = 0")
  case False
  obtain q where q: "mul_div x n d = Some q" using mul_div_Some [OF False] by blast
  have range: "in_type 64 False (uint v)" for v :: u64 using uint_lt2p [of v] by (simp add: in_type_def)
  have ops: "cast_to 128 False (uint v) = uint v" for v :: u64 using in_type_128 [OF _ range] by (simp add: cast_to_in_type)
  have prod: "cast_to 128 False (uint x * uint n) = uint x * uint n"
    using in_type_product [OF _ range range] by (simp add: cast_to_in_type)
  have "uint q = uint x * uint n div uint d mod 2 ^ 64"
    unfolding uint_nat unat_mul_div [OF q] by (simp only: of_nat_mod of_nat_mult zdiv_int of_nat_power of_nat_numeral)
  moreover have "mul_div_at 64 False (uint x) (uint n) (uint d) = Some (cast_to 64 False ((uint x * uint n) sdiv uint d))"
    using False by (simp add: mul_div_at_def ops prod uint_0_iff)
  moreover have "(uint x * uint n) sdiv uint d = uint x * uint n div uint d"
  proof -
    have "0 < uint d" using False uint_ge_0 [of d] uint_0_iff [of d] by linarith
    then show ?thesis by (cases "uint x * uint n = 0") (auto simp: signed_divide_int_def sgn_if)
  qed
  ultimately show ?thesis by (simp add: q cast_to_def take_bit_eq_mod)
qed (simp add: mul_div_def mul_div_at_def)

text \<open>A product of operands that are not negative is put together again from its upper 64 bits and its low part.\<close>

lemma win32_halves:
  assumes "w \<in> {32, 64}" and "in_type w sg x" and "in_type w sg n" and "0 \<le> x" and "0 \<le> n"
    and "\<forall>v. 0 \<le> v \<and> v < 2 ^ 128 \<longrightarrow> mp v = v"
  shows "take_bit 128 (push_bit 64 (mp (cast_to w sg (drop_bit 64 (x * n))))) OR mp (cast_to w False (x * n)) =
     (if w = 64 then x * n else x * n mod 2 ^ 32)"
proof -
  let ?b = "2 ^ (if sg then w - 1 else w) :: int"
  let ?h = "drop_bit 64 (x * n)"
  have "x < ?b" "n < ?b" using assms(2,3) by (auto simp: in_type_def)
  then have r: "0 \<le> x * n" "x * n < ?b * ?b" using assms(4,5) by (auto intro!: mult_strict_mono)
  have h: "?h = x * n div 2 ^ 64" by (simp add: drop_bit_eq_div)
  have "0 \<le> ?h" "?h < 2 ^ 64" "in_type w sg ?h" "w = 32 \<Longrightarrow> ?h = 0"
    using assms(1) r unfolding h by (auto simp: in_type_def split: if_splits)
  then have "take_bit 128 (push_bit 64 (mp (cast_to w sg ?h))) = push_bit 64 ?h"
    using assms(1,6) by (subst cast_to_in_type) (auto simp: push_bit_eq_mult take_bit_int_eq_self)
  moreover have "(2 :: int) ^ w \<le> 2 ^ 128" using assms(1) by auto
  then have "take_bit w (x * n) < 2 ^ 128" by (rule order_less_le_trans [OF take_bit_int_less_exp])
  then have "mp (take_bit w (x * n)) = take_bit w (x * n)"
    using assms(6) by simp
  moreover have "push_bit 64 ?h OR take_bit 64 (x * n) = x * n" by (rule bit_eqI) (auto simp: bit_simps)
  ultimately show ?thesis
    using assms(1) \<open>w = 32 \<Longrightarrow> ?h = 0\<close> by (auto simp: cast_to_def take_bit_eq_mod)
qed



section \<open>Clocks\<close>

text \<open>With \<open>clock_hz = NS_PER_S\<close>, the value the constructor sets when the device has no clock,
  \<open>timestamp_fix\<close> returns what it gets.\<close>

lemma timestamp_fix_ns: "timestamp_fix NS_PER_S ts = Some ts"
proof -
  obtain q where q: "mul_div ts NS_PER_S NS_PER_S = Some q"
    using mul_div_Some [of NS_PER_S ts NS_PER_S] by auto
  have "unat q = unat ts * 1000000000 div 1000000000 mod 2 ^ 64"
    using unat_mul_div [OF q] by simp
  also have "\<dots> = unat ts"
    using unsigned_less [of ts, where 'a = nat] by simp
  finally show ?thesis by (simp add: timestamp_fix_def q word_unat_eq_iff)
qed

lemma unat_ns_timer:
  "hz \<noteq> 0 \<Longrightarrow> ns_timer c hz = Some (c * NS_PER_S div hz)"
  by (simp add: ns_timer_def)

text \<open>\<open>ns_timer\<close> multiplies in 64 bits, so whatever the cycle counter shows, its result is at
  most \<open>(2^64 - 1) / hz\<close> nanoseconds: about 6.1 seconds on a 3 GHz timer, after which it restarts.\<close>

theorem ns_timer_bounded:
  assumes "ns_timer cycles hz = Some t"
  shows "unat t \<le> (2 ^ 64 - 1) div unat hz"
proof -
  from assms have "t = cycles * NS_PER_S div hz" by (auto simp: ns_timer_def split: if_splits)
  moreover have "unat (cycles * NS_PER_S) \<le> 2 ^ 64 - 1"
    using unsigned_less [of "cycles * NS_PER_S", where 'a = nat] by simp
  ultimately show ?thesis by (simp add: unat_div div_le_mono)
qed

theorem ns_timer_bounded_witness:
  "ns_timer 18446744074 3000000000 = Some 0 \<and> unat (0 :: u64) \<le> (2 ^ 64 - 1) div unat (3000000000 :: u64)"
proof -
  have "ns_timer 18446744074 3000000000 = Some 0" by (simp add: ns_timer_def)
  with ns_timer_bounded [OF this] show ?thesis by simp
qed

lemma ns_timer_exact:
  assumes "hz \<noteq> 0" and "unat cycles * 10 ^ 9 < 2 ^ 64" and "ns_timer cycles hz = Some t"
  shows "unat t = unat cycles * 10 ^ 9 div unat hz"
proof -
  have "unat (cycles * NS_PER_S) = unat cycles * 10 ^ 9"
    using assms(2) by (simp add: unat_word_ariths)
  with assms(1,3) show ?thesis by (auto simp: ns_timer_def unat_div)
qed

text \<open>The reading of \<open>swap\<close>: two readings with the same upper half are taken as native.\<close>

lemma estimate_no_swap:
  assumes "drop_bit 32 ticks = drop_bit 32 base" and "rtds_ticks \<noteq> rtds_base"
  shows "estimate_clock_freq s (Some base) rtds_base (Some ticks) rtds_ticks hz
       = Some (hz * (ticks - base) div (rtds_ticks - rtds_base), False)"
  using assms by (simp add: estimate_clock_freq_def)

section \<open>Waiting\<close>

lemma sint_of_int_small: "- (2 ^ 31) \<le> k \<Longrightarrow> k < 2 ^ 31 \<Longrightarrow> sint (of_int k :: 32 word) = k"
  by (simp add: signed_of_int signed_take_bit_int_eq_self)

text \<open>\<open>retry\<close> splits a waiting time into at least one slice of at most 100 ms that together
  cover the time, with less than one slice to spare.\<close>

theorem retry_covers:
  assumes "0 < t" and "t \<le> 100 * (2 ^ 31 - 1)"
  shows "case retry t of (eff, n) \<Rightarrow>
           0 < eff \<and> eff \<le> 100 \<and> 1 \<le> n \<and> t \<le> eff * n \<and> eff * n < t + eff"
proof (cases "t \<le> 100")
  case True
  with assms show ?thesis by (simp add: retry_def)
next
  case False
  let ?q = "(99 + t) div 100"
  have "1 \<le> ?q" and "?q < 2 ^ 31" using False assms(2) by simp_all
  then have "sint (of_int ?q :: 32 word) = ?q" by (intro sint_of_int_small) simp_all
  moreover have "t \<le> 100 * ?q" and "100 * ?q < t + 100" by simp_all
  ultimately show ?thesis using False \<open>1 \<le> ?q\<close> by (simp add: retry_def)
qed

theorem retry_covers_witness:
  "retry 3000 = (100, 30) \<and> (case retry 3000 of (eff, n) \<Rightarrow>
     0 < eff \<and> eff \<le> 100 \<and> 1 \<le> n \<and> (3000 :: int) \<le> eff * n \<and> eff * n < 3000 + eff)"
  using retry_covers [of 3000] by (simp add: retry_def)

lemma link_poll_zero: "fst (link_poll poll k r) = 0"
  by (induction poll k r rule: link_poll.induct) (auto simp: Let_def split: prod.splits)

lemma link_poll_count: "k \<le> snd (link_poll poll k r) \<and> snd (link_poll poll k r) \<le> k + r"
  by (induction poll k r rule: link_poll.induct) (force simp: Let_def split: prod.splits)+

text \<open>\<open>link_status\<close> returns 0 in every case, also when every query failed or the link stayed
  down until the timeout, and polls at most as often as \<open>retry\<close> says. The caller's test for a
  non-zero result never fires.\<close>

theorem link_status_always_zero:
  "fst (link_status poll t) = 0 \<and> snd (link_status poll t) \<le> nat (snd (retry t))"
  using link_poll_zero [of poll 0] link_poll_count [of 0 poll]
  by (simp add: link_status_def case_prod_beta)

section \<open>Multicast MAC addresses\<close>

lemma drop_to_le: "drop k (to_le n v) = to_le (n - k) (v div 256 ^ k)"
  by (rule nth_equalityI) (simp_all add: nth_to_le power_add flip: div_mult2_eq)

lemma take_to_le: "k \<le> n \<Longrightarrow> take k (to_le n v) = to_le k v"
  by (rule nth_equalityI) (simp_all add: nth_to_le)

lemma high_bytes: "take 6 (to_le 8 (unat (drop_bit 16 w))) = drop 2 (to_le 8 (unat (w :: u64)))"
  by (simp add: take_to_le drop_to_le unat_drop_bit_div)

lemma byte_numerals:
  "(16801280 :: byte) = 0" "(4301127680 :: byte) = 0" "(1101088686080 :: byte) = 0"
  "(32767 :: byte) = - 1" "(8388607 :: byte) = - 1"
  by simp_all

lemma ucast_drop_bit_ucast:
  "k \<le> 24 \<Longrightarrow> (ucast (drop_bit k (ucast (a :: u32) :: u64)) :: byte) = ucast (drop_bit k a)"
  by (rule bit_word_eqI) (auto simp: bit_simps)

lemmas ucast_ucast_byte = ucast_drop_bit_ucast [of 0, simplified]

text \<open>For a host-order group address the MAC address is \<open>01:00:5e\<close> and the low 23 bits of the
  group, in network order.\<close>

theorem mcast_mac_correct:
  "ether_addr_for_ipv4_mcast addr =
     [0x01, 0x00, 0x5e, ucast (drop_bit 16 addr) AND 0x7f, ucast (drop_bit 8 addr), ucast addr]"
proof -
  let ?v = "(0x01005e000000 :: u64) OR (ucast addr AND 0x7fffff)"
  have "ether_addr_for_ipv4_mcast addr = drop 2 (rev (to_le 8 (unat ?v)))"
    by (simp add: ether_addr_for_ipv4_mcast_def high_bytes to_le_bswap)
  also have "\<dots> = rev (to_le 6 (unat ?v))"
    by (simp add: drop_rev take_to_le)
  also have "\<dots> = map (\<lambda>i. ucast (drop_bit (8 * i) ?v)) [5, 4, 3, 2, 1, 0]"
    by (simp add: to_le_word upt_rec)
  finally show ?thesis
    by (simp add: unsigned_or_eq unsigned_and_eq byte_numerals ucast_drop_bit_ucast ucast_ucast_byte)
qed

end
