(* ===== verification/Sockperf_Proto.thy ===== *)
theory Sockperf_Proto
  imports Dpdk_Prelude
begin

text \<open>
  The sockperf message header of \<open>sockperf/sockperf.hpp\<close> (sequence number, message type, message
  size, all big-endian) and the sequence-number tags of \<open>sockperf/x.hpp\<close>. A packet pointer is a
  memory whose offset 0 is the first header byte. The enumeration has a fixed 16-bit underlying
  type and is read from the wire, so it ranges over all 16-bit values.
\<close>

section \<open>Message types\<close>

type_synonym seqn_t = u64
type_synonym message_size_t = u32

abbreviation type_Client :: u16 where "type_Client \<equiv> 1"
abbreviation type_Pong :: u16 where "type_Pong \<equiv> 2"
abbreviation type_Ping :: u16 where "type_Ping \<equiv> 3"
abbreviation type_WarmupMessage :: u16 where "type_WarmupMessage \<equiv> 4"
abbreviation type_WarmupPong :: u16 where "type_WarmupPong \<equiv> 4 OR 2"
abbreviation type_WarmupPing :: u16 where "type_WarmupPing \<equiv> 4 OR 3"

definition type_to_string :: "u16 \<Rightarrow> string" where
  "type_to_string t =
     (if t = type_Pong then ''pong''
      else if t = type_Ping then ''ping''
      else if t = type_WarmupPong then ''warmup | pong''
      else if t = type_WarmupPing then ''warmup | ping''
      else ''unknown'')"

definition header_size :: nat where
  "header_size = 8 + 2 + 4"

section \<open>Header fields\<close>

definition seqn :: "memory \<Rightarrow> seqn_t" where
  "seqn packet = bswap (ldw packet 0)"

definition set_seqn :: "seqn_t \<Rightarrow> memory \<Rightarrow> memory" where
  "set_seqn value packet = stw packet 0 (bswap value)"

definition message_type :: "memory \<Rightarrow> u16" where
  "message_type packet = bswap (ldw packet 8)"

definition set_message_type :: "u16 \<Rightarrow> memory \<Rightarrow> memory" where
  "set_message_type value packet = stw packet 8 (bswap value)"

definition message_size :: "memory \<Rightarrow> message_size_t" where
  "message_size packet = bswap (ldw packet (8 + 2))"

definition set_message_size :: "message_size_t \<Rightarrow> memory \<Rightarrow> memory" where
  "set_message_size value packet = stw packet (8 + 2) (bswap value)"

text \<open>\<open>payload\<close> is the pointer behind the header, \<open>payload_size\<close> what is left of \<open>n\<close> bytes.\<close>

definition payload :: "memory \<Rightarrow> memory" where
  "payload packet = (\<lambda>i. packet (header_size + i))"

definition payload_size :: "nat \<Rightarrow> nat" where
  "payload_size n = n - header_size"

section \<open>Sequence-number tags\<close>

definition warmup_mask :: seqn_t where
  "warmup_mask = push_bit 63 1"

definition is_warmup :: "seqn_t \<Rightarrow> bool" where
  "is_warmup s \<longleftrightarrow> s AND warmup_mask \<noteq> 0"

definition warmup :: "seqn_t \<Rightarrow> seqn_t" where
  "warmup s = s OR warmup_mask"

definition make_seqn :: "u8 \<Rightarrow> seqn_t \<Rightarrow> seqn_t" where
  "make_seqn queue s = push_bit 56 (ucast queue) OR s"

definition split_seqn :: "seqn_t \<Rightarrow> u8 \<times> seqn_t" where
  "split_seqn s = (ucast (drop_bit 56 s), s AND 0xfffffff)"

section \<open>Reading back what was written\<close>

lemmas header_defs = seqn_def set_seqn_def message_type_def set_message_type_def
  message_size_def set_message_size_def

text \<open>A field of the header occupies the bytes from \<open>lo\<close> to \<open>hi\<close>: its setter writes only there, and its
  getter reads only there and returns what was written.\<close>

locale wire_field =
  fixes get :: "memory \<Rightarrow> 'a" and put :: "'a \<Rightarrow> memory \<Rightarrow> memory" and lo hi :: nat
  assumes get_put: "get (put v m) = v"
    and frame: "i < lo \<or> hi \<le> i \<Longrightarrow> put v m i = m i"
    and reads: "(\<And>i. lo \<le> i \<Longrightarrow> i < hi \<Longrightarrow> m i = m' i) \<Longrightarrow> get m = get m'"

text \<open>Two fields that do not overlap.\<close>

locale disjoint_fields = a: wire_field get put lo hi + b: wire_field get' put' lo' hi'
  for get :: "memory \<Rightarrow> 'a" and put lo hi and get' :: "memory \<Rightarrow> 'b" and put' lo' hi' +
  assumes apart: "hi \<le> lo'"
begin

lemma first_kept: "get (put' w m) = get m"
  by (rule a.reads) (use apart in \<open>simp add: b.frame\<close>)

lemma second_kept: "get' (put v m) = get' m"
  by (rule b.reads) (use apart in \<open>simp add: a.frame\<close>)

end

text \<open>Every accessor is a big-endian load and store of a word at a fixed offset.\<close>

lemma be_field:
  assumes "8 dvd LENGTH('a)"
  shows "wire_field (\<lambda>m. bswap (ldw m off :: 'a::len word)) (\<lambda>v m. stw m off (bswap v)) off (off + LENGTH('a) div 8)"
  using assms by unfold_locales (auto simp: mem_simps intro!: arg_cong [of _ _ bswap] ldw_cong)

interpretation seqn_field: wire_field seqn set_seqn 0 8
  using be_field [where 'a = 64, of 0] by (simp add: header_defs [abs_def])

interpretation type_field: wire_field message_type set_message_type 8 10
  using be_field [where 'a = 16, of 8] by (simp add: header_defs [abs_def])

interpretation size_field: wire_field message_size set_message_size 10 14
  using be_field [where 'a = 32, of 10] by (simp add: header_defs [abs_def])

interpretation seqn_type: disjoint_fields seqn set_seqn 0 8 message_type set_message_type 8 10
  by unfold_locales simp

interpretation seqn_size: disjoint_fields seqn set_seqn 0 8 message_size set_message_size 10 14
  by unfold_locales simp

interpretation type_size: disjoint_fields message_type set_message_type 8 10 message_size set_message_size 10 14
  by unfold_locales simp

lemmas header_field_simps = seqn_field.get_put type_field.get_put size_field.get_put
  seqn_type.first_kept seqn_type.second_kept seqn_size.first_kept seqn_size.second_kept
  type_size.first_kept type_size.second_kept

text \<open>Each setter followed by its getter returns the value, and no setter disturbs another
  field or a byte outside its own field.\<close>

theorem header_roundtrip:
  "seqn (set_seqn s (set_message_type t (set_message_size n p))) = s
   \<and> message_type (set_seqn s (set_message_type t (set_message_size n p))) = t
   \<and> message_size (set_seqn s (set_message_type t (set_message_size n p))) = n
   \<and> payload (set_seqn s (set_message_type t (set_message_size n p))) = payload p"
proof -
  have "payload (set_seqn s (set_message_type t (set_message_size n p))) = payload p"
    by (rule ext) (simp add: payload_def header_size_def seqn_field.frame type_field.frame size_field.frame)
  then show ?thesis by (simp add: header_field_simps)
qed

lemma setters_commute:
  "set_seqn s (set_message_type t p) = set_message_type t (set_seqn s p)"
  by (rule ext) (auto simp: header_defs stw_def store_apply)

lemma header_bytes:
  "fetch (set_seqn s (set_message_type t (set_message_size n p))) 0 header_size =
     rev (to_le 8 (unat s)) @ rev (to_le 2 (unat t)) @ rev (to_le 4 (unat n))"
proof -
  let ?m = "set_seqn s (set_message_type t (set_message_size n p))"
  have "fetch ?m 0 header_size = fetch ?m 0 8 @ fetch ?m 8 2 @ fetch ?m 10 4"
    using fetch_append [of ?m 0 8 6] fetch_append [of ?m 8 2 4] by (simp add: header_size_def)
  then show ?thesis
    by (simp add: header_defs mem_simps to_le_bswap)
qed

text \<open>The header of a ping with sequence number 7 and size 14 is the byte string the source
  documents: \<open>00 00 00 00 00 00 00 07 00 03 00 00 00 0e\<close>.\<close>

theorem header_example:
  "fetch (set_seqn 7 (set_message_type type_Ping (set_message_size 14 p))) 0 header_size =
     [0, 0, 0, 0, 0, 0, 0, 7, 0, 3, 0, 0, 0, 14]"
  by (simp add: header_bytes to_le_numeral)

text \<open>Only the type field changes between a ping and its pong.\<close>

lemma pong_keeps_seqn: "seqn (set_message_type t p) = seqn p"
  and pong_keeps_size: "message_size (set_message_type t p) = message_size p"
  by (simp_all add: header_field_simps)

section \<open>Tagged sequence numbers\<close>

lemma warmup_is_warmup [simp]: "is_warmup (warmup s)"
proof -
  have "bit (warmup s AND warmup_mask) 63"
    by (simp add: warmup_def warmup_mask_def bit_simps)
  then show ?thesis by (auto simp: is_warmup_def)
qed

lemma is_warmup_bit: "is_warmup s \<longleftrightarrow> bit s 63"
proof -
  have mask: "warmup_mask = 2 ^ 63" by (simp add: warmup_mask_def)
  show ?thesis by (simp only: is_warmup_def mask and_exp_eq_0_iff_not_bit not_not)
qed

lemma small_word_bits:
  assumes "unat (s :: u64) < 2 ^ k" and "bit s n"
  shows "n < k"
proof (rule ccontr)
  assume "\<not> n < k"
  moreover have "take_bit k s = s"
    using assms(1) by (simp add: word_unat_eq_iff unsigned_take_bit_eq take_bit_nat_eq_self)
  then have "bit (take_bit k s) n" using assms(2) by simp
  ultimately show False by (simp add: bit_simps)
qed

lemma mask28: "(0xfffffff :: u64) = mask 28"
  by (simp add: mask_eq_exp_minus_1)

lemma split_make_masked:
  assumes "s < 2 ^ 56"
  shows "split_seqn (make_seqn q s) = (q, take_bit 28 s)"
proof -
  have small: "unat s < 2 ^ 56" using assms by (simp add: word_less_nat_alt)
  have "ucast (drop_bit 56 (push_bit 56 (ucast q) OR s)) = q"
    by (rule bit_word_eqI) (auto simp: bit_simps dest: small_word_bits [OF small])
  moreover have "(push_bit 56 (ucast q) OR s) AND mask 28 = take_bit 28 s"
    by (rule bit_word_eqI) (auto simp: bit_simps)
  ultimately show ?thesis
    by (simp add: split_seqn_def make_seqn_def mask28)
qed

text \<open>\<open>make_seqn\<close> leaves 56 bits to the sequence number, and for those the queue survives
  \<open>split_seqn\<close> always; the sequence number survives exactly when it is below \<open>2^28\<close>, because
  \<open>split_seqn\<close> masks with \<open>0xfffffff\<close>.\<close>

theorem split_make_seqn:
  assumes "s < 2 ^ 56"
  shows "fst (split_seqn (make_seqn q s)) = q
       \<and> (split_seqn (make_seqn q s) = (q, s) \<longleftrightarrow> s < 2 ^ 28)"
proof -
  have "take_bit 28 s = s \<longleftrightarrow> unat s < 2 ^ 28"
    by (simp add: word_unat_eq_iff unsigned_take_bit_eq take_bit_nat_eq_self_iff)
  then show ?thesis
    by (simp add: split_make_masked [OF assms] word_less_nat_alt)
qed

theorem split_make_seqn_witness:
  "(5 :: seqn_t) < 2 ^ 56 \<and> split_seqn (make_seqn 3 5) = (3, 5)
   \<and> (2 ^ 28 + 5 :: seqn_t) < 2 ^ 56 \<and> split_seqn (make_seqn 3 (2 ^ 28 + 5)) \<noteq> (3, 2 ^ 28 + 5)"
  using split_make_seqn [of 5 3] split_make_seqn [of "2 ^ 28 + 5" 3] by simp

end
