(* ===== verification/Mbuf.thy ===== *)
theory Mbuf
  imports Dpdk_Prelude
begin

text \<open>
  Packet buffers: the fields of \<open>rte_mbuf\<close> the program uses, the header builders of
  \<open>dpdkx/mbuf.cpp\<close> and the Ethernet parsing of \<open>dpdkx/detail/utils.hpp\<close>. \<open>mem\<close> is the data area
  as seen from \<open>rte_pktmbuf_mtod\<close>; bytes behind \<open>data_len\<close> are whatever an earlier packet left
  there. The layer lengths are bit fields of 7, 9 and 8 bits, as \<open>rte_mbuf_core.h\<close> documents, and
  wrap like them. \<open>buf_id\<close> stands for the address of the buffer.
\<close>

section \<open>Buffers\<close>

record rte_mbuf =
  buf_id :: nat
  mem :: memory
  data_len :: u16
  pkt_len :: u32
  nb_segs :: u16
  seg_next :: "nat option"
  l2_len :: "7 word"
  l3_len :: "9 word"
  l4_len :: "8 word"
  ol_flags :: u64

definition make_ether :: "rte_mbuf \<Rightarrow> u16 \<Rightarrow> u64 \<Rightarrow> rte_mbuf" where
  "make_ether buffer ether_type payload_size =
     (let total_size = 14 + payload_size
      in buffer\<lparr>nb_segs := 1, seg_next := None,
                mem := stw (mem buffer) 12 ether_type,
                l2_len := 14,
                pkt_len := ucast (ucast total_size :: u16),
                data_len := ucast total_size,
                ol_flags := 0\<rparr>)"

definition make_ipv4 :: "rte_mbuf \<Rightarrow> u8 \<Rightarrow> u64 \<Rightarrow> rte_mbuf" where
  "make_ipv4 buffer next_proto_id payload_size =
     (let total_size = 20 + payload_size;
          buffer = make_ether buffer (bswap RTE_ETHER_TYPE_IPV4) total_size;
          ip4hdr = unat (l2_len buffer);
          m = mem buffer;
          m = stw m ip4hdr (0x45 :: u8);
          m = stw m (ip4hdr + 1) (0 :: u8);
          m = stw m (ip4hdr + 2) (bswap (ucast (20 + payload_size) :: u16));
          m = stw m (ip4hdr + 4) (0 :: u16);
          m = stw m (ip4hdr + 6) (0 :: u16);
          m = stw m (ip4hdr + 8) (64 :: u8);
          m = stw m (ip4hdr + 9) next_proto_id;
          m = stw m (ip4hdr + 10) (0 :: u16)
      in buffer\<lparr>mem := m, l3_len := 20\<rparr>)"

definition make_udp :: "rte_mbuf \<Rightarrow> u64 \<Rightarrow> rte_mbuf" where
  "make_udp buffer payload_size =
     (let total_size = 8 + payload_size;
          buffer = make_ipv4 buffer IPPROTO_UDP total_size;
          udphdr = unat (l2_len buffer) + unat (l3_len buffer);
          m = mem buffer;
          m = stw m (udphdr + 4) (bswap (ucast total_size :: u16));
          m = stw m (udphdr + 6) (0 :: u16)
      in buffer\<lparr>mem := m, l4_len := 8\<rparr>)"

section \<open>Parsing the link layer\<close>

text \<open>\<open>rte_ipv4_hdr_len\<close>: the IHL nibble counts 32-bit words.\<close>

definition ipv4_hdr_len :: "memory \<Rightarrow> nat \<Rightarrow> nat" where
  "ipv4_hdr_len m ipv4hdr = unat (m ipv4hdr AND 0xf) * 4"

definition eth_proto :: "rte_mbuf \<Rightarrow> u16" where
  "eth_proto buffer = ldw (mem buffer) (unat (l2_len buffer) - 2)"

definition is_vlan :: "u16 \<Rightarrow> bool" where
  "is_vlan proto \<longleftrightarrow> proto = bswap RTE_ETHER_TYPE_VLAN \<or> proto = bswap RTE_ETHER_TYPE_QINQ"

text \<open>
  The loop over VLAN tags. \<open>None\<close> means that the fuel ran out before the loop was left.
\<close>

fun skip_vlans :: "nat \<Rightarrow> rte_mbuf \<Rightarrow> u16 \<Rightarrow> (u16 \<times> rte_mbuf) option" where
  "skip_vlans 0 buffer proto = None"
| "skip_vlans (Suc fuel) buffer proto =
     (if is_vlan proto then
        (let vlan_hdr = unat (l2_len buffer);
             buffer = buffer\<lparr>l2_len := l2_len buffer + 4\<rparr>
         in if unat (l2_len buffer) > unat (data_len buffer) then Some (0, buffer)
            else skip_vlans fuel buffer (ldw (mem buffer) (vlan_hdr + 2)))
      else Some (proto, buffer))"

definition update_l2size :: "nat \<Rightarrow> rte_mbuf \<Rightarrow> (u16 \<times> rte_mbuf) option" where
  "update_l2size fuel buffer =
     (let buffer = buffer\<lparr>l2_len := 14\<rparr>
      in if 14 > unat (data_len buffer) then Some (0, buffer)
         else skip_vlans fuel buffer (ldw (mem buffer) 12))"

section \<open>Built headers\<close>

lemma make_ether_fields [simp]:
  "l2_len (make_ether b t n) = 14" "ol_flags (make_ether b t n) = 0"
  "mem (make_ether b t n) = stw (mem b) 12 t"
  "data_len (make_ether b t n) = ucast (14 + n)"
  "pkt_len (make_ether b t n) = ucast (ucast (14 + n) :: u16)"
  by (simp_all add: make_ether_def Let_def)

lemma make_udp_lengths:
  "l2_len (make_udp b n) = 14" "l3_len (make_udp b n) = 20" "l4_len (make_udp b n) = 8"
  "data_len (make_udp b n) = ucast (14 + (20 + (8 + n)))"
  "pkt_len (make_udp b n) = ucast (ucast (14 + (20 + (8 + n))) :: u16)"
  "ol_flags (make_udp b n) = 0"
  by (simp_all add: make_udp_def make_ipv4_def Let_def)

lemma make_udp_mem:
  "ldw (mem (make_udp b n)) 12 = bswap RTE_ETHER_TYPE_IPV4"
  "mem (make_udp b n) 14 = 0x45" "mem (make_udp b n) 22 = 64" "mem (make_udp b n) 23 = IPPROTO_UDP"
  "ldw (mem (make_udp b n)) 16 = bswap (ucast (20 + (8 + n)) :: u16)"
  "ldw (mem (make_udp b n)) 38 = bswap (ucast (8 + n) :: u16)"
  "ldw (mem (make_udp b n)) 40 = (0 :: u16)"
  by (simp_all add: make_udp_def make_ipv4_def Let_def mem_simps)

text \<open>\<open>make_udp\<close> writes one consistent packet: for every payload that fits into 16 bits of
  total length the buffer lengths, the IPv4 total length and the UDP length count the payload
  and exactly the headers in front of it, and the three header lengths delimit the headers.\<close>

theorem make_udp_layout:
  assumes "unat n \<le> 65535 - 42"
  shows "unat (data_len (make_udp b n)) = 42 + unat n
       \<and> unat (pkt_len (make_udp b n)) = 42 + unat n
       \<and> unat (l2_len (make_udp b n)) + unat (l3_len (make_udp b n)) + unat (l4_len (make_udp b n)) = 42
       \<and> eth_proto (make_udp b n) = bswap RTE_ETHER_TYPE_IPV4
       \<and> ipv4_hdr_len (mem (make_udp b n)) 14 = unat (l3_len (make_udp b n))
       \<and> unat (bswap (ldw (mem (make_udp b n)) 16 :: u16)) = 28 + unat n
       \<and> unat (bswap (ldw (mem (make_udp b n)) 38 :: u16)) = 8 + unat n"
proof -
  have n: "unat n < 65536" using assms by simp
  then have sums: "unat (8 + n) = 8 + unat n" "unat (20 + (8 + n)) = 28 + unat n"
    "unat (14 + (20 + (8 + n))) = 42 + unat n"
    using assms by (simp_all add: unat_word_ariths)
  have "unat (ucast (14 + (20 + (8 + n))) :: u16) = 42 + unat n"
    and "unat (ucast (20 + (8 + n)) :: u16) = 28 + unat n"
    and "unat (ucast (8 + n) :: u16) = 8 + unat n"
    using assms by (simp_all only: unat_ucast_mod sums) simp_all
  then show ?thesis
    by (simp add: make_udp_lengths make_udp_mem eth_proto_def ipv4_hdr_len_def unat_ucast_up
        del: be_ether_types)
qed

theorem make_udp_layout_witness:
  "unat (data_len (make_udp \<lparr>buf_id = 0, mem = (\<lambda>_. 0), data_len = 0, pkt_len = 0, nb_segs = 0,
     seg_next = None, l2_len = 0, l3_len = 0, l4_len = 0, ol_flags = 0\<rparr> 14)) = 56"
  using make_udp_layout [of 14] by simp

text \<open>\<open>make_udp\<close> leaves the MAC addresses, the IP addresses, the ports and the payload as they
  are in the buffer.\<close>

theorem make_udp_frame:
  assumes "i < 12 \<or> (26 \<le> i \<and> i < 38) \<or> 42 \<le> i"
  shows "mem (make_udp b n) i = mem b i"
  using assms by (auto simp: make_udp_def make_ipv4_def Let_def mem_simps)

theorem make_udp_frame_witness:
  "(42 :: nat) \<le> 42 \<and> mem (make_udp \<lparr>buf_id = 0, mem = (\<lambda>_. 7), data_len = 0, pkt_len = 0,
     nb_segs = 0, seg_next = None, l2_len = 0, l3_len = 0, l4_len = 0, ol_flags = 0\<rparr> 14) 42 = 7"
  using make_udp_frame [of 42 "\<lparr>buf_id = 0, mem = (\<lambda>_. 7), data_len = 0, pkt_len = 0,
     nb_segs = 0, seg_next = None, l2_len = 0, l3_len = 0, l4_len = 0, ol_flags = 0\<rparr>" 14] by simp

section \<open>VLAN tags\<close>

text \<open>The EtherType field behind the \<open>k\<close>-th tag.\<close>

definition ether_type_at :: "rte_mbuf \<Rightarrow> nat \<Rightarrow> u16" where
  "ether_type_at b k = ldw (mem b) (12 + 4 * k)"

text \<open>The layer-2 length behind \<open>k\<close> tags, as the bit field holds it.\<close>

definition l2_behind :: "nat \<Rightarrow> 7 word" where
  "l2_behind k = of_nat (14 + 4 * k)"

lemma unat_l2_behind [simp]: "k \<le> 28 \<Longrightarrow> unat (l2_behind k) = 14 + 4 * k"
  unfolding l2_behind_def by (simp only: unat_of_nat_mod) simp

lemma l2_behind_plus4 [simp]: "l2_behind j + 4 = l2_behind (Suc j)" "4 + l2_behind j = l2_behind (Suc j)"
  by (simp_all add: l2_behind_def)

lemma l2_behind_0 [simp]: "l2_behind 0 = 14"
  by (simp add: l2_behind_def)

lemma skip_vlans_step:
  assumes "is_vlan (ether_type_at b j)" and "j < 28"
  shows "skip_vlans (Suc fuel) (b\<lparr>l2_len := l2_behind j\<rparr>) (ether_type_at b j) =
     (if 14 + 4 * Suc j > unat (data_len b)
      then Some (0, b\<lparr>l2_len := l2_behind (Suc j)\<rparr>)
      else skip_vlans fuel (b\<lparr>l2_len := l2_behind (Suc j)\<rparr>) (ether_type_at b (Suc j)))"
  using assms by (simp add: Let_def ether_type_at_def algebra_simps)

lemma skip_vlans_to:
  assumes "\<forall>i. j \<le> i \<and> i < k \<longrightarrow> is_vlan (ether_type_at b i)" and "\<not> is_vlan (ether_type_at b k)"
    and "j \<le> k" and "k \<le> 28" and "14 + 4 * k \<le> unat (data_len b)" and "k - j < fuel"
  shows "skip_vlans fuel (b\<lparr>l2_len := l2_behind j\<rparr>) (ether_type_at b j) =
     Some (ether_type_at b k, b\<lparr>l2_len := l2_behind k\<rparr>)"
  using assms
proof (induction "k - j" arbitrary: j fuel)
  case 0
  then obtain f where "fuel = Suc f" and "j = k" by (cases fuel) auto
  with "0.prems" show ?case by simp
next
  case (Suc d)
  then obtain f where f: "fuel = Suc f" by (cases fuel) auto
  from Suc have j: "is_vlan (ether_type_at b j)" "j < 28" "14 + 4 * Suc j \<le> unat (data_len b)" by auto
  have "skip_vlans f (b\<lparr>l2_len := l2_behind (Suc j)\<rparr>) (ether_type_at b (Suc j)) =
     Some (ether_type_at b k, b\<lparr>l2_len := l2_behind k\<rparr>)"
    using Suc.prems Suc.hyps(2) f by (intro Suc.hyps(1)) auto
  with j show ?case unfolding f by (subst skip_vlans_step) simp_all
qed

lemma update_l2size_start:
  "14 \<le> unat (data_len b) \<Longrightarrow>
     update_l2size fuel b = skip_vlans fuel (b\<lparr>l2_len := l2_behind 0\<rparr>) (ether_type_at b 0)"
  by (simp add: update_l2size_def ether_type_at_def)

lemma update_l2size_to:
  assumes "\<forall>i < k. is_vlan (ether_type_at b i)" and "\<not> is_vlan (ether_type_at b k)"
    and "k \<le> 28" and "14 + 4 * k \<le> unat (data_len b)" and "k < fuel"
  shows "update_l2size fuel b = Some (ether_type_at b k, b\<lparr>l2_len := l2_behind k\<rparr>)"
proof -
  have "14 \<le> unat (data_len b)" using assms(4) by simp
  then show ?thesis
    using assms by (simp only: update_l2size_start) (rule skip_vlans_to, auto)
qed

text \<open>C9: a frame with \<open>k\<close> tags, \<open>k\<close> at most 28, that holds its headers is parsed completely:
  \<open>update_l2size\<close> returns the EtherType behind the last tag, sets \<open>l2_len\<close> to \<open>14 + 4 k\<close>, and
  \<open>eth_proto\<close> then reads the same EtherType.\<close>

theorem update_l2size_correct:
  assumes "\<forall>i < k. is_vlan (ether_type_at b i)" and "\<not> is_vlan (ether_type_at b k)"
    and "k \<le> 28" and "14 + 4 * k \<le> unat (data_len b)" and "k < fuel"
  shows "update_l2size fuel b = Some (ether_type_at b k, b\<lparr>l2_len := l2_behind k\<rparr>)
       \<and> eth_proto (b\<lparr>l2_len := l2_behind k\<rparr>) = ether_type_at b k"
proof
  show "update_l2size fuel b = Some (ether_type_at b k, b\<lparr>l2_len := l2_behind k\<rparr>)"
    by (rule update_l2size_to [OF assms])
  show "eth_proto (b\<lparr>l2_len := l2_behind k\<rparr>) = ether_type_at b k"
    using assms(3) by (simp add: eth_proto_def ether_type_at_def)
qed

definition example_frame :: "memory \<Rightarrow> u16 \<Rightarrow> rte_mbuf" where
  "example_frame m len = \<lparr>buf_id = 0, mem = m, data_len = len, pkt_len = ucast len, nb_segs = 1,
     seg_next = None, l2_len = 0, l3_len = 0, l4_len = 0, ol_flags = 0\<rparr>"

text \<open>One VLAN tag in front of an IPv4 EtherType.\<close>

definition tagged_mem :: memory where
  "tagged_mem = stw (stw (\<lambda>_. 0) 12 (bswap RTE_ETHER_TYPE_VLAN)) 16 (bswap RTE_ETHER_TYPE_IPV4)"

lemma tagged_types:
  "ether_type_at (example_frame tagged_mem n) 0 = bswap RTE_ETHER_TYPE_VLAN"
  "ether_type_at (example_frame tagged_mem n) 1 = bswap RTE_ETHER_TYPE_IPV4"
  by (simp_all add: ether_type_at_def example_frame_def tagged_mem_def mem_simps)

theorem update_l2size_correct_witness:
  "map_option fst (update_l2size 29 (example_frame tagged_mem 60)) = Some (bswap RTE_ETHER_TYPE_IPV4)"
proof -
  let ?b = "example_frame tagged_mem 60"
  have "\<forall>i < 1. is_vlan (ether_type_at ?b i)" "\<not> is_vlan (ether_type_at ?b 1)"
    by (simp_all add: tagged_types [simplified] is_vlan_def)
  moreover have "data_len ?b = 60" by (simp add: example_frame_def)
  ultimately show ?thesis
    using update_l2size_correct [of 1 ?b 29] by (simp add: tagged_types [simplified])
qed

text \<open>With fewer bytes than the tags need the result is 0 and \<open>l2_len\<close> exceeds \<open>data_len\<close>.\<close>

lemma skip_vlans_cut:
  assumes "\<forall>i. j \<le> i \<and> i < k \<longrightarrow> is_vlan (ether_type_at b i)" and "j < k" and "k \<le> 28"
    and "14 + 4 * (k - 1) \<le> unat (data_len b)" and "unat (data_len b) < 14 + 4 * k" and "k - j < fuel"
  shows "skip_vlans fuel (b\<lparr>l2_len := l2_behind j\<rparr>) (ether_type_at b j) =
     Some (0, b\<lparr>l2_len := l2_behind k\<rparr>)"
  using assms
proof (induction "k - j" arbitrary: j fuel)
  case 0
  then show ?case by simp
next
  case (Suc d)
  then obtain f where f: "fuel = Suc f" by (cases fuel) auto
  from Suc.prems have j: "is_vlan (ether_type_at b j)" "j < 28" by auto
  show ?case
  proof (cases "Suc j = k")
    case True
    with Suc.prems j show ?thesis unfolding f by (subst skip_vlans_step) simp_all
  next
    case False
    then have "skip_vlans f (b\<lparr>l2_len := l2_behind (Suc j)\<rparr>) (ether_type_at b (Suc j)) =
       Some (0, b\<lparr>l2_len := l2_behind k\<rparr>)"
      using Suc.prems Suc.hyps(2) f by (intro Suc.hyps(1)) auto
    moreover have "14 + 4 * Suc j \<le> unat (data_len b)" using False Suc.prems by auto
    ultimately show ?thesis using j unfolding f by (subst skip_vlans_step) simp_all
  qed
qed

lemma update_l2size_cut:
  assumes "\<forall>i < k. is_vlan (ether_type_at b i)" and "k \<le> 28" and "k < fuel"
    and "k = 0 \<or> 14 + 4 * (k - 1) \<le> unat (data_len b)" and "unat (data_len b) < 14 + 4 * k"
  shows "update_l2size fuel b = Some (0, b\<lparr>l2_len := l2_behind k\<rparr>)"
proof (cases k)
  case 0
  with assms show ?thesis by (simp add: update_l2size_def)
next
  case (Suc k')
  with assms have "14 \<le> unat (data_len b)" by simp
  then show ?thesis
    using assms Suc by (simp only: update_l2size_start) (rule skip_vlans_cut, auto)
qed

text \<open>C32: the loop always ends on a frame of less than 126 bytes, whatever the frame holds: it
  returns either the EtherType behind \<open>k\<close> tags or 0 with \<open>l2_len\<close> beyond the data.\<close>

theorem update_l2size_returns:
  assumes "unat (data_len b) < 126" and "28 < fuel"
  shows "\<exists>proto k. k \<le> 28 \<and> update_l2size fuel b = Some (proto, b\<lparr>l2_len := l2_behind k\<rparr>)
       \<and> (proto = ether_type_at b k \<and> \<not> is_vlan proto \<or> proto = 0 \<and> unat (data_len b) < 14 + 4 * k)"
proof -
  define stop where "stop k \<longleftrightarrow> \<not> is_vlan (ether_type_at b k) \<or> unat (data_len b) < 14 + 4 * k" for k
  have "stop 28" using assms(1) by (simp add: stop_def)
  define k where "k = (LEAST k. stop k)"
  have k: "stop k" "k \<le> 28" "\<forall>i < k. \<not> stop i"
    using \<open>stop 28\<close> unfolding k_def by (auto intro: LeastI Least_le dest: not_less_Least)
  then have tags: "\<forall>i < k. is_vlan (ether_type_at b i) \<and> 14 + 4 * i \<le> unat (data_len b)"
    by (auto simp: stop_def)
  show ?thesis
  proof (cases "unat (data_len b) < 14 + 4 * k")
    case True
    moreover have "k = 0 \<or> 14 + 4 * (k - 1) \<le> unat (data_len b)"
      using tags by (cases k) auto
    ultimately have "update_l2size fuel b = Some (0, b\<lparr>l2_len := l2_behind k\<rparr>)"
      using tags k assms(2) by (intro update_l2size_cut) auto
    with True k show ?thesis by blast
  next
    case False
    with k have "\<not> is_vlan (ether_type_at b k)" by (simp add: stop_def)
    moreover from this have "update_l2size fuel b = Some (ether_type_at b k, b\<lparr>l2_len := l2_behind k\<rparr>)"
      using tags k assms(2) False by (intro update_l2size_to) auto
    ultimately show ?thesis using k by blast
  qed
qed

theorem update_l2size_returns_witness:
  "update_l2size 29 (example_frame tagged_mem 60) \<noteq> None"
  using update_l2size_returns [of "example_frame tagged_mem 60" 29] by (auto simp: example_frame_def)

lemma wrap_step:
  assumes "unat (l :: 7 word) mod 4 = 2"
  shows "unat (l + 4) mod 4 = 2" and "unat l \<le> 126"
proof -
  have "unat (l + 4) = (unat l + 4) mod 128" by (simp add: unat_word_ariths)
  moreover have "(unat l + 4) mod 128 mod 4 = (unat l + 4) mod 4" by (simp add: mod_mod_cancel)
  moreover have "(unat l + 4) mod 4 = unat l mod 4" by simp
  ultimately show "unat (l + 4) mod 4 = 2" using assms by simp
  have "unat l < 128" using unsigned_less [of l, where 'a = nat] by simp
  then show "unat l \<le> 126" using assms by presburger
qed

lemma skip_vlans_diverges:
  assumes "\<forall>i \<in> {1..32}. is_vlan (ldw (mem b) (4 * i))" and "126 \<le> unat (data_len b)"
    and "unat (l2_len b) mod 4 = 2" and "is_vlan proto"
  shows "skip_vlans fuel b proto = None"
  using assms
proof (induction fuel arbitrary: b proto)
  case 0
  show ?case by simp
next
  case (Suc fuel)
  let ?b = "b\<lparr>l2_len := l2_len b + 4\<rparr>"
  have "4 dvd unat (l2_len b) + 2" using Suc.prems(3) by presburger
  then obtain i where i: "unat (l2_len b) + 2 = 4 * i" by (rule dvdE)
  then have "i \<in> {1..32}" using wrap_step(2) [OF Suc.prems(3)] by simp
  then have "is_vlan (ldw (mem ?b) (unat (l2_len b) + 2))" using Suc.prems(1) i by simp
  then have "skip_vlans fuel ?b (ldw (mem ?b) (unat (l2_len b) + 2)) = None"
    using Suc.prems wrap_step(1) [OF Suc.prems(3)] by (intro Suc.IH) simp_all
  moreover have "unat (l2_len ?b) \<le> unat (data_len b)"
    using wrap_step(2) [OF wrap_step(1) [OF Suc.prems(3)]] Suc.prems(2) by simp
  ultimately show ?case using Suc.prems(4) by (simp add: Let_def)
qed

text \<open>C33: a frame of at least 130 bytes that carries a VLAN EtherType at the offsets 4, 8, ..., 128 never
  leaves the loop: the 7-bit \<open>l2_len\<close> wraps from 126 to 2, the bounds test keeps passing, and all that the loop
  reads are these offsets, which lie in the frame.\<close>

theorem update_l2size_diverges:
  assumes "\<forall>i \<in> {1..32}. is_vlan (ldw (mem b) (4 * i))" and "130 \<le> unat (data_len b)"
  shows "update_l2size fuel b = None"
proof -
  have "is_vlan (ldw (mem b) (4 * 3))" using bspec [OF assms(1), of 3] by simp
  then show ?thesis
    using assms by (simp add: update_l2size_def skip_vlans_diverges)
qed

text \<open>130 bytes with 802.1Q EtherTypes at these offsets; what lies behind is zero.\<close>

definition vlan_flood :: memory where
  "vlan_flood = (\<lambda>i. if i mod 4 = 0 \<and> i < 130 then 0x81 else 0)"

lemma vlan_flood_type: "i \<in> {1..32} \<Longrightarrow> (ldw vlan_flood (4 * i) :: u16) = bswap RTE_ETHER_TYPE_VLAN"
proof -
  assume "i \<in> {1..32}"
  then have "vlan_flood (4 * i) = 0x81" "vlan_flood (Suc (4 * i)) = 0"
    by (simp_all add: vlan_flood_def mod_Suc)
  then show ?thesis by (simp add: word_eval)
qed

theorem update_l2size_diverges_witness:
  "update_l2size 1000 (example_frame vlan_flood 130) = None"
proof (rule update_l2size_diverges)
  show "\<forall>i \<in> {1..32}. is_vlan (ldw (mem (example_frame vlan_flood 130)) (4 * i))"
    using vlan_flood_type by (simp only: is_vlan_def example_frame_def rte_mbuf.simps simp_thms) blast
qed (simp add: example_frame_def)

end
