(* ===== verification/Errors.thy ===== *)
theory Errors
  imports Dpdk_Prelude
begin

text \<open>
  Error codes as the program passes them: \<open>std::error_code\<close> values of the generic category, of the
  DPDK category of \<open>dpdkx/error.cpp\<close> and of the flow category of \<open>dpdkx/flow/error.cpp\<close>, their
  test against success, and the messages of the two categories. \<open>rte_strerror\<close>, the value of
  \<open>RTE_MAX_ERRNO\<close> and the numbering of the DPDK flow errors are parameters.
\<close>

datatype errc =
    address_family_not_supported
  | address_in_use
  | bad_address
  | connection_aborted
  | invalid_argument
  | no_buffer_space
  | not_supported
  | operation_canceled
  | owner_dead
  | resource_unavailable_try_again
  | timed_out

datatype error_code =
    No_error
  | Generic errc
  | Dpdk int
  | Flow int

text \<open>The conversion of an error code to \<open>bool\<close> tests its value, whatever its category is.\<close>

fun failed :: "error_code \<Rightarrow> bool" where
  "failed No_error = False"
| "failed (Generic _) = True"
| "failed (Dpdk v) = (v \<noteq> 0)"
| "failed (Flow v) = (v \<noteq> 0)"

section \<open>Numbers as text\<close>

text \<open>\<open>std::to_string\<close> of an \<open>int\<close>.\<close>

definition digit :: "nat \<Rightarrow> char" where
  "digit d = char_of (48 + d)"

fun digits :: "nat \<Rightarrow> string" where
  "digits n = (if n < 10 then [digit n] else digits (n div 10) @ [digit (n mod 10)])"

declare digits.simps [simp del]

definition to_string :: "int \<Rightarrow> string" where
  "to_string i = (if i < 0 then CHR ''-'' # digits (nat (- i)) else digits (nat i))"

section \<open>Messages\<close>

text \<open>\<open>dpdkx::errc\<close> has one value, equal to \<open>RTE_MAX_ERRNO\<close>.\<close>

definition no_avalible_queue :: "int \<Rightarrow> int" where
  "no_avalible_queue rte_max_errno = rte_max_errno"

definition message_errc :: "int \<Rightarrow> int \<Rightarrow> string" where
  "message_errc rte_max_errno error =
     (if error = no_avalible_queue rte_max_errno then ''no queue avalible''
      else ''unknow error code : '' @ to_string error)"

definition dpdk_message :: "int \<Rightarrow> (int \<Rightarrow> string) \<Rightarrow> int \<Rightarrow> string" where
  "dpdk_message rte_max_errno rte_strerror code =
     (if code > rte_max_errno then message_errc rte_max_errno code
      else ''dpdk error : '' @ rte_strerror code @ '' ['' @ to_string code @ '']'')"

datatype rte_flow_error_type =
    FE_NONE | FE_UNSPECIFIED | FE_HANDLE | FE_ATTR_GROUP | FE_ATTR_PRIORITY | FE_ATTR_INGRESS
  | FE_ATTR_EGRESS | FE_ATTR_TRANSFER | FE_ATTR | FE_ITEM_NUM | FE_ITEM_SPEC | FE_ITEM_LAST
  | FE_ITEM_MASK | FE_ITEM | FE_ACTION_NUM | FE_ACTION_CONF | FE_ACTION | FE_STATE | FE_OTHER int

fun flow_error_string :: "rte_flow_error_type \<Rightarrow> string" where
  "flow_error_string FE_NONE = ''No error.''"
| "flow_error_string FE_UNSPECIFIED = ''Cause unspecified.''"
| "flow_error_string FE_HANDLE = ''Flow rule (handle).''"
| "flow_error_string FE_ATTR_GROUP = ''Group field.''"
| "flow_error_string FE_ATTR_PRIORITY = ''Priority field.''"
| "flow_error_string FE_ATTR_INGRESS = ''Ingress field.''"
| "flow_error_string FE_ATTR_EGRESS = ''Egress field.''"
| "flow_error_string FE_ATTR_TRANSFER = ''Transfer field.''"
| "flow_error_string FE_ATTR = ''Attributes structure.''"
| "flow_error_string FE_ITEM_NUM = ''Pattern length.''"
| "flow_error_string FE_ITEM_SPEC = ''Item specification.''"
| "flow_error_string FE_ITEM_LAST = ''Item specification range.''"
| "flow_error_string FE_ITEM_MASK = ''Item specification mask.''"
| "flow_error_string FE_ITEM = ''Specific pattern item.''"
| "flow_error_string FE_ACTION_NUM = ''Number of actions.''"
| "flow_error_string FE_ACTION_CONF = ''Action configuration.''"
| "flow_error_string FE_ACTION = ''Specific action.''"
| "flow_error_string FE_STATE = ''Current device state.''"
| "flow_error_string (FE_OTHER n) = ''unknow error : '' @ to_string n"

text \<open>The thread's last flow error: its type and the driver's text, if there is one.\<close>

record rte_flow_error =
  fe_type :: int
  fe_message :: "string option"

definition flow_message :: "(int \<Rightarrow> rte_flow_error_type) \<Rightarrow> rte_flow_error \<Rightarrow> int \<Rightarrow> string" where
  "flow_message decode last_error code =
     ''dpdk flow error : '' @ flow_error_string (decode code)
     @ (if fe_type last_error = code
        then (case fe_message last_error of Some m \<Rightarrow> '' - '' @ m | None \<Rightarrow> [])
        else [])"

definition last_error_code :: "rte_flow_error \<Rightarrow> error_code" where
  "last_error_code last_error = Flow (fe_type last_error)"

section \<open>Properties\<close>

lemma digits_nonempty [simp]: "digits n \<noteq> []" "[] \<noteq> digits n"
  by (subst digits.simps, simp)+

text \<open>Decimal digits determine the number, so messages with different codes differ.\<close>

lemma digits_inj: "digits m = digits n \<Longrightarrow> m = n"
proof (induction m arbitrary: n rule: digits.induct)
  case (1 m)
  have d: "digit a = digit b \<Longrightarrow> a < 10 \<Longrightarrow> b < 10 \<Longrightarrow> a = b" for a b :: nat
  proof -
    assume *: "digit a = digit b" "a < 10" "b < 10"
    then have "(of_char (char_of (48 + a)) :: nat) = of_char (char_of (48 + b))"
      by (simp add: digit_def)
    then show "a = b" using *(2,3) by simp
  qed
  show ?case
  proof (cases "m < 10 \<or> n < 10")
    case True
    with "1.prems" d show ?thesis
      by (subst (asm) (1 2) digits.simps) (auto split: if_splits)
  next
    case False
    then have "digits (m div 10) = digits (n div 10)" "digit (m mod 10) = digit (n mod 10)"
      using "1.prems" by (subst (asm) (1 2) digits.simps, simp)+
    with False "1.IH" d have "m div 10 = n div 10" "m mod 10 = n mod 10" by auto
    then show ?thesis by (metis div_mult_mod_eq)
  qed
qed

text \<open>The code of \<open>no_avalible_queue\<close> is printed with \<open>rte_strerror\<close>: since the code equals
  \<open>RTE_MAX_ERRNO\<close> and the test is strict, the text written for it is never the message of any
  code of the category.\<close>

theorem no_queue_message_unreachable:
  "dpdk_message rte_max_errno rte_strerror (no_avalible_queue rte_max_errno) =
     ''dpdk error : '' @ rte_strerror rte_max_errno @ '' ['' @ to_string rte_max_errno @ '']''
   \<and> dpdk_message rte_max_errno rte_strerror code \<noteq> ''no queue avalible''"
  by (auto simp: dpdk_message_def message_errc_def no_avalible_queue_def)

text \<open>The message of the code made from the last flow error carries the driver's text.\<close>

theorem flow_message_of_last_error:
  assumes "last_error_code e = Flow code" and "fe_message e = Some m"
  shows "flow_message decode e code = ''dpdk flow error : '' @ flow_error_string (decode code) @ '' - '' @ m"
  using assms by (simp add: flow_message_def last_error_code_def)

theorem flow_message_of_last_error_witness:
  "flow_message (\<lambda>_. FE_STATE) \<lparr>fe_type = 17, fe_message = Some ''busy''\<rparr> 17 =
     ''dpdk flow error : Current device state. - busy''"
  using flow_message_of_last_error [of "\<lparr>fe_type = 17, fe_message = Some ''busy''\<rparr>" 17 "''busy''" "\<lambda>_. FE_STATE"]
  by (simp add: last_error_code_def)

end
