(* ===== verification/Jobs.thy ===== *)
theory Jobs
  imports Errors
begin

text \<open>
  The cooperative scheduler of \<open>dpdkx/jobs.cpp\<close>. A job is known by its address, of type \<open>'j\<close>;
  \<open>process j s\<close> is the virtual call of \<open>job::process\<close> on the program state \<open>s\<close>: the state it
  returned, or \<open>None\<close> for an exception, and the program state after the call, which includes
  what the other cores did meanwhile. \<open>running s\<close> is the atomic flag of lines 14-31.
\<close>

section \<open>The loops\<close>

datatype job_state = Busy | Idling | Done

text \<open>States are ordered as in the enumeration, the most active first; what a round reports is the least state that a job reported.\<close>

instantiation job_state :: linorder
begin

definition less_eq_job_state :: "job_state \<Rightarrow> job_state \<Rightarrow> bool" where
  "less_eq_job_state a b \<longleftrightarrow> a = b \<or> a = Busy \<or> b = Done"

definition less_job_state :: "job_state \<Rightarrow> job_state \<Rightarrow> bool" where
  "less_job_state a b \<longleftrightarrow> a \<noteq> b \<and> (a = Busy \<or> b = Done)"

instance
proof
  fix a b c :: job_state
  show "a < b \<longleftrightarrow> a \<le> b \<and> \<not> b \<le> a" "a \<le> a" "a \<le> b \<or> b \<le> a"
    by (cases a; cases b; simp add: less_eq_job_state_def less_job_state_def)+
  show "a \<le> b \<Longrightarrow> b \<le> c \<Longrightarrow> a \<le> c" "a \<le> b \<Longrightarrow> b \<le> a \<Longrightarrow> a = b"
    by (auto simp: less_eq_job_state_def)
qed

end

lemmas job_state_order = less_eq_job_state_def less_job_state_def

abbreviation "cycle_threshold \<equiv> 33 :: nat"
abbreviation "idle_threshold \<equiv> 2 :: u8"

text \<open>\<open>jobs_from\<close> is the loop of \<open>run_jobs_once\<close>: \<open>kept\<close> are the jobs in front of the iterator.\<close>

fun jobs_from ::
  "('j \<Rightarrow> 's \<Rightarrow> job_state option \<times> 's) \<Rightarrow> 'j list \<Rightarrow> 'j list \<Rightarrow> job_state \<Rightarrow> 's \<Rightarrow>
     job_state option \<times> 'j list \<times> 's" where
  "jobs_from process kept [] res s = (Some res, kept, s)"
| "jobs_from process kept (j # rest) res s =
     (case process j s of
        (None, s) \<Rightarrow> (None, kept @ j # rest, s)
      | (Some Idling, s) \<Rightarrow> jobs_from process (kept @ [j]) rest res s
      | (Some Busy, s) \<Rightarrow> jobs_from process (kept @ [j]) rest Busy s
      | (Some Done, s) \<Rightarrow>
          if kept @ rest = [] then (Some Done, [], s)
          else jobs_from process kept rest res s)"

definition run_jobs_once ::
  "('j \<Rightarrow> 's \<Rightarrow> job_state option \<times> 's) \<Rightarrow> 'j list \<times> 's \<Rightarrow> job_state option \<times> 'j list \<times> 's" where
  "run_jobs_once process = (\<lambda>(jobs, s). jobs_from process [] jobs Idling s)"

text \<open>
  The \<open>for\<close> loop that \<open>job::run_exclusive\<close> (lines 40-52) and \<open>run_jobs\<close> (lines 99-112) share, over
  an abstract step. \<open>Left\<close> is \<open>return 0\<close> or a caught exception, \<open>Next\<close> the regular exit with the
  idle counter.
\<close>

datatype 'x cycle_end = Left 'x | Next u8 'x

function cycles :: "('x \<Rightarrow> job_state option \<times> 'x) \<Rightarrow> nat \<Rightarrow> u8 \<Rightarrow> 'x \<Rightarrow> 'x cycle_end" where
  "cycles step cycle idling x =
     (if cycle < cycle_threshold then
        (case step x of
           (None, x) \<Rightarrow> Left x
         | (Some Busy, x) \<Rightarrow> cycles step (cycle + 1) 0 x
         | (Some Idling, x) \<Rightarrow>
             let idling = idling + 1 in
             if idling > idle_threshold then cycles step (cycle_threshold + 1) idling x
             else cycles step (cycle + 1) idling x
         | (Some Done, x) \<Rightarrow> Left x)
      else Next idling x)"
  by pat_completeness auto
termination by (relation "measure (\<lambda>(_, cycle, _). cycle_threshold - cycle)") auto

declare cycles.simps [simp del]

fun run_loop ::
  "nat \<Rightarrow> ('x \<Rightarrow> bool) \<Rightarrow> ('x \<Rightarrow> job_state option \<times> 'x) \<Rightarrow> u8 \<Rightarrow> 'x \<Rightarrow> 'x option" where
  "run_loop 0 running step idling x = None"
| "run_loop (Suc fuel) running step idling x =
     (if running x then
        (case cycles step 0 idling x of
           Left x \<Rightarrow> Some x
         | Next idling x \<Rightarrow> run_loop fuel running step idling x)
      else Some x)"

definition run_exclusive ::
  "nat \<Rightarrow> ('s \<Rightarrow> bool) \<Rightarrow> ('s \<Rightarrow> job_state option \<times> 's) \<Rightarrow> 's \<Rightarrow> 's option" where
  "run_exclusive fuel running process s = run_loop fuel running process 0 s"

text \<open>\<open>run_jobs\<close> hands a single job to its own \<open>run_exclusive\<close>, which \<open>exclusive\<close> stands for since the
  method is virtual.\<close>

definition run_jobs ::
  "nat \<Rightarrow> ('s \<Rightarrow> bool) \<Rightarrow> ('j \<Rightarrow> 's \<Rightarrow> job_state option \<times> 's) \<Rightarrow> ('j \<Rightarrow> 's \<Rightarrow> 's option) \<Rightarrow>
     'j list \<Rightarrow> 's \<Rightarrow> ('j list \<times> 's) option" where
  "run_jobs fuel running process exclusive jobs s =
     (case jobs of
        [j] \<Rightarrow> map_option (Pair jobs) (exclusive j s)
      | _ \<Rightarrow> run_loop fuel (running \<circ> snd) (run_jobs_once process) 0 (jobs, s))"

section \<open>One round over the jobs\<close>

text \<open>The reference: call every job once, in order, and record what each returned.\<close>

fun visit :: "('j \<Rightarrow> 's \<Rightarrow> job_state option \<times> 's) \<Rightarrow> 'j list \<Rightarrow> 's \<Rightarrow> ('j \<times> job_state) list option \<times> 's" where
  "visit process [] s = (Some [], s)"
| "visit process (j # js) s =
     (case process j s of
        (None, s) \<Rightarrow> (None, s)
      | (Some st, s) \<Rightarrow> (case visit process js s of (r, s) \<Rightarrow> (map_option (Cons (j, st)) r, s)))"

definition alive :: "('j \<times> job_state) list \<Rightarrow> 'j list" where
  "alive rs = map fst (filter (\<lambda>r. snd r \<noteq> Done) rs)"

definition round_state :: "job_state \<Rightarrow> ('j \<times> job_state) list \<Rightarrow> job_state" where
  "round_state res rs = (if Busy \<in> snd ` set rs then Busy else res)"

lemma alive_simps [simp]:
  "alive [] = []" "alive ((j, st) # rs) = (if st = Done then alive rs else j # alive rs)"
  by (simp_all add: alive_def)

lemma visit_alive_nonempty: "visit process js s = (Some rs, s') \<Longrightarrow> js = [] \<longleftrightarrow> rs = []"
  by (cases js) (auto split: prod.splits option.splits)

lemma jobs_from_visit:
  "visit process js s = (Some rs, s') \<Longrightarrow>
     jobs_from process kept js res s =
       (if js \<noteq> [] \<and> kept @ alive rs = [] then (Some Done, [], s')
        else (Some (round_state res rs), kept @ alive rs, s'))"
proof (induction js arbitrary: kept res s rs)
  case Nil
  then show ?case by (simp add: round_state_def)
next
  case (Cons j js)
  obtain o1 s1 where p: "process j s = (o1, s1)" by (cases "process j s")
  with Cons.prems obtain st where st: "o1 = Some st" by (cases o1) auto
  with Cons.prems p obtain rs' where rs': "visit process js s1 = (Some rs', s')" "rs = (j, st) # rs'"
    by (cases "visit process js s1") auto
  show ?case
  proof (cases "st = Done \<and> kept = [] \<and> js = []")
    case True
    with rs' p st show ?thesis by simp
  next
    case False
    with rs' p st show ?thesis
      using visit_alive_nonempty [OF rs'(1)]
      by (cases st) (auto simp: Cons.IH [OF rs'(1)] round_state_def)
  qed
qed

lemma round_state_Min:
  assumes "rs \<noteq> []"
  shows "Min (snd ` set rs) = (if alive rs = [] then Done else round_state Idling rs)"
proof -
  let ?S = "snd ` set rs"
  have "alive rs = [] \<longleftrightarrow> ?S \<subseteq> {Done}" by (auto simp: alive_def filter_empty_conv)
  moreover have "Busy \<in> ?S \<Longrightarrow> Min ?S = Busy" by (rule Min_eqI) (auto simp: job_state_order)
  moreover have "Min ?S = Idling" if "Busy \<notin> ?S" "Idling \<in> ?S"
  proof (rule Min_eqI)
    show "Idling \<le> y" if "y \<in> ?S" for y using that \<open>Busy \<notin> ?S\<close> by (cases y) (auto simp: job_state_order)
  qed (use that in simp_all)
  moreover have "Min ?S = Done" if "?S \<subseteq> {Done}"
  proof -
    have "?S = {Done}" using that assms by (cases rs) auto
    then show ?thesis by simp
  qed
  moreover have "Idling \<in> ?S" if "Busy \<notin> ?S" "\<not> ?S \<subseteq> {Done}"
  proof -
    from that(2) obtain y where "y \<in> ?S" "y \<noteq> Done" by blast
    with that(1) show ?thesis by (cases y) simp_all
  qed
  ultimately show ?thesis by (simp add: round_state_def)
qed

text \<open>C21: one round calls every job exactly once, in order, removes exactly the jobs that reported
  \<open>done\<close> and keeps the order of the others; it reports the most active state that a job reported: \<open>busy\<close>
  when some job was busy, \<open>idling\<close> when none was but some was idle, and \<open>done\<close> when it removed the last
  job.\<close>

theorem run_jobs_once_spec:
  assumes "visit process jobs s = (Some rs, s')" and "jobs \<noteq> []"
  shows "run_jobs_once process (jobs, s) = (Some (Min (snd ` set rs)), alive rs, s')"
proof -
  have "rs \<noteq> []" using visit_alive_nonempty [OF assms(1)] assms(2) by simp
  from jobs_from_visit [OF assms(1), of "[]" Idling] assms(2) show ?thesis
    unfolding run_jobs_once_def round_state_Min [OF \<open>rs \<noteq> []\<close>] by simp
qed

text \<open>Two jobs on a counter: the first is busy, the second finishes.\<close>

definition example_process :: "nat \<Rightarrow> nat \<Rightarrow> job_state option \<times> nat" where
  "example_process j s = (Some (if j = 0 then Busy else Done), s + 1)"

theorem run_jobs_once_spec_witness:
  "run_jobs_once example_process ([0, 1], 5) = (Some Busy, [0], 7)"
  using run_jobs_once_spec [of example_process "[0, 1]" 5 "[(0, Busy), (1, Done)]" 7]
  by (simp add: example_process_def min_def job_state_order)

text \<open>An exception leaves the vector without the jobs that were done before it.\<close>

lemma jobs_from_nonempty:
  "jobs_from process kept js res s = (r, js', s') \<Longrightarrow> kept @ js \<noteq> [] \<Longrightarrow> r \<noteq> Some Done \<Longrightarrow> res \<noteq> Done
     \<Longrightarrow> js' \<noteq> []"
proof (induction process kept js res s rule: jobs_from.induct)
  case (2 process kept j rest res s)
  then show ?case
    by (auto split: prod.splits option.splits job_state.splits if_splits)
qed simp

text \<open>The assertion at line 100 of the source holds in every round but the first: a round over a
  non-empty vector that does not report \<open>done\<close> leaves the vector non-empty.\<close>

theorem run_jobs_once_nonempty:
  assumes "run_jobs_once process (jobs, s) = (r, jobs', s')" and "jobs \<noteq> []" and "r \<noteq> Some Done"
  shows "jobs' \<noteq> []"
  using assms jobs_from_nonempty [of process "[]" jobs Idling s r jobs' s']
  by (simp add: run_jobs_once_def)

theorem run_jobs_once_nonempty_witness: "fst (snd (run_jobs_once example_process ([0, 1], 5))) \<noteq> []"
  using run_jobs_once_nonempty [of example_process "[0, 1]" 5 "Some Busy" "[0]" 7]
  by (simp add: run_jobs_once_def example_process_def)

section \<open>Stopping\<close>

text \<open>The program state after \<open>n\<close> calls of the step.\<close>

definition after :: "('x \<Rightarrow> job_state option \<times> 'x) \<Rightarrow> nat \<Rightarrow> 'x \<Rightarrow> 'x" where
  "after step n x = ((snd \<circ> step) ^^ n) x"

lemma after_simps [simp]: "after step 0 x = x" "after step n (snd (step x)) = after step (Suc n) x"
  by (simp_all add: after_def funpow_swap1)

lemma after_add: "after step m (after step n x) = after step (m + n) x"
  by (simp add: after_def funpow_add)

definition end_state :: "'x cycle_end \<Rightarrow> 'x" where
  "end_state e = (case e of Left x \<Rightarrow> x | Next _ x \<Rightarrow> x)"

lemma cycles_steps:
  "\<exists>k. k \<le> cycle_threshold - cycle \<and> (cycle < cycle_threshold \<longrightarrow> 0 < k)
     \<and> end_state (cycles step cycle idling x) = after step k x"
proof (induction step cycle idling x rule: cycles.induct)
  case (1 step cycle idling x)
  show ?case
  proof (cases "cycle < cycle_threshold")
    case False
    then show ?thesis by (subst cycles.simps) (simp add: end_state_def)
  next
    case True
    obtain o1 x1 where p: "step x = (o1, x1)" by (cases "step x")
    then have x1: "after step n x1 = after step (Suc n) x" for n
      using after_simps(2) [of step n x] by simp
    have one: ?thesis if "end_state (cycles step cycle idling x) = x1"
      using that True x1 [of 0] by (intro exI [of _ 1]) auto
    have more: ?thesis
      if "cycles step cycle idling x = cycles step c i x1" and "cycle < c"
        and "\<exists>k. k \<le> cycle_threshold - c \<and> (c < cycle_threshold \<longrightarrow> 0 < k)
               \<and> end_state (cycles step c i x1) = after step k x1" for c i
    proof -
      from that(3) obtain k where "k \<le> cycle_threshold - c" "end_state (cycles step c i x1) = after step k x1"
        by blast
      with that(1,2) True show ?thesis by (intro exI [of _ "Suc k"]) (simp add: x1)
    qed
    consider "o1 = None \<or> o1 = Some Done" | "o1 = Some Busy"
      | "o1 = Some Idling" "idling + 1 > idle_threshold" | "o1 = Some Idling" "\<not> idling + 1 > idle_threshold"
      by (metis job_state.exhaust option.exhaust)
    then show ?thesis
    proof cases
      case 1
      then show ?thesis using p True by (intro one) (auto simp: cycles.simps end_state_def)
    next
      case 2
      then show ?thesis
        using p True "1.IH"(1) [OF True p [symmetric]]
        by (intro more [of "cycle + 1" 0]) (simp_all add: cycles.simps [of step cycle])
    next
      case 3
      then show ?thesis
        using p True "1.IH"(2) [OF True p [symmetric]]
        by (intro more [of "cycle_threshold + 1" "idling + 1"]) (simp_all add: cycles.simps [of step cycle] Let_def)
    next
      case 4
      then show ?thesis
        using p True "1.IH"(3) [OF True p [symmetric]]
        by (intro more [of "cycle + 1" "idling + 1"]) (simp_all add: cycles.simps [of step cycle] Let_def)
    qed
  qed
qed

lemma run_loop_stops:
  assumes "\<forall>n \<ge> N. \<not> running (after step n x)" and "N < fuel"
  shows "\<exists>m y. run_loop fuel running step idling x = Some y \<and> y = after step m x
       \<and> m < N + cycle_threshold"
  using assms
proof (induction fuel arbitrary: N x idling)
  case 0
  then show ?case by simp
next
  case (Suc fuel)
  show ?case
  proof (cases "running x")
    case False
    then show ?thesis by (intro exI [of _ 0]) simp
  next
    case True
    then have N: "0 < N" using Suc.prems(1) by (metis after_simps(1) gr0I le_refl)
    obtain k where k: "k \<le> cycle_threshold" "0 < k" "end_state (cycles step 0 idling x) = after step k x"
      using cycles_steps [of 0 step idling x] by auto
    show ?thesis
    proof (cases "cycles step 0 idling x")
      case (Left y)
      then show ?thesis using True k N by (intro exI [of _ k]) (auto simp: end_state_def)
    next
      case (Next idling' y)
      then have y: "y = after step k x" using k(3) by (simp add: end_state_def)
      have "\<forall>n \<ge> N - k. \<not> running (after step n y)"
        using Suc.prems(1) by (auto simp: y after_add)
      moreover have "N - k < fuel" using Suc.prems(2) k(2) N by simp
      ultimately obtain m z where m: "run_loop fuel running step idling' y = Some z"
        "z = after step m y" "m < N - k + cycle_threshold" using Suc.IH by blast
      show ?thesis
      proof (cases "k \<le> N")
        case True
        with m Next \<open>running x\<close> show ?thesis by (intro exI [of _ "m + k"]) (simp add: y after_add)
      next
        case False
        then have "run_loop fuel running step idling' y = Some y"
          using Suc.prems y \<open>N - k < fuel\<close> by (cases fuel) auto
        with Next \<open>running x\<close> False k(1) N show ?thesis
          by (intro exI [of _ k]) (simp add: y)
      qed
    qed
  qed
qed

text \<open>The jobs and the program state of a core after \<open>n\<close> rounds: a single job is called on its own, several are
  called by \<open>run_jobs_once\<close>.\<close>

definition core_after :: "('j \<Rightarrow> 's \<Rightarrow> job_state option \<times> 's) \<Rightarrow> nat \<Rightarrow> 'j list \<Rightarrow> 's \<Rightarrow> 'j list \<times> 's" where
  "core_after process n jobs s =
     (case jobs of [j] \<Rightarrow> (jobs, after (process j) n s) | _ \<Rightarrow> after (run_jobs_once process) n (jobs, s))"

text \<open>C22: once the \<open>running\<close> flag stays cleared, from the \<open>N\<close>-th round on, the job runner of a core returns: at
  most 32 further rounds are started, since the flag is read at least every 33 rounds. This holds
  for any number of jobs and for whatever they do, exceptions and finished jobs included; a job that is alone on
  its core has to run by \<open>job::run_exclusive\<close>, which every job but the flow queue inherits.\<close>

theorem run_jobs_stops:
  assumes "\<forall>n \<ge> N. \<not> running (snd (core_after process n jobs s))" and "N < fuel"
    and "\<forall>j. jobs = [j] \<longrightarrow> exclusive j s = run_exclusive fuel running (process j) s"
  shows "\<exists>m < N + 33. run_jobs fuel running process exclusive jobs s = Some (core_after process m jobs s)"
proof (cases "\<exists>j. jobs = [j]")
  case True
  then obtain j where j: "jobs = [j]" by blast
  have "\<exists>m y. run_loop fuel running (process j) 0 s = Some y \<and> y = after (process j) m s \<and> m < N + cycle_threshold"
    using assms(1,2) by (intro run_loop_stops) (simp_all add: j core_after_def)
  then show ?thesis using assms(3) by (auto simp: j run_jobs_def run_exclusive_def core_after_def)
next
  case False
  then have runs: "run_jobs fuel running process exclusive jobs s =
      run_loop fuel (running \<circ> snd) (run_jobs_once process) 0 (jobs, s)"
    "core_after process n jobs s = after (run_jobs_once process) n (jobs, s)" for n
    by (auto simp: run_jobs_def core_after_def split: list.splits)
  with run_loop_stops [of N "running \<circ> snd" "run_jobs_once process" "(jobs, s)" fuel 0] assms(1,2)
  show ?thesis by auto
qed

lemma example_rounds:
  "snd (after (run_jobs_once example_process) n ([0, 0], s)) = s + 2 * n"
proof (induction n arbitrary: s)
  case (Suc n)
  have "after (run_jobs_once example_process) (Suc n) ([0, 0], s) =
      after (run_jobs_once example_process) n ([0, 0], s + 2)"
    by (simp flip: after_simps(2) add: run_jobs_once_def example_process_def)
  with Suc.IH show ?case by simp
qed simp

lemma example_alone: "after (example_process 0) n s = s + n"
  by (induction n arbitrary: s) (simp_all flip: after_simps(2) add: example_process_def)

text \<open>The flag is cleared when ten calls have been made: by two busy jobs, and by one that is alone.\<close>

theorem run_jobs_stops_witness:
  "(\<exists>m < 38. run_jobs 6 (\<lambda>s. s < 10) example_process (\<lambda>_. Some) [0, 0] 0 = Some (core_after example_process m [0, 0] 0))
   \<and> (\<exists>m < 43. run_jobs 11 (\<lambda>s. s < 10) example_process (\<lambda>j. run_exclusive 11 (\<lambda>s. s < 10) (example_process j)) [0] 0 =
        Some ([0], m))"
  using run_jobs_stops [of 5 "\<lambda>s. s < 10" example_process "[0, 0]" 0 6 "\<lambda>_. Some"]
    run_jobs_stops [of 10 "\<lambda>s. s < 10" example_process "[0]" 0 11 "\<lambda>j. run_exclusive 11 (\<lambda>s. s < 10) (example_process j)"]
  by (auto simp: core_after_def example_rounds example_alone)

text \<open>A job that runs alone on its core stops under the same bound.\<close>

theorem run_exclusive_stops:
  assumes "\<forall>n \<ge> N. \<not> running (after process n s)" and "N < fuel"
  shows "\<exists>m. run_exclusive fuel running process s = Some (after process m s) \<and> m < N + 33"
  using run_loop_stops [OF assms] by (auto simp: run_exclusive_def)

theorem run_exclusive_stops_witness:
  "\<exists>m < 43. run_exclusive 11 (\<lambda>s. s < 10) (example_process 0) 0 = Some (after (example_process 0) m 0)"
  using run_exclusive_stops [of 10 "\<lambda>s. s < 10" "example_process 0" 0 11] by (auto simp: example_alone)

text \<open>An idle step beyond the idle threshold ends the \<open>for\<close> loop at once.\<close>

lemma cycles_idle:
  assumes "cycle < cycle_threshold" and "step x = (Some Idling, y)" and "idling + 1 > idle_threshold"
  shows "cycles step cycle idling x = Next (idling + 1) y"
  using assms by (simp add: cycles.simps [of step cycle] cycles.simps [of step 34] Let_def)

section \<open>Waiting for an address\<close>

text \<open>
  \<open>ether_address\<close> of lines 163-176: \<open>lookup\<close> is the call of \<open>device::ether_address\<close>, \<open>now k\<close> the
  \<open>k\<close>-th reading of the system clock, in milliseconds. The function is \<open>noexcept\<close>, so an exception
  of a job ends the program. \<open>None\<close> means that the fuel ran out.
\<close>

datatype wait_result = Code error_code | Terminated

fun wait_round ::
  "nat \<Rightarrow> ('s \<Rightarrow> error_code \<times> 's) \<Rightarrow> ('j \<Rightarrow> 's \<Rightarrow> job_state option \<times> 's) \<Rightarrow> ('s \<Rightarrow> bool) \<Rightarrow> (nat \<Rightarrow> int) \<Rightarrow>
     int \<Rightarrow> nat \<Rightarrow> 'j list \<Rightarrow> 's \<Rightarrow> (wait_result \<times> 'j list \<times> 's) option" where
  "wait_round 0 lookup process running now timeout k jobs s = None"
| "wait_round (Suc fuel) lookup process running now timeout k jobs s =
     (case lookup s of (res, s) \<Rightarrow>
        if \<not> failed res \<or> res = Generic not_supported then Some (Code res, jobs, s)
        else (case run_jobs_once process (jobs, s) of (st, jobs, s) \<Rightarrow>
          if st = None then Some (Terminated, jobs, s)
          else if st = Some Done then Some (Code (Generic connection_aborted), jobs, s)
          else if \<not> running s then Some (Code (Generic operation_canceled), jobs, s)
          else if now k - now 0 < timeout
          then wait_round fuel lookup process running now timeout (Suc k) jobs s
          else Some (Code (Generic timed_out), jobs, s)))"

definition wait_ether_address ::
  "nat \<Rightarrow> ('s \<Rightarrow> error_code \<times> 's) \<Rightarrow> ('j \<Rightarrow> 's \<Rightarrow> job_state option \<times> 's) \<Rightarrow> ('s \<Rightarrow> bool) \<Rightarrow> (nat \<Rightarrow> int) \<Rightarrow>
     int \<Rightarrow> 'j list \<Rightarrow> 's \<Rightarrow> (wait_result \<times> 'j list \<times> 's) option" where
  "wait_ether_address fuel lookup process running now timeout jobs s =
     wait_round fuel lookup process running now timeout 1 jobs s"

lemma wait_round_returns:
  assumes "\<And>i. now 0 + int i \<le> now i" and "timeout < int (k + fuel)" and "0 < fuel"
  shows "wait_round fuel lookup process running now timeout k jobs s \<noteq> None"
  using assms(2,3)
proof (induction fuel arbitrary: k jobs s)
  case 0
  then show ?case by simp
next
  case (Suc fuel)
  have "0 < fuel" if "now k - now 0 < timeout" using that Suc.prems assms(1) [of k] by linarith
  with Suc show ?case by (auto split: prod.splits)
qed

lemma wait_round_codes:
  "wait_round fuel lookup process running now timeout k jobs s = Some (Code c, jobs', s') \<Longrightarrow>
     (c \<in> {Generic connection_aborted, Generic operation_canceled, Generic timed_out}
      \<or> (\<exists>t. lookup t = (c, s') \<and> (\<not> failed c \<or> c = Generic not_supported)))"
  by (induction fuel arbitrary: k jobs s) (auto split: prod.splits if_splits)

text \<open>C23: while the clock advances by at least a millisecond per round, the wait for an address
  ends after at most \<open>timeout\<close> rounds; what it returns is either the code of a lookup that succeeded
  or is not supported, or one of the three codes for aborted, cancelled and timed out.\<close>

theorem wait_ether_address_returns:
  assumes "\<forall>i. now 0 + int i \<le> now i" and "timeout \<le> int fuel" and "0 < fuel"
  shows "\<exists>r jobs' s'. wait_ether_address fuel lookup process running now timeout jobs s = Some (r, jobs', s')
       \<and> (\<forall>c. r = Code c \<longrightarrow>
            c \<in> {Generic connection_aborted, Generic operation_canceled, Generic timed_out}
            \<or> (\<exists>t. lookup t = (c, s') \<and> (\<not> failed c \<or> c = Generic not_supported)))"
proof -
  have "wait_ether_address fuel lookup process running now timeout jobs s \<noteq> None"
    unfolding wait_ether_address_def using assms by (intro wait_round_returns) auto
  then show ?thesis
    using wait_round_codes unfolding wait_ether_address_def by fastforce
qed

theorem wait_ether_address_returns_witness:
  "\<exists>r. wait_ether_address 20 (\<lambda>s. (Generic resource_unavailable_try_again, s)) example_process (\<lambda>_. True) int 20
     [0] 0 = Some r"
  using wait_ether_address_returns [of int 20 20 "\<lambda>s. (Generic resource_unavailable_try_again, s)"
      example_process "\<lambda>_. True" "[0]" 0]
  by auto


section \<open>Invariants of the program state\<close>

text \<open>The contract between the scheduler and its jobs: \<open>inv\<close> is a property of the program state that every
  call of every job keeps, also one that ends in an exception. Then the scheduler keeps it.\<close>

locale steady_jobs =
  fixes process :: "'j \<Rightarrow> 's \<Rightarrow> job_state option \<times> 's" and inv :: "'s \<Rightarrow> bool"
  assumes keep: "inv s \<Longrightarrow> inv (snd (process j s))"
begin

lemma jobs_from_inv: "inv s \<Longrightarrow> inv (snd (snd (jobs_from process kept jobs res s)))"
proof (induction jobs arbitrary: kept res s)
  case (Cons j rest)
  obtain st s1 where p: "process j s = (st, s1)" by fastforce
  then have "inv s1" using keep [OF Cons.prems, of j] by simp
  with Cons.IH Cons.prems p show ?case by (auto split: option.split job_state.split)
qed simp

lemma run_jobs_once_inv: "run_jobs_once process (jobs, s) = (st, jobs', s') \<Longrightarrow> inv s \<Longrightarrow> inv s'"
  using jobs_from_inv [of s "[]" jobs Idling] by (simp add: run_jobs_once_def)

lemma after_inv: "inv s \<Longrightarrow> inv (snd (after (run_jobs_once process) n (jobs, s)))"
proof (induction n arbitrary: jobs s)
  case (Suc n)
  obtain st jobs1 s1 where p: "run_jobs_once process (jobs, s) = (st, jobs1, s1)" by (metis prod_cases3)
  then have "after (run_jobs_once process) (Suc n) (jobs, s) = after (run_jobs_once process) n (jobs1, s1)"
    by (metis after_simps(2) snd_conv)
  with Suc.IH [OF run_jobs_once_inv [OF p Suc.prems]] show ?case by simp
qed simp

lemma run_loop_inv:
  "run_loop fuel running (run_jobs_once process) idling (jobs, s) = Some (jobs', s') \<Longrightarrow> inv s \<Longrightarrow> inv s'"
proof (induction fuel arbitrary: idling jobs s)
  case (Suc fuel)
  obtain k where k: "end_state (cycles (run_jobs_once process) 0 idling (jobs, s)) = after (run_jobs_once process) k (jobs, s)"
    using cycles_steps [of 0 "run_jobs_once process" idling "(jobs, s)"] by blast
  then have "inv (snd (end_state (cycles (run_jobs_once process) 0 idling (jobs, s))))"
    using after_inv [OF Suc.prems(2), of k jobs] by (simp only:)
  with Suc show ?case by (auto simp: end_state_def split: if_splits cycle_end.splits)
qed simp

lemma run_jobs_inv:
  assumes "run_jobs fuel running process exclusive jobs s = Some (jobs', s')" and "inv s"
    and "\<And>j s s'. exclusive j s = Some s' \<Longrightarrow> inv s \<Longrightarrow> inv s'"
  shows "inv s'"
  using assms run_loop_inv [of fuel "running \<circ> snd" 0 jobs s jobs' s']
  by (auto simp: run_jobs_def split: list.splits)

end

end
