(* ===== verification/Device_Tx.thy ===== *)
theory Device_Tx
  imports Jobs
begin

text \<open>
  The transmit side of \<open>dpdkx/device.cpp\<close>: the job that moves buffers from a ring to a hardware
  queue, the assignment of direct queues to cores, the choice of rings, the source-port counter,
  and the sink of \<open>dpdkx/sink.cpp\<close> that picks a queue or a ring on first use. The type \<open>'b\<close> of
  buffers is left open. The DPDK calls on rings and queues are fields of \<open>tx_api\<close> over
  an unknown state \<open>'r\<close>; \<open>tx_api_ok\<close> states the documented contract the proofs use: a burst call
  moves a prefix of what it is offered, and a dequeue returns at most what was asked for.
\<close>

section \<open>The DPDK calls\<close>

record ('b, 'r) tx_api =
  ring_sc_dequeue_burst :: "nat \<Rightarrow> nat \<Rightarrow> 'r \<Rightarrow> 'b list \<times> 'r"
  ring_mp_enqueue_burst :: "nat \<Rightarrow> 'b list \<Rightarrow> 'r \<Rightarrow> nat \<times> 'r"
  eth_tx_burst :: "nat \<Rightarrow> 'b list \<Rightarrow> 'r \<Rightarrow> nat \<times> 'r"

definition tx_api_ok :: "('b, 'r) tx_api \<Rightarrow> bool" where
  "tx_api_ok api \<longleftrightarrow>
     (\<forall>ring n r. length (fst (ring_sc_dequeue_burst api ring n r)) \<le> n)
     \<and> (\<forall>ring bs r. fst (ring_mp_enqueue_burst api ring bs r) \<le> length bs)
     \<and> (\<forall>q bs r. fst (eth_tx_burst api q bs r) \<le> length bs)"

section \<open>The transmit job\<close>

record 'b tx_job =
  tj_queue_id :: nat
  tj_n :: nat
  tj_burst_size :: nat
  tj_ring :: nat
  tj_buffers :: "'b list"

abbreviation "max_pkt_burst \<equiv> 256 :: nat"

text \<open>The array starts with indeterminate pointers, \<open>junk\<close>.\<close>

definition make_tx_job :: "'b list \<Rightarrow> nat \<Rightarrow> nat \<Rightarrow> nat \<Rightarrow> 'b tx_job" where
  "make_tx_job junk queue_id ring burts_size =
     \<lparr>tj_queue_id = queue_id, tj_n = 0, tj_burst_size = min burts_size max_pkt_burst,
      tj_ring = ring, tj_buffers = junk\<rparr>"

text \<open>\<open>std::copy_backward\<close> on indices of one array: element by element, from the last one down.\<close>

fun copy_backward :: "'a list \<Rightarrow> nat \<Rightarrow> nat \<Rightarrow> nat \<Rightarrow> 'a list" where
  "copy_backward xs first 0 d_last = xs"
| "copy_backward xs first (Suc k) d_last =
     (if first \<le> k then copy_backward (xs[d_last - 1 := xs ! k]) first k (d_last - 1) else xs)"

text \<open>Writing a dequeued burst into the array behind the \<open>n\<close> buffers it holds.\<close>

definition place :: "'a list \<Rightarrow> nat \<Rightarrow> 'a list \<Rightarrow> 'a list" where
  "place xs n ys = take n xs @ ys @ drop (n + length ys) xs"

definition tx_job_send :: "('b, 'r) tx_api \<Rightarrow> 'b tx_job \<Rightarrow> 'r \<Rightarrow> 'b tx_job \<times> 'r" where
  "tx_job_send api job r =
     (let (sent, r) = eth_tx_burst api (tj_queue_id job) (take (tj_n job) (tj_buffers job)) r
      in if sent \<noteq> 0 then
           (let buffers = (if tj_n job \<noteq> sent
                           then copy_backward (tj_buffers job) 0 sent (tj_n job) else tj_buffers job)
            in (job\<lparr>tj_buffers := buffers, tj_n := tj_n job - sent\<rparr>, r))
         else (job, r))"

definition tx_job_process :: "('b, 'r) tx_api \<Rightarrow> 'b tx_job \<Rightarrow> 'r \<Rightarrow> job_state \<times> 'b tx_job \<times> 'r" where
  "tx_job_process api job r =
     (if tj_burst_size job = tj_n job then (Busy, tx_job_send api job r)
      else
        (let (bs, r) = ring_sc_dequeue_burst api (tj_ring job) (tj_burst_size job - tj_n job) r;
             job = job\<lparr>tj_buffers := place (tj_buffers job) (tj_n job) bs, tj_n := tj_n job + length bs\<rparr>
         in if tj_n job \<noteq> 0 then (Busy, tx_job_send api job r) else (Idling, job, r)))"

text \<open>The buffers the job holds, and its well-formedness.\<close>

definition tx_pending :: "'b tx_job \<Rightarrow> 'b list" where
  "tx_pending job = take (tj_n job) (tj_buffers job)"

definition tx_job_wf :: "'b tx_job \<Rightarrow> bool" where
  "tx_job_wf job \<longleftrightarrow> length (tj_buffers job) = max_pkt_burst \<and> tj_n job \<le> tj_burst_size job
     \<and> 0 < tj_burst_size job \<and> tj_burst_size job \<le> max_pkt_burst"

section \<open>Queues and rings\<close>

text \<open>
  The members of \<open>device\<close> that hand out queues: \<open>per_core_queue_\<close>, the number of direct queues
  left, the number of transmit jobs and the number of service rings.
\<close>

record tx_side =
  per_core_queue :: "nat \<Rightarrow> u16"
  tx_queues :: u16
  tx_jobs_n :: nat
  svc_tx_n :: nat

abbreviation no_txq :: u16 where "no_txq \<equiv> 0xffff"

definition tx_queue :: "nat \<Rightarrow> tx_side \<Rightarrow> u16 \<times> tx_side" where
  "tx_queue core_id d =
     (let res = per_core_queue d core_id
      in if res = no_txq \<and> tx_queues d \<noteq> 0
         then (tx_queues d - 1, d\<lparr>tx_queues := tx_queues d - 1\<rparr>)
         else (res, d))"

text \<open>The index of the transmit job whose ring is used; \<open>None\<close> is a division by zero.\<close>

definition service_tx :: "tx_side \<Rightarrow> nat \<Rightarrow> nat option" where
  "service_tx d hint =
     (if svc_tx_n d = 0 then None else Some (hint mod svc_tx_n d + tx_jobs_n d - svc_tx_n d))"

definition tx_ring :: "tx_side \<Rightarrow> nat \<Rightarrow> nat option" where
  "tx_ring d hint = (if tx_jobs_n d = 0 then None else Some (hint mod tx_jobs_n d))"

text \<open>
  \<open>next_src_port\<close> on one thread: the post-increment, then the comparison and the exchange that
  expects the value before the increment. A failed exchange loads the current value into \<open>res\<close>.
  The result is the port and the counter; \<open>None\<close> means that the fuel for the loop ran out.
\<close>

primrec next_src_port :: "nat \<Rightarrow> u16 \<Rightarrow> u16 \<Rightarrow> (u16 \<times> u16) option" where
  "next_src_port 0 config counter = None"
| "next_src_port (Suc fuel) config counter =
     (let res = counter; counter = counter + 1
      in if res < config then
           (if counter = res then next_src_port fuel config config else Some (counter, counter))
         else Some (res, counter))"

section \<open>The sink\<close>

datatype sink_target = Setup | To_ring nat | To_queue u16

text \<open>\<open>tx_ring::enque\<close>, for a burst and for one buffer; the deprecated class \<open>tx_queue\<close> of
  \<open>dpdkx/detail/tx_queue.cpp\<close> has the same two members.\<close>

definition tx_ring_enque :: "('b, 'r) tx_api \<Rightarrow> nat \<Rightarrow> 'b list \<Rightarrow> 'r \<Rightarrow> nat \<times> 'r" where
  "tx_ring_enque api ring buffers r = ring_mp_enqueue_burst api ring buffers r"

definition tx_ring_enque1 :: "('b, 'r) tx_api \<Rightarrow> nat \<Rightarrow> 'b \<Rightarrow> 'r \<Rightarrow> bool \<times> 'r" where
  "tx_ring_enque1 api ring buffer r =
     (let (k, r) = tx_ring_enque api ring [buffer] r in (k \<noteq> 0, r))"

definition sink_ring_enque :: "('b, 'r) tx_api \<Rightarrow> nat \<Rightarrow> 'b list \<Rightarrow> 'r \<Rightarrow> nat \<times> 'r" where
  "sink_ring_enque api ring buffers r = ring_mp_enqueue_burst api ring buffers r"

definition sink_tx_burst :: "('b, 'r) tx_api \<Rightarrow> u16 \<Rightarrow> 'b list \<Rightarrow> 'r \<Rightarrow> nat \<times> 'r" where
  "sink_tx_burst api queue_id buffers r = eth_tx_burst api (unat queue_id) buffers r"

definition setup_sink :: "nat \<Rightarrow> tx_side \<Rightarrow> (sink_target \<times> tx_side) option" where
  "setup_sink core_id d =
     (let (txq, d) = tx_queue core_id d
      in if txq \<noteq> no_txq then Some (To_queue txq, d)
         else map_option (\<lambda>ring. (To_ring ring, d)) (tx_ring d 0))"

definition sink_enque ::
  "('b, 'r) tx_api \<Rightarrow> nat \<Rightarrow> 'b list \<Rightarrow> sink_target \<times> tx_side \<times> 'r \<Rightarrow> (nat \<times> sink_target \<times> tx_side \<times> 'r) option" where
  "sink_enque api core_id buffers = (\<lambda>(target, d, r).
     case (if target = Setup then setup_sink core_id d else Some (target, d)) of
       None \<Rightarrow> None
     | Some (To_queue q, d) \<Rightarrow> (let (k, r) = sink_tx_burst api q buffers r in Some (k, To_queue q, d, r))
     | Some (To_ring ring, d) \<Rightarrow> (let (k, r) = sink_ring_enque api ring buffers r in Some (k, To_ring ring, d, r))
     | Some (Setup, d) \<Rightarrow> None)"

section \<open>Copying backwards\<close>

lemma length_copy_backward [simp]: "length (copy_backward xs first l d_last) = length xs"
  by (induction xs first l d_last rule: copy_backward.induct) auto

lemma take_copy_backward:
  "l \<le> d_last \<Longrightarrow> j \<le> d_last - (l - first) \<Longrightarrow>
     take j (copy_backward xs first l d_last) = take j xs"
proof (induction xs first l d_last rule: copy_backward.induct)
  case (2 xs first k d_last)
  then show ?case by (auto simp: Suc_diff_le)
qed simp

lemma tx_job_wf_place:
  assumes "tx_job_wf job" and "length bs \<le> tj_burst_size job - tj_n job"
  shows "length (place (tj_buffers job) (tj_n job) bs) = max_pkt_burst"
    and "take (tj_n job + length bs) (place (tj_buffers job) (tj_n job) bs) = tx_pending job @ bs"
  using assms by (auto simp: place_def tx_job_wf_def tx_pending_def)

text \<open>What a send leaves behind: the first entries of the array, whatever was sent.\<close>

lemma tx_job_send_pending:
  assumes "tx_api_ok api" and "tx_job_wf job" and "tx_job_send api job r = (job', r')"
    and "eth_tx_burst api (tj_queue_id job) (tx_pending job) r = (sent, r1)"
  shows "tx_pending job' = take (tj_n job - sent) (tx_pending job)" and "r' = r1"
    and "tx_job_wf job'" and "sent \<le> tj_n job"
    and "tj_queue_id job' = tj_queue_id job" and "tj_burst_size job' = tj_burst_size job"
proof -
  have len: "tj_n job \<le> length (tj_buffers job)" using assms(2) by (simp add: tx_job_wf_def)
  have "sent \<le> length (tx_pending job)"
    using assms(1,4) unfolding tx_api_ok_def by (metis fst_conv)
  with len show sent: "sent \<le> tj_n job" by (simp add: tx_pending_def)
  have send: "eth_tx_burst api (tj_queue_id job) (take (tj_n job) (tj_buffers job)) r = (sent, r1)"
    using assms(4) by (simp add: tx_pending_def)
  show "tx_pending job' = take (tj_n job - sent) (tx_pending job)" "r' = r1" "tx_job_wf job'"
    "tj_queue_id job' = tj_queue_id job" "tj_burst_size job' = tj_burst_size job"
    using assms(2,3) sent send
    by (auto simp: tx_job_send_def tx_pending_def tx_job_wf_def min_absorb1 take_copy_backward split: if_splits)
qed

section \<open>The transmit job\<close>

text \<open>The buffers that a call of \<open>process\<close> offers to the device: those held and those dequeued.\<close>

definition offered :: "('b, 'r) tx_api \<Rightarrow> 'b tx_job \<Rightarrow> 'r \<Rightarrow> 'b list \<times> 'r" where
  "offered api job r =
     (if tj_burst_size job = tj_n job then (tx_pending job, r)
      else (let (bs, r) = ring_sc_dequeue_burst api (tj_ring job) (tj_burst_size job - tj_n job) r
            in (tx_pending job @ bs, r)))"

lemma tx_job_process_spec:
  assumes ok: "tx_api_ok api" and wf: "tx_job_wf job" and off: "offered api job r = (bs, r1)"
    and send: "bs \<noteq> [] \<Longrightarrow> eth_tx_burst api (tj_queue_id job) bs r1 = (sent, r2)"
    and step: "tx_job_process api job r = (st, job', r')"
  shows "bs = [] \<Longrightarrow> st = Idling \<and> tx_pending job' = [] \<and> r' = r1"
    and "bs \<noteq> [] \<Longrightarrow> st = Busy \<and> tx_pending job' = take (length bs - sent) bs \<and> sent \<le> length bs \<and> r' = r2"
    and "tx_job_wf job'" and "length bs \<le> tj_burst_size job"
proof -
  obtain job1 where job1: "tx_pending job1 = bs" "tx_job_wf job1" "tj_queue_id job1 = tj_queue_id job"
    "tj_n job1 = length bs" "tj_burst_size job1 = tj_burst_size job"
    "(st, job', r') = (if bs \<noteq> [] then (Busy, tx_job_send api job1 r1) else (Idling, job1, r1))"
  proof (cases "tj_burst_size job = tj_n job")
    case True
    have "tj_buffers job \<noteq> []" using wf by (auto simp: tx_job_wf_def)
    with True assms that [of job] show ?thesis
      by (auto simp: offered_def tx_job_process_def tx_pending_def tx_job_wf_def)
  next
    case False
    obtain ds r0 where ds: "ring_sc_dequeue_burst api (tj_ring job) (tj_burst_size job - tj_n job) r = (ds, r0)"
      by (cases "ring_sc_dequeue_burst api (tj_ring job) (tj_burst_size job - tj_n job) r")
    let ?job = "job\<lparr>tj_buffers := place (tj_buffers job) (tj_n job) ds, tj_n := tj_n job + length ds\<rparr>"
    have le: "length ds \<le> tj_burst_size job - tj_n job"
      using ok ds unfolding tx_api_ok_def by (metis fst_conv)
    note pl = tx_job_wf_place [OF wf le]
    have bs: "bs = tx_pending job @ ds" "r1 = r0" using off False ds by (auto simp: offered_def)
    moreover have "length (tx_pending job) = tj_n job" using wf by (simp add: tx_pending_def tx_job_wf_def)
    ultimately show ?thesis
      using pl wf False ds step le
      by (intro that [of ?job]) (auto simp: tx_job_process_def tx_pending_def tx_job_wf_def)
  qed
  then show "length bs \<le> tj_burst_size job" by (metis tx_job_wf_def)
  show "bs = [] \<Longrightarrow> st = Idling \<and> tx_pending job' = [] \<and> r' = r1" using job1 by auto
  show "tx_job_wf job'"
    using job1 tx_job_send_pending(3) [OF ok job1(2)] by (auto split: if_splits) (metis surj_pair)
  show "bs \<noteq> [] \<Longrightarrow> st = Busy \<and> tx_pending job' = take (length bs - sent) bs \<and> sent \<le> length bs \<and> r' = r2"
    using job1 send tx_job_send_pending(1,2,4) [OF ok job1(2), of r1 job' r' sent r2] by auto
qed

text \<open>The transmit job loses nothing and keeps the order as long as each burst is accepted as a
  whole or not at all: afterwards it holds exactly the offered buffers that were not sent.\<close>

theorem tx_job_all_or_nothing:
  assumes "tx_api_ok api" and "tx_job_wf job" and "offered api job r = (bs, r1)" and "bs \<noteq> []"
    and "eth_tx_burst api (tj_queue_id job) bs r1 = (sent, r2)" and "sent = 0 \<or> sent = length bs"
    and "tx_job_process api job r = (st, job', r')"
  shows "tx_pending job' = drop sent bs \<and> st = Busy \<and> r' = r2"
  using tx_job_process_spec(2) [OF assms(1-3) assms(5) assms(7)] assms(4,6) by auto

text \<open>After a partial send the job holds the wrong buffers: \<open>copy_backward\<close> moves the buffers
  already sent to the end instead of moving the unsent ones to the front. The first offered
  buffer, which the device owns by then, is offered again, and the last one is never sent.\<close>

theorem tx_job_partial_send:
  assumes "tx_api_ok api" and "tx_job_wf job" and "offered api job r = (bs, r1)" and "distinct bs"
    and "eth_tx_burst api (tj_queue_id job) bs r1 = (sent, r2)" and "0 < sent" and "sent < length bs"
    and "tx_job_process api job r = (st, job', r')"
  shows "tx_pending job' = take (length bs - sent) bs \<and> hd bs \<in> set (tx_pending job')
       \<and> last bs \<notin> set (tx_pending job')"
proof -
  have ne: "bs \<noteq> []" using assms(7) by auto
  then have eq: "tx_pending job' = take (length bs - sent) bs"
    using tx_job_process_spec(2) [OF assms(1-3) assms(5) assms(8)] by blast
  moreover have "hd bs \<in> set (take (length bs - sent) bs)"
    using assms(7) ne by (cases bs) (auto simp: take_Cons' )
  moreover have "last bs = bs ! (length bs - 1)" using ne by (rule last_conv_nth)
  then have "last bs \<in> set (drop (length bs - sent) bs)"
    using assms(6,7) by (metis diff_less drop_eq_Nil last_drop last_in_set leD zero_less_diff order.strict_trans)
  then have "last bs \<notin> set (take (length bs - sent) bs)"
    using set_take_disj_set_drop_if_distinct [OF assms(4), of "length bs - sent" "length bs - sent"] by blast
  ultimately show ?thesis by simp
qed

text \<open>A ring of three buffers and a device that takes at most two per burst.\<close>

definition example_api :: "(nat, nat list) tx_api" where
  "example_api =
     \<lparr>ring_sc_dequeue_burst = (\<lambda>_ n r. (take n r, drop n r)),
      ring_mp_enqueue_burst = (\<lambda>_ bs r. (length bs, r @ bs)),
      eth_tx_burst = (\<lambda>_ bs r. (min 2 (length bs), r))\<rparr>"

lemma example_api_ok: "tx_api_ok example_api"
  by (simp add: tx_api_ok_def example_api_def)

lemma make_tx_job_wf: "length junk = max_pkt_burst \<Longrightarrow> 0 < b \<Longrightarrow> tx_job_wf (make_tx_job junk q ring b)"
  by (simp add: tx_job_wf_def make_tx_job_def)

theorem tx_job_all_or_nothing_witness:
  "tx_pending (fst (snd (tx_job_process example_api (make_tx_job (replicate 256 0) 0 0 32) [7, 8]))) = []"
  using tx_job_all_or_nothing [OF example_api_ok make_tx_job_wf, of "replicate 256 0" 32 0 0 "[7, 8]" "[7, 8]" "[]" 2 "[]"]
  by (cases "tx_job_process example_api (make_tx_job (replicate 256 0) 0 0 32) [7, 8]")
    (simp add: offered_def example_api_def make_tx_job_def tx_pending_def)

theorem tx_job_partial_send_witness:
  "tx_pending (fst (snd (tx_job_process example_api (make_tx_job (replicate 256 0) 0 0 32) [7, 8, 9]))) = [7]"
  using tx_job_partial_send [OF example_api_ok make_tx_job_wf, of "replicate 256 0" 32 0 0 "[7, 8, 9]" "[7, 8, 9]" "[]" 2 "[]"]
  by (cases "tx_job_process example_api (make_tx_job (replicate 256 0) 0 0 32) [7, 8, 9]")
    (simp add: offered_def example_api_def make_tx_job_def tx_pending_def)

section \<open>Queue assignment\<close>

text \<open>\<open>n\<close> calls of \<open>tx_queue\<close>, for the cores in the list.\<close>

fun tx_queue_calls :: "nat list \<Rightarrow> tx_side \<Rightarrow> u16 list \<times> tx_side" where
  "tx_queue_calls [] d = ([], d)"
| "tx_queue_calls (c # cs) d =
     (let (q, d) = tx_queue c d; (qs, d) = tx_queue_calls cs d in (q # qs, d))"

definition fresh_cores :: "tx_side \<Rightarrow> bool" where
  "fresh_cores d \<longleftrightarrow> (\<forall>c. per_core_queue d c = no_txq)"

lemma tx_queue_fresh:
  "fresh_cores d \<Longrightarrow> tx_queue c d =
     (if tx_queues d = 0 then (no_txq, d) else (tx_queues d - 1, d\<lparr>tx_queues := tx_queues d - 1\<rparr>))"
  by (simp add: tx_queue_def fresh_cores_def)

lemma unat_dec: "w \<noteq> 0 \<Longrightarrow> unat (w - 1 :: 'a::len word) = unat w - 1"
  by (rule unat_minus_one)

text \<open>Direct queues are never shared: whichever cores ask, in whatever order, the calls hand out
  the queue numbers below \<open>tx_queues_\<close>, each once and downwards, and then \<open>no_txq\<close> for ever. The
  map from cores to queues stays empty, so a core that asks again gets another queue.\<close>

theorem tx_queue_calls_distinct:
  assumes "fresh_cores d" and "tx_queue_calls cs d = (qs, d')"
  shows "map unat qs = map (\<lambda>i. if i < unat (tx_queues d) then unat (tx_queues d) - 1 - i else 0xffff)
           [0..<length cs]
       \<and> per_core_queue d' = per_core_queue d \<and> unat (tx_queues d') = unat (tx_queues d) - length cs"
  using assms
proof (induction cs arbitrary: d qs)
  case Nil
  then show ?case by simp
next
  case (Cons c cs)
  obtain q d1 where q: "tx_queue c d = (q, d1)" by (cases "tx_queue c d")
  obtain qs' where qs': "tx_queue_calls cs d1 = (qs', d')" "qs = q # qs'"
    using Cons.prems(2) q by (auto split: prod.splits)
  have d1: "fresh_cores d1" "per_core_queue d1 = per_core_queue d"
    "unat (tx_queues d1) = unat (tx_queues d) - 1"
    "unat q = (if 0 < unat (tx_queues d) then unat (tx_queues d) - 1 else 0xffff)"
    using q Cons.prems(1) by (auto simp: tx_queue_fresh unat_dec fresh_cores_def unat_gt_0 split: if_splits)
  have "[0..<length (c # cs)] = 0 # map Suc [0..<length cs]"
    by (simp add: map_Suc_upt upt_conv_Cons del: upt_Suc)
  then show ?case using Cons.IH [OF d1(1) qs'(1)] d1 qs'(2) by auto
qed

theorem tx_queue_calls_distinct_witness:
  "map unat (fst (tx_queue_calls [4, 4, 5] \<lparr>per_core_queue = (\<lambda>_. no_txq), tx_queues = 2, tx_jobs_n = 1, svc_tx_n = 1\<rparr>))
     = [1, 0, 0xffff]"
proof -
  let ?d = "\<lparr>per_core_queue = (\<lambda>_. no_txq), tx_queues = 2, tx_jobs_n = 1, svc_tx_n = 1\<rparr>"
  obtain qs d' where "tx_queue_calls [4, 4, 5] ?d = (qs, d')" by (cases "tx_queue_calls [4, 4, 5] ?d")
  then show ?thesis
    using tx_queue_calls_distinct [of ?d "[4, 4, 5]" qs d'] by (simp add: fresh_cores_def upt_rec)
qed

text \<open>\<open>service_tx\<close> picks one of the last \<open>svc_tx_n\<close> transmit jobs, for every hint; with no
  service ring it divides by zero.\<close>

theorem service_tx_in_range:
  assumes "svc_tx_n d \<le> tx_jobs_n d"
  shows "(svc_tx_n d = 0 \<and> service_tx d hint = None)
       \<or> (\<exists>ix. service_tx d hint = Some ix \<and> tx_jobs_n d - svc_tx_n d \<le> ix \<and> ix < tx_jobs_n d)"
proof (cases "svc_tx_n d = 0")
  case False
  then have "hint mod svc_tx_n d < svc_tx_n d" by simp
  then have "hint mod svc_tx_n d + tx_jobs_n d - svc_tx_n d < tx_jobs_n d" using assms by linarith
  with False assms show ?thesis by (simp add: service_tx_def)
qed (simp add: service_tx_def)

theorem service_tx_in_range_witness:
  "service_tx \<lparr>per_core_queue = (\<lambda>_. no_txq), tx_queues = 2, tx_jobs_n = 1, svc_tx_n = 1\<rparr> 5 = Some 0"
  using service_tx_in_range [of "\<lparr>per_core_queue = (\<lambda>_. no_txq), tx_queues = 2, tx_jobs_n = 1, svc_tx_n = 1\<rparr>" 5]
  by simp

text \<open>The source-port counter hands out consecutive ports from the configured one up to 65535.
  After it wrapped to 0 the exchange fails, since it expects the value before the increment: the
  ports below the configured one are handed out, starting with 1, and the configured port is
  handed out twice in a row.\<close>

theorem next_src_port_values:
  "next_src_port (Suc fuel) config counter =
     Some (if config \<le> counter then (counter, counter + 1) else (counter + 1, counter + 1))"
proof -
  have "counter + 1 \<noteq> counter" by simp
  then show ?thesis by (auto simp: Let_def not_le)
qed

text \<open>A sink keeps the target it chose on its first use, and then offers every burst to that
  target; the choice is the direct queue that \<open>tx_queue\<close> assigns, or the first ring when no queue
  is left, and \<open>setup\<close> fails only when there is no transmit job.\<close>

theorem sink_enque_target:
  assumes "sink_enque api core bs (target, d, r) = Some (k, target', d', r')"
  shows "target' \<noteq> Setup \<and> (target \<noteq> Setup \<longrightarrow> target' = target \<and> d' = d)
       \<and> (target = Setup \<longrightarrow>
            (case tx_queue core d of (q, d1) \<Rightarrow>
               d' = d1 \<and> target' = (if q \<noteq> no_txq then To_queue q else To_ring 0)))
       \<and> (k, r') = (case target' of To_queue q \<Rightarrow> eth_tx_burst api (unat q) bs r
                                   | To_ring ring \<Rightarrow> ring_mp_enqueue_burst api ring bs r)"
  using assms
  by (auto simp: sink_enque_def setup_sink_def tx_ring_def sink_tx_burst_def sink_ring_enque_def
      split: prod.splits sink_target.splits option.splits if_splits)

theorem sink_enque_target_witness:
  "fst (snd (the (sink_enque example_api 3 [7] (Setup,
     \<lparr>per_core_queue = (\<lambda>_. no_txq), tx_queues = 2, tx_jobs_n = 1, svc_tx_n = 1\<rparr>, [])))) = To_queue 1"
proof -
  let ?d = "\<lparr>per_core_queue = (\<lambda>_. no_txq), tx_queues = 2, tx_jobs_n = 1, svc_tx_n = 1\<rparr>"
  have "tx_queue 3 ?d = (1, ?d\<lparr>tx_queues := 1\<rparr>)" by (simp add: tx_queue_def)
  moreover obtain k t d' r' where "sink_enque example_api 3 [7] (Setup, ?d, []) = Some (k, t, d', r')"
    using calculation by (auto simp: sink_enque_def setup_sink_def sink_tx_burst_def example_api_def)
  ultimately show ?thesis
    using sink_enque_target [of example_api 3 "[7]" Setup ?d "[]" k t d' r'] by simp
qed

end
