(* ===== verification/Device_Net.thy ===== *)
theory Device_Net
  imports Mbuf Numerics Device_Tx
begin

text \<open>
  The protocol side of \<open>dpdkx/device.cpp\<close> and \<open>dpdkx/mcast.cpp\<close>: address resolution
  (\<open>device::ether_address\<close>), answers to ARP requests and ICMP echo requests
  (\<open>device::process_rx_packets\<close>) and IGMP membership reports (\<open>device::mcast_group\<close>). The DPDK calls
  and constants are fields of \<open>net_api\<close> over an unknown state \<open>'r\<close>. \<open>None\<close> stands for a division by
  zero in \<open>service_tx\<close> or in a clock reading.
\<close>

section \<open>State and environment\<close>

record 'r net_api =
  tx :: "(rte_mbuf, 'r) tx_api"
  pktmbuf_alloc :: "'r \<Rightarrow> rte_mbuf option \<times> 'r"
  is_ipv4_mcast :: "u32 \<Rightarrow> bool"
  ipv4_cksum :: "memory \<Rightarrow> nat \<Rightarrow> u16"
  raw_cksum :: "memory \<Rightarrow> nat \<Rightarrow> nat \<Rightarrow> u16"
  eth_read_clock :: "'r \<Rightarrow> u64 option \<times> 'r"
  timer_cycles :: "'r \<Rightarrow> u64 \<times> 'r"
  timer_hz :: u64
  tx_offload_ipv4_cksum :: u64
  mbuf_f_tx_ipv4 :: u64
  mbuf_f_tx_ip_cksum :: u64

text \<open>The part of \<open>config::device\<close> that this code reads.\<close>

record dev_cfg =
  mac_addr :: "byte list"
  ip4_addr :: u32
  tx_offloads :: u64
  feature_icmp :: bool
  feature_arp_table :: bool
  feature_dev_clock :: bool
  cfg_clock_bswap :: bool
  cfg_clock_hz :: u64

text \<open>\<open>arp4_\<close> maps an address to a MAC address and a time stamp, 0 while a request is pending.\<close>

type_synonym arp_table = "u32 \<Rightarrow> (byte list \<times> u64) option"

definition device_read_clock :: "'r net_api \<Rightarrow> dev_cfg \<Rightarrow> 'r \<Rightarrow> u64 option \<times> 'r" where
  "device_read_clock api cfg r =
     (let (rd, r) = (if feature_dev_clock cfg then eth_read_clock api r else (None, r))
      in case rd of
           Some ts \<Rightarrow> (read_clock True (cfg_clock_bswap cfg) (cfg_clock_hz cfg) (Some ts) None, r)
         | None \<Rightarrow> (let (cycles, r) = timer_cycles api r in (ns_timer cycles (timer_hz api), r)))"

text \<open>The call \<open>service_tx(hint).enque(buffer)\<close>.\<close>

definition service_enque :: "'r net_api \<Rightarrow> tx_side \<Rightarrow> nat \<Rightarrow> rte_mbuf \<Rightarrow> 'r \<Rightarrow> (bool \<times> 'r) option" where
  "service_enque api side hint b r =
     map_option (\<lambda>ring. tx_ring_enque1 (tx api) ring b r) (service_tx side hint)"

section \<open>Address resolution\<close>

abbreviation RTE_ARP_HRD_ETHER :: u16 where "RTE_ARP_HRD_ETHER \<equiv> 1"
abbreviation RTE_ARP_OP_REQUEST :: u16 where "RTE_ARP_OP_REQUEST \<equiv> 1"
abbreviation RTE_ARP_OP_REPLY :: u16 where "RTE_ARP_OP_REPLY \<equiv> 2"

definition make_arp_request :: "dev_cfg \<Rightarrow> u32 \<Rightarrow> rte_mbuf \<Rightarrow> rte_mbuf" where
  "make_arp_request cfg ip4addr buffer =
     (let buffer = make_ether buffer (bswap RTE_ETHER_TYPE_ARP) 28;
          m = mem buffer;
          m = store m 6 (mac_addr cfg);
          m = store m 0 (replicate 6 0xff);
          arphdr = unat (l2_len buffer);
          m = stw m arphdr (bswap RTE_ARP_HRD_ETHER);
          m = stw m (arphdr + 2) (bswap RTE_ETHER_TYPE_IPV4);
          m = stw m (arphdr + 4) (6 :: u8);
          m = stw m (arphdr + 5) (4 :: u8);
          m = stw m (arphdr + 6) (bswap RTE_ARP_OP_REQUEST);
          m = store m (arphdr + 8) (mac_addr cfg);
          m = stw m (arphdr + 14) (ip4_addr cfg);
          m = store m (arphdr + 18) (replicate 6 0);
          m = stw m (arphdr + 24) ip4addr
      in buffer\<lparr>mem := m\<rparr>)"

definition ether_address ::
  "'r net_api \<Rightarrow> dev_cfg \<Rightarrow> tx_side \<Rightarrow> u32 \<Rightarrow> arp_table \<Rightarrow> 'r \<Rightarrow>
     (error_code \<times> byte list option \<times> arp_table \<times> 'r) option" where
  "ether_address api cfg side ip4addr arp4 r =
     (if ip4addr AND 0x7f = 0x7f then Some (No_error, Some (mac_addr cfg), arp4, r)
      else case arp4 ip4addr of
        Some (mac, timestamp) \<Rightarrow>
          if timestamp \<noteq> 0 then Some (No_error, Some mac, arp4, r)
          else Some (Generic resource_unavailable_try_again, None, arp4, r)
      | None \<Rightarrow>
          if feature_arp_table cfg then
            (case pktmbuf_alloc api r of
               (None, r) \<Rightarrow> Some (Generic no_buffer_space, None, arp4, r)
             | (Some buffer, r) \<Rightarrow>
                 (case service_enque api side 0 (make_arp_request cfg ip4addr buffer) r of
                    None \<Rightarrow> None
                  | Some (ok, r) \<Rightarrow>
                      Some (Generic resource_unavailable_try_again, None,
                            (if ok then arp4(ip4addr \<mapsto> (replicate 6 0, 0)) else arp4), r)))
          else Some (Generic not_supported, None, arp4, r))"

section \<open>Answering packets\<close>

definition is_multicast_ipv4_addr :: "u32 \<Rightarrow> bool" where
  "is_multicast_ipv4_addr ipv4_addr \<longleftrightarrow> ipv4_addr AND 0x000000FF = 0xE0"

text \<open>The checksum update for a type that changes from echo request, 8, to echo reply, 0.\<close>

definition icmp_cksum_reply :: "u16 \<Rightarrow> u16" where
  "icmp_cksum_reply icmp_cksum =
     (let cksum = (ucast (NOT icmp_cksum) :: u32) AND 0xffff;
          cksum = cksum + (NOT (ucast (bswap (0x0800 :: u16))) AND 0xffff);
          cksum = cksum + ucast (bswap (0 :: u16));
          cksum = (cksum AND 0xffff) + drop_bit 16 cksum;
          cksum = (cksum AND 0xffff) + drop_bit 16 cksum
      in ucast (NOT cksum))"

definition icmp_reply :: "'r net_api \<Rightarrow> dev_cfg \<Rightarrow> nat \<Rightarrow> rte_mbuf \<Rightarrow> rte_mbuf" where
  "icmp_reply api cfg l3size b =
     (let l2 = unat (l2_len b); icmp = l2 + l3size; m = mem b;
          m = store m 0 (fetch m 6 6);
          m = store m 6 (mac_addr cfg);
          src = (ldw m (l2 + 12) :: u32);
          b = (if is_multicast_ipv4_addr (ldw m (l2 + 16)) then
                 (let ip_src = bswap src;
                      ip_src = (if ip_src AND 3 = 1 then (ip_src AND 0xFFFFFFFC) OR 2
                                else (ip_src AND 0xFFFFFFFC) OR 1);
                      m = stw m (l2 + 16) src;
                      m = stw m (l2 + 12) (bswap ip_src);
                      m = stw m (l2 + 10) (0 :: u16);
                      b = b\<lparr>l3_len := of_nat l3size\<rparr>
                  in if tx_offloads cfg AND tx_offload_ipv4_cksum api \<noteq> 0
                     then b\<lparr>mem := m, ol_flags := mbuf_f_tx_ipv4 api OR mbuf_f_tx_ip_cksum api\<rparr>
                     else b\<lparr>mem := stw m (l2 + 10) (ipv4_cksum api m l2), ol_flags := 0\<rparr>)
               else b\<lparr>mem := stw (stw m (l2 + 16) src) (l2 + 12) (ip4_addr cfg)\<rparr>);
          m = mem b;
          m = stw m icmp (0 :: u8);
          m = stw m (icmp + 2) (icmp_cksum_reply (ldw m (icmp + 2)))
      in b\<lparr>mem := m\<rparr>)"

definition arp_reply :: "dev_cfg \<Rightarrow> rte_mbuf \<Rightarrow> rte_mbuf" where
  "arp_reply cfg b =
     (let arphdr = unat (l2_len b); m = mem b;
          m = stw m (arphdr + 6) (bswap RTE_ARP_OP_REPLY);
          m = store m 0 (fetch m 6 6);
          m = store m 6 (mac_addr cfg);
          m = store m (arphdr + 18) (fetch m (arphdr + 8) 6);
          m = stw m (arphdr + 24) (ldw m (arphdr + 14) :: u32);
          m = stw m (arphdr + 14) (ip4_addr cfg);
          m = store m (arphdr + 8) (mac_addr cfg)
      in b\<lparr>mem := m\<rparr>)"

text \<open>The insertion of lines 570-571 and 586-587.\<close>

definition arp_learn ::
  "'r net_api \<Rightarrow> dev_cfg \<Rightarrow> rte_mbuf \<Rightarrow> arp_table \<Rightarrow> 'r \<Rightarrow> (arp_table \<times> 'r) option" where
  "arp_learn api cfg b arp4 r =
     (if feature_arp_table cfg then
        (case device_read_clock api cfg r of
           (None, r) \<Rightarrow> None
         | (Some now, r) \<Rightarrow>
             Some (arp4(ldw (mem b) (unat (l2_len b) + 14) \<mapsto> (fetch (mem b) (unat (l2_len b) + 8) 6, now)), r))
      else Some (arp4, r))"

text \<open>
  One iteration of \<open>process_rx_packets\<close>: whether the buffer was handed to a ring (the \<open>continue\<close>
  of the source), the buffer as it is then, the table and the environment.
\<close>

definition process_ipv4 ::
  "'r net_api \<Rightarrow> dev_cfg \<Rightarrow> tx_side \<Rightarrow> nat \<Rightarrow> rte_mbuf \<Rightarrow> 'r \<Rightarrow> (bool \<times> rte_mbuf \<times> 'r) option" where
  "process_ipv4 api cfg side queue_id b r =
     (let l2 = unat (l2_len b); m = mem b; l3size = ipv4_hdr_len m l2; icmp = l2 + l3size
      in if unat (data_len b) < l2 + l3size then Some (False, b, r)
         else if m (l2 + 9) = IPPROTO_ICMP \<and> m icmp = 8 \<and> m (icmp + 1) = 0 \<and> feature_icmp cfg
                 \<and> l2 + l3size + 8 \<le> unat (data_len b)
         then (let b = icmp_reply api cfg l3size b
               in map_option (\<lambda>(ok, r). (ok, b, r)) (service_enque api side queue_id b r))
         else Some (False, b, r))"

definition process_arp ::
  "'r net_api \<Rightarrow> dev_cfg \<Rightarrow> tx_side \<Rightarrow> nat \<Rightarrow> rte_mbuf \<Rightarrow> arp_table \<Rightarrow> 'r \<Rightarrow>
     (bool \<times> rte_mbuf \<times> arp_table \<times> 'r) option" where
  "process_arp api cfg side queue_id b arp4 r =
     (let arphdr = unat (l2_len b); m = mem b
      in if unat (data_len b) < arphdr + 28 then Some (False, b, arp4, r)
         else if ldw m arphdr = bswap RTE_ARP_HRD_ETHER \<and> ldw m (arphdr + 2) = bswap RTE_ETHER_TYPE_IPV4 then
           (if ldw m (arphdr + 6) = bswap RTE_ARP_OP_REQUEST then
              (case arp_learn api cfg b arp4 r of
                 None \<Rightarrow> None
               | Some (arp4, r) \<Rightarrow>
                   if ip4_addr cfg = ldw m (arphdr + 24)
                   then (let b = arp_reply cfg b
                         in map_option (\<lambda>(ok, r). (ok, b, arp4, r)) (service_enque api side queue_id b r))
                   else Some (False, b, arp4, r))
            else if ldw m (arphdr + 6) = bswap RTE_ARP_OP_REPLY then
              map_option (\<lambda>(arp4, r). (False, b, arp4, r)) (arp_learn api cfg b arp4 r)
            else Some (False, b, arp4, r))
         else Some (False, b, arp4, r))"

definition process_rx_packet ::
  "'r net_api \<Rightarrow> dev_cfg \<Rightarrow> tx_side \<Rightarrow> nat \<Rightarrow> rte_mbuf \<Rightarrow> arp_table \<Rightarrow> 'r \<Rightarrow>
     (bool \<times> rte_mbuf \<times> arp_table \<times> 'r) option" where
  "process_rx_packet api cfg side queue_id b arp4 r =
     (if eth_proto b = bswap RTE_ETHER_TYPE_IPV4 then
        map_option (\<lambda>(ok, b, r). (ok, b, arp4, r)) (process_ipv4 api cfg side queue_id b r)
      else if eth_proto b = bswap RTE_ETHER_TYPE_ARP then process_arp api cfg side queue_id b arp4 r
      else Some (False, b, arp4, r))"

text \<open>The loop. The kept buffers are the first \<open>used\<close> entries of the array when it returns.\<close>

fun process_rx_packets ::
  "'r net_api \<Rightarrow> dev_cfg \<Rightarrow> tx_side \<Rightarrow> nat \<Rightarrow> rte_mbuf list \<Rightarrow> arp_table \<Rightarrow> 'r \<Rightarrow>
     (rte_mbuf list \<times> arp_table \<times> 'r) option" where
  "process_rx_packets api cfg side queue_id [] arp4 r = Some ([], arp4, r)"
| "process_rx_packets api cfg side queue_id (b # bs) arp4 r =
     (case process_rx_packet api cfg side queue_id b arp4 r of
        None \<Rightarrow> None
      | Some (handed, b, arp4, r) \<Rightarrow>
          (case process_rx_packets api cfg side queue_id bs arp4 r of
             None \<Rightarrow> None
           | Some (kept, arp4, r) \<Rightarrow> Some (if handed then kept else b # kept, arp4, r)))"

section \<open>Membership reports\<close>

datatype igmp_type = change_to_exclude_mode | change_to_include_mode

definition igmp_code :: "igmp_type \<Rightarrow> u8" where
  "igmp_code t = (case t of change_to_exclude_mode \<Rightarrow> 4 | change_to_include_mode \<Rightarrow> 3)"

text \<open>The packet of lines 16-39, before its checksums.\<close>

definition igmp_report :: "dev_cfg \<Rightarrow> u32 \<Rightarrow> igmp_type \<Rightarrow> rte_mbuf \<Rightarrow> rte_mbuf" where
  "igmp_report cfg ip4addr t buffer =
     (let payload_size = 8 + 4 + 4;
          buffer = make_ipv4 buffer IPPROTO_IGMP (4 + payload_size);
          buffer = buffer\<lparr>l3_len := l3_len buffer + 4\<rparr>;
          dst_addr = (0xE0000016 :: u32);
          l2 = unat (l2_len buffer); l3 = unat (l3_len buffer); igmp = l2 + l3;
          m = mem buffer;
          m = store m 6 (mac_addr cfg);
          m = store m 0 (ether_addr_for_ipv4_mcast dst_addr);
          m = stw m l2 ((m l2 AND 0xf0) OR ((m l2 + 1) AND 0x0f));
          m = stw m (l2 + 12) (ip4_addr cfg);
          m = stw m (l2 + 16) (bswap dst_addr);
          m = stw m (l2 + 8) (1 :: u8);
          m = stw m (l2 + 20) (0x00000494 :: u32);
          m = stw m igmp (0x22 :: u8);
          m = stw m (igmp + 1) (0 :: u8);
          m = stw m (igmp + 4) (0 :: u16);
          m = stw m (igmp + 6) (bswap (1 :: u16));
          m = stw m (igmp + 8) (igmp_code t);
          m = stw m (igmp + 9) (0 :: u8);
          m = stw m (igmp + 10) (0 :: u16);
          m = stw m (igmp + 12) ip4addr;
          m = stw m (igmp + 2) (0 :: u16)
      in buffer\<lparr>mem := m\<rparr>)"

definition make_igmp :: "'r net_api \<Rightarrow> dev_cfg \<Rightarrow> u32 \<Rightarrow> igmp_type \<Rightarrow> rte_mbuf \<Rightarrow> rte_mbuf" where
  "make_igmp api cfg ip4addr t buffer =
     (let payload_size = 8 + 4 + 4;
          buffer = igmp_report cfg ip4addr t buffer;
          l2 = unat (l2_len buffer); l3 = unat (l3_len buffer); igmp = l2 + l3;
          m = mem buffer;
          m = stw m (igmp + 2) (NOT (raw_cksum api m igmp (l3 + payload_size)));
          m = stw m (l2 + 10) (0 :: u16)
      in if tx_offloads cfg AND tx_offload_ipv4_cksum api \<noteq> 0
         then buffer\<lparr>mem := m, ol_flags := mbuf_f_tx_ipv4 api OR mbuf_f_tx_ip_cksum api\<rparr>
         else buffer\<lparr>mem := stw m (l2 + 10) (ipv4_cksum api m l2)\<rparr>)"

definition mcast_group ::
  "'r net_api \<Rightarrow> dev_cfg \<Rightarrow> tx_side \<Rightarrow> u32 \<Rightarrow> igmp_type \<Rightarrow> 'r \<Rightarrow> (error_code \<times> 'r) option" where
  "mcast_group api cfg side ip4addr t r =
     (if is_ipv4_mcast api ip4addr then Some (Generic bad_address, r)
      else case pktmbuf_alloc api r of
        (None, r) \<Rightarrow> Some (Generic no_buffer_space, r)
      | (Some buffer, r) \<Rightarrow>
          map_option (\<lambda>(ok, r). (if ok then No_error else Generic resource_unavailable_try_again, r))
            (service_enque api side 0 (make_igmp api cfg ip4addr t buffer) r))"

section \<open>Checksums\<close>

text \<open>The sum of the 16-bit words of a message, and its check after RFC 1071: carries are added back until
  16 bits are left, which must all be set. A last odd byte is followed by a zero.\<close>

definition words_sum :: "memory \<Rightarrow> nat \<Rightarrow> nat \<Rightarrow> nat" where
  "words_sum m off n = (\<Sum>i < n. unat (ldw m (off + 2 * i) :: u16))"

function fold16 :: "nat \<Rightarrow> nat" where
  "fold16 s = (if s < 65536 then s else fold16 (s mod 65536 + s div 65536))"
  by auto
termination
proof (relation "measure id")
  fix s :: nat
  assume "\<not> s < 65536"
  then have "0 < s div 65536" by (simp add: div_greater_zero_iff)
  moreover have "s = s mod 65536 + 65536 * (s div 65536)" by simp
  ultimately show "(s mod 65536 + s div 65536, s) \<in> measure id" unfolding in_measure id_apply by linarith
qed simp

declare fold16.simps [simp del]

definition icmp_sum :: "memory \<Rightarrow> nat \<Rightarrow> nat \<Rightarrow> nat" where
  "icmp_sum m off len = words_sum (\<lambda>i. if i < off + len then m i else 0) off ((len + 1) div 2)"

definition icmp_valid :: "memory \<Rightarrow> nat \<Rightarrow> nat \<Rightarrow> bool" where
  "icmp_valid m off len \<longleftrightarrow> fold16 (icmp_sum m off len) = 0xffff"

lemma fold16_valid: "fold16 s = 65535 \<longleftrightarrow> 0 < s \<and> s mod 65535 = 0"
proof (induction s rule: fold16.induct)
  case (1 s)
  show ?case
  proof (cases "s < 65536")
    case True
    then have "s mod 65535 = 0 \<and> 0 < s \<longleftrightarrow> s = 65535" by (cases "s = 65535") (auto simp: mod_less)
    then show ?thesis using True by (subst fold16.simps) auto
  next
    case False
    let ?t = "s mod 65536 + s div 65536"
    have s: "s = ?t + 65535 * (s div 65536)" using mod_mult_div_eq [of s 65536] by linarith
    then have "s mod 65535 = ?t mod 65535" by (metis mod_mult_self2)
    moreover have "0 < s div 65536" using False by (simp add: div_greater_zero_iff)
    ultimately show ?thesis using False 1 by (subst fold16.simps) simp
  qed
qed

lemma unat_ldw16: "unat (ldw m off :: u16) = unat (m off) + 256 * unat (m (Suc off))"
  by (subst unat_ldw) (simp_all add: fetch_numeral fetch_Suc fetch_0)

lemma unat_and_ffff: "unat ((x :: u32) AND 0xffff) = unat x mod 65536"
proof -
  have "x AND 0xffff = take_bit 16 x" by (simp add: take_bit_eq_mask mask_eq_exp_minus_1)
  then show ?thesis by (simp only: unsigned_take_bit_eq) (simp add: take_bit_eq_mod)
qed

lemma unat_fold:
  assumes "unat (c :: u32) < 2 * 65536"
  shows "unat ((c AND 0xffff) + drop_bit 16 c) = unat c mod 65536 + unat c div 65536"
proof -
  have "unat c div 65536 < 2" using assms by simp
  then show ?thesis by (simp add: unat_word_ariths unat_and_ffff unat_drop_bit_div)
qed

lemma unat_icmp_cksum_reply:
  "unat (icmp_cksum_reply ck) = (if unat ck \<le> 65526 then unat ck + 8 else unat ck - 65527)"
proof -
  define c0 c1 c2 c3 where "c0 = (ucast (NOT ck) :: u32) AND 0xffff" and "c1 = c0 + 0xfff7"
    and "c2 = (c1 AND 0xffff) + drop_bit 16 c1" and "c3 = (c2 AND 0xffff) + drop_bit 16 c2"
  have ck: "unat ck < 65536" using unsigned_less [of ck, where 'a = nat] by simp
  have "unat (NOT ck) = 65535 - unat ck"
    by (simp add: unat_not)
  then have c0: "unat c0 = 65535 - unat ck"
    using ck by (simp add: c0_def unat_and_ffff unat_ucast_up)
  then have c1: "unat c1 = 131062 - unat ck" using ck by (simp add: c1_def unat_word_ariths)
  then have c2: "unat c2 = unat c1 mod 65536 + unat c1 div 65536"
    unfolding c2_def using ck by (intro unat_fold) simp
  have c2': "unat c2 = (if unat ck \<le> 65526 then 65527 - unat ck else 131062 - unat ck)"
  proof (cases "unat ck \<le> 65526")
    case True
    then have "131062 - unat ck = 65536 + (65526 - unat ck)" by simp
    with True show ?thesis unfolding c2 c1 by (simp only: mod_add_self1 div_add_self1) simp
  qed (use ck c1 c2 in simp)
  then have "unat c2 < 65536" by (cases "unat ck \<le> 65526") auto
  then have "unat c3 = unat c2" unfolding c3_def by (subst unat_fold) simp_all
  moreover have "icmp_cksum_reply ck = ucast (NOT c3)"
    by (simp add: icmp_cksum_reply_def c3_def c2_def c1_def c0_def Let_def word_eval)
  moreover have "unat (ucast (NOT c3) :: u16) = 65535 - unat c3" if "unat c3 < 65536"
  proof -
    have "unat (NOT c3) = 4294967295 - unat c3" by (simp add: unat_not)
    also have "\<dots> = 65535 * 65536 + (65535 - unat c3)" using that by simp
    finally have "unat (NOT c3) mod 65536 = (65535 * 65536 + (65535 - unat c3)) mod 65536"
      by (rule arg_cong)
    also have "\<dots> = 65535 - unat c3" using that by (simp only: mod_mult_self3) simp
    finally show ?thesis by (simp only: unat_ucast_mod) simp
  qed
  ultimately show ?thesis using c2' \<open>unat c2 < 65536\<close> ck by auto
qed

text \<open>What the reply leaves alone: everything behind the first bytes of the ICMP header.\<close>

lemma icmp_reply_mem:
  assumes "20 \<le> l3size" and "length (mac_addr cfg) = 6" and "14 \<le> unat (l2_len b)"
    and "icmp = unat (l2_len b) + l3size"
  shows "mem (icmp_reply api cfg l3size b) icmp = 0"
    and "i = 1 \<or> 4 \<le> i \<Longrightarrow> mem (icmp_reply api cfg l3size b) (icmp + i) = mem b (icmp + i)"
    and "(ldw (mem (icmp_reply api cfg l3size b)) (icmp + 2) :: u16) = icmp_cksum_reply (ldw (mem b) (icmp + 2))"
  using assms by (auto simp: icmp_reply_def Let_def mem_simps)

lemma words_sum_split:
  assumes "2 \<le> n"
  shows "words_sum m icmp n = unat (ldw m icmp :: u16) + unat (ldw m (icmp + 2) :: u16)
      + (\<Sum>i \<in> {2..<n}. unat (ldw m (icmp + 2 * i) :: u16))"
proof -
  have "{..<n} = {0, 1} \<union> {2..<n}" using assms by auto
  then show ?thesis by (simp add: words_sum_def sum.union_disjoint)
qed

lemma words_zero:
  assumes "(len + 1) div 2 = n"
  shows "(\<Sum>i \<in> {2..<n}. unat (ldw (\<lambda>j. if j < icmp + len then m j else 0) (icmp + 2 * i) :: u16)) = 0
     \<longleftrightarrow> (\<forall>i. 4 \<le> i \<and> i < len \<longrightarrow> m (icmp + i) = 0)"
    (is "?sum = 0 \<longleftrightarrow> ?zero")
proof -
  have "?sum = 0 \<longleftrightarrow> (\<forall>i. 2 \<le> i \<and> i < n \<longrightarrow>
      (2 * i < len \<longrightarrow> m (icmp + 2 * i) = 0) \<and> (2 * i + 1 < len \<longrightarrow> m (icmp + (2 * i + 1)) = 0))"
    by (auto simp: unat_ldw16 unat_eq_0)
  also have "\<dots> \<longleftrightarrow> ?zero"
  proof (intro iffI allI impI)
    fix j
    assume all: "\<forall>i. 2 \<le> i \<and> i < n \<longrightarrow>
      (2 * i < len \<longrightarrow> m (icmp + 2 * i) = 0) \<and> (2 * i + 1 < len \<longrightarrow> m (icmp + (2 * i + 1)) = 0)"
      and j: "4 \<le> j \<and> j < len"
    have "2 \<le> j div 2 \<and> j div 2 < n" using j assms by auto
    with all have "(2 * (j div 2) < len \<longrightarrow> m (icmp + 2 * (j div 2)) = 0)
        \<and> (2 * (j div 2) + 1 < len \<longrightarrow> m (icmp + (2 * (j div 2) + 1)) = 0)" by blast
    moreover have "j = 2 * (j div 2) \<or> j = 2 * (j div 2) + 1" by presburger
    ultimately show "m (icmp + j) = 0" using j by metis
  next
    fix i
    assume all: ?zero and i: "2 \<le> i \<and> i < n"
    show "(2 * i < len \<longrightarrow> m (icmp + 2 * i) = 0) \<and> (2 * i + 1 < len \<longrightarrow> m (icmp + (2 * i + 1)) = 0)"
      using i all [rule_format, of "2 * i"] all [rule_format, of "2 * i + 1"] by simp
  qed
  finally show ?thesis .
qed

text \<open>C10: the answer to an ICMP echo request has the type of a reply, everything behind the checksum as in the request,
  and a checksum that passes the check of RFC 1071, for messages of any length, odd ones included, provided the request passes
  it and has a byte other than 0 behind the checksum. When all of them are 0 the answer fails the check: its checksum is 0
  where it should be 0xffff.\<close>

theorem icmp_reply_checksum:
  assumes "20 \<le> l3size" and "length (mac_addr cfg) = 6" and "14 \<le> unat (l2_len b)" and "8 \<le> len"
    and "icmp = unat (l2_len b) + l3size" and "mem b icmp = 8" and "mem b (icmp + 1) = 0"
    and "icmp_valid (mem b) icmp len" and "m = mem (icmp_reply api cfg l3size b)"
  shows "m icmp = 0 \<and> m (icmp + 1) = 0 \<and> (\<forall>i \<ge> 4. m (icmp + i) = mem b (icmp + i))
     \<and> (icmp_valid m icmp len \<longleftrightarrow> (\<exists>i. 4 \<le> i \<and> i < len \<and> mem b (icmp + i) \<noteq> 0))"
proof -
  note mem = icmp_reply_mem [OF assms(1-3,5), where api = api, folded assms(9)]
  let ?p = "\<lambda>m j. if j < icmp + len then m j else (0 :: 8 word)"
  define n where "n = (len + 1) div 2"
  define T where "T = (\<Sum>i \<in> {2..<n}. unat (ldw (?p (mem b)) (icmp + 2 * i) :: u16))"
  define ck where "ck = unat (ldw (mem b) (icmp + 2) :: u16)"
  have n: "2 \<le> n" using assms(4) by (simp add: n_def)
  have tail: "(ldw (?p m) (icmp + 2 * i) :: u16) = ldw (?p (mem b)) (icmp + 2 * i)" if "i \<in> {2..<n}" for i
  proof (rule ldw_cong)
    fix j
    have "m (icmp + (2 * i + j)) = mem b (icmp + (2 * i + j))" using that by (intro mem(2)) auto
    then show "?p m (icmp + 2 * i + j) = ?p (mem b) (icmp + 2 * i + j)" by (simp add: add.assoc)
  qed
  have pad: "(ldw (?p m) (icmp + i) :: u16) = ldw m (icmp + i)" if "i + 2 \<le> len" for m i
    using that by (intro ldw_cong) auto
  have w: "unat (ldw m icmp :: u16) = 0" "unat (ldw (mem b) icmp :: u16) = 8"
    using mem(1) mem(2) [of 1] assms(6,7) by (simp_all add: unat_ldw16)
  have "icmp_sum x icmp len = unat (ldw x icmp :: u16) + unat (ldw x (icmp + 2) :: u16)
      + (\<Sum>i \<in> {2..<n}. unat (ldw (?p x) (icmp + 2 * i) :: u16))" for x
    unfolding icmp_sum_def n_def [symmetric] words_sum_split [OF n]
    using pad [where i = 0 and m = x] pad [where i = 2 and m = x] assms(4) by simp
  then have sums: "icmp_sum (mem b) icmp len = 8 + ck + T" "icmp_sum m icmp len = (if ck \<le> 65526 then ck + 8 else ck - 65527) + T"
    using w tail mem(3) by (simp_all only: T_def ck_def unat_icmp_cksum_reply) simp_all
  have ck: "ck < 65536" using unsigned_less [of "ldw (mem b) (icmp + 2) :: u16", where 'a = nat] by (simp add: ck_def)
  have valid: "(8 + ck + T) mod 65535 = 0" using assms(8) by (simp add: icmp_valid_def fold16_valid sums)
  have "icmp_valid m icmp len \<longleftrightarrow> T \<noteq> 0"
  proof (cases "ck \<le> 65526")
    case True
    then have "T \<noteq> 0" using valid by (cases "T = 0") auto
    then show ?thesis using True valid by (simp add: icmp_valid_def fold16_valid sums add.commute)
  next
    case False
    then have e: "8 + ck + T = (ck - 65527 + T) + 65535" using ck by simp
    have r: "(ck - 65527 + T) mod 65535 = 0" using valid unfolding e by (simp only: mod_add_self2)
    then have "ck - 65527 = 0" if "T = 0" using ck that by simp
    then show ?thesis using False r by (cases "T = 0") (simp_all add: icmp_valid_def fold16_valid sums)
  qed
  moreover have "T = 0 \<longleftrightarrow> (\<forall>i. 4 \<le> i \<and> i < len \<longrightarrow> mem b (icmp + i) = 0)"
    unfolding T_def by (rule words_zero) (simp add: n_def)
  ultimately show ?thesis using mem(1) mem(2) [of 1] mem(2) assms(7) by auto
qed

text \<open>A network device with the address 10.0.0.1 and an environment that takes every packet.\<close>

definition example_cfg :: dev_cfg where
  "example_cfg = \<lparr>mac_addr = [2, 0, 0, 0, 0, 1], ip4_addr = 0x0100000a, tx_offloads = 0, feature_icmp = True,
     feature_arp_table = True, feature_dev_clock = False, cfg_clock_bswap = False, cfg_clock_hz = 0\<rparr>"

definition example_net :: "rte_mbuf list net_api" where
  "example_net = \<lparr>tx = \<lparr>ring_sc_dequeue_burst = (\<lambda>_ n r. (take n r, drop n r)),
       ring_mp_enqueue_burst = (\<lambda>_ bs r. (length bs, r @ bs)), eth_tx_burst = (\<lambda>_ bs r. (length bs, r))\<rparr>,
     pktmbuf_alloc = (\<lambda>r. (Some (example_frame (\<lambda>_. 0) 0), r)),
     is_ipv4_mcast = (\<lambda>x. 0xE0000000 \<le> x \<and> x \<le> 0xEFFFFFFF),
     ipv4_cksum = (\<lambda>_ _. 0), raw_cksum = (\<lambda>_ _ _. 0), eth_read_clock = (\<lambda>r. (None, r)),
     timer_cycles = (\<lambda>r. (5, r)), timer_hz = 1, tx_offload_ipv4_cksum = 2, mbuf_f_tx_ipv4 = 1, mbuf_f_tx_ip_cksum = 2\<rparr>"

definition example_side :: tx_side where
  "example_side = \<lparr>per_core_queue = (\<lambda>_. no_txq), tx_queues = 0, tx_jobs_n = 1, svc_tx_n = 1\<rparr>"

text \<open>An echo request of nine bytes, with the identifier 1.\<close>

definition echo_request :: rte_mbuf where
  "echo_request = (example_frame ((\<lambda>_. 0)(34 := 8, 36 := 0xf6, 37 := 0xff, 38 := 1)) 60)\<lparr>l2_len := 14\<rparr>"

theorem icmp_reply_checksum_witness:
  "icmp_valid (mem (icmp_reply example_net example_cfg 20 echo_request)) 34 9"
proof -
  have "{..<5} = {0, 1, 2, 3, 4 :: nat}" by auto
  then have "icmp_sum (mem echo_request) 34 9 = 65535"
    by (simp add: icmp_sum_def words_sum_def unat_ldw16 echo_request_def example_frame_def)
  then have valid: "icmp_valid (mem echo_request) 34 9" by (simp add: icmp_valid_def fold16.simps)
  have "mem echo_request (34 + 4) \<noteq> 0" by (simp add: echo_request_def example_frame_def)
  then have "\<exists>i. 4 \<le> i \<and> i < 9 \<and> mem echo_request (34 + i) \<noteq> 0" by (intro exI [of _ 4]) simp
  moreover have "20 \<le> (20 :: nat)" "length (mac_addr example_cfg) = 6" "14 \<le> unat (l2_len echo_request)" "8 \<le> (9 :: nat)"
    "34 = unat (l2_len echo_request) + 20" "mem echo_request 34 = 8" "mem echo_request (34 + 1) = 0"
    by (simp_all add: echo_request_def example_frame_def example_cfg_def)
  note icmp_reply_checksum [OF this valid refl, where api = example_net]
  ultimately show ?thesis by blast
qed

section \<open>Address resolution\<close>

lemma arp_reply_lengths [simp]:
  "l2_len (arp_reply cfg b) = l2_len b" "data_len (arp_reply cfg b) = data_len b"
  by (simp_all add: arp_reply_def Let_def)

lemma arp_reply_mem:
  assumes "length (mac_addr cfg) = 6" and "14 \<le> a" and "a = unat (l2_len b)"
  shows "fetch (mem (arp_reply cfg b)) 0 6 = fetch (mem b) 6 6
       \<and> fetch (mem (arp_reply cfg b)) 6 6 = mac_addr cfg
       \<and> ldw (mem (arp_reply cfg b)) (a + 6) = bswap RTE_ARP_OP_REPLY
       \<and> fetch (mem (arp_reply cfg b)) (a + 8) 6 = mac_addr cfg
       \<and> ldw (mem (arp_reply cfg b)) (a + 14) = ip4_addr cfg
       \<and> fetch (mem (arp_reply cfg b)) (a + 18) 6 = fetch (mem b) (a + 8) 6
       \<and> (ldw (mem (arp_reply cfg b)) (a + 24) :: u32) = ldw (mem b) (a + 14)
       \<and> (ldw (mem (arp_reply cfg b)) a :: u16) = ldw (mem b) a
       \<and> (ldw (mem (arp_reply cfg b)) (a + 2) :: u16) = ldw (mem b) (a + 2)
       \<and> (ldw (mem (arp_reply cfg b)) (a - 2) :: u16) = ldw (mem b) (a - 2)"
proof -
  obtain c where "a = 14 + c" using assms(2) le_Suc_ex by blast
  then show ?thesis
    unfolding arp_reply_def Let_def assms(3) [symmetric]
    using assms(1) by (intro conjI) (simp_all add: mem_simps)
qed

text \<open>The answer to an ARP request is addressed to the sender of the request and carries the
  device's addresses as sender and the requester's as target; the other fields stay.\<close>

theorem arp_reply_fields:
  assumes "length (mac_addr cfg) = 6" and "14 \<le> a" and "a = unat (l2_len b)"
  shows "fetch (mem (arp_reply cfg b)) 0 6 = fetch (mem b) 6 6
       \<and> fetch (mem (arp_reply cfg b)) 6 6 = mac_addr cfg
       \<and> ldw (mem (arp_reply cfg b)) (a + 6) = bswap RTE_ARP_OP_REPLY
       \<and> fetch (mem (arp_reply cfg b)) (a + 8) 6 = mac_addr cfg
       \<and> ldw (mem (arp_reply cfg b)) (a + 14) = ip4_addr cfg
       \<and> fetch (mem (arp_reply cfg b)) (a + 18) 6 = fetch (mem b) (a + 8) 6
       \<and> (ldw (mem (arp_reply cfg b)) (a + 24) :: u32) = ldw (mem b) (a + 14)
       \<and> (ldw (mem (arp_reply cfg b)) a :: u16) = ldw (mem b) a
       \<and> (ldw (mem (arp_reply cfg b)) (a + 2) :: u16) = ldw (mem b) (a + 2)
       \<and> (ldw (mem (arp_reply cfg b)) (a - 2) :: u16) = ldw (mem b) (a - 2)"
  by (rule arp_reply_mem [OF assms])

theorem arp_reply_fields_witness:
  "fetch (mem (arp_reply example_cfg echo_request)) 22 6 = mac_addr example_cfg"
proof -
  have "length (mac_addr example_cfg) = 6" "14 = unat (l2_len echo_request)"
    by (simp_all add: echo_request_def example_cfg_def)
  then show ?thesis
    using arp_reply_fields [of example_cfg 14 echo_request, OF _ le_refl] by simp
qed

text \<open>What makes a buffer an ARP packet that \<open>process_arp\<close> learns from.\<close>

definition is_arp :: "rte_mbuf \<Rightarrow> bool" where
  "is_arp b \<longleftrightarrow> eth_proto b = bswap RTE_ETHER_TYPE_ARP \<and> unat (l2_len b) + 28 \<le> unat (data_len b)
     \<and> ldw (mem b) (unat (l2_len b)) = bswap RTE_ARP_HRD_ETHER
     \<and> ldw (mem b) (unat (l2_len b) + 2) = bswap RTE_ETHER_TYPE_IPV4
     \<and> (ldw (mem b) (unat (l2_len b) + 6) = bswap RTE_ARP_OP_REQUEST
         \<or> ldw (mem b) (unat (l2_len b) + 6) = bswap RTE_ARP_OP_REPLY)"

definition sender_ip :: "rte_mbuf \<Rightarrow> u32" where
  "sender_ip b = ldw (mem b) (unat (l2_len b) + 14)"

definition sender_mac :: "rte_mbuf \<Rightarrow> byte list" where
  "sender_mac b = fetch (mem b) (unat (l2_len b) + 8) 6"

lemma arp_bswaps:
  "bswap RTE_ARP_OP_REQUEST \<noteq> bswap RTE_ARP_OP_REPLY"
  "bswap RTE_ETHER_TYPE_ARP \<noteq> bswap RTE_ETHER_TYPE_IPV4"
  by (simp_all add: word_eval)

lemma process_rx_packet_learns:
  assumes "is_arp b" and "feature_arp_table cfg"
    and "process_rx_packet api cfg side q b arp4 r = Some (h, b', arp4', r')"
  shows "\<exists>now r1. device_read_clock api cfg r = (Some now, r1)
       \<and> arp4' = arp4(sender_ip b \<mapsto> (sender_mac b, now))"
  using assms unfolding is_arp_def process_rx_packet_def process_arp_def arp_learn_def Let_def
  by (auto simp: sender_ip_def sender_mac_def arp_bswaps service_enque_def simp del: be_ether_types
      split: if_splits option.splits prod.splits)

text \<open>Every well-formed ARP request or reply that arrives teaches the device the sender's
  address: a lookup afterwards succeeds with exactly the sender's MAC address, unless the clock
  read 0, which marks a pending entry.\<close>

theorem arp_learned_resolves:
  assumes "is_arp b" and "feature_arp_table cfg" and "sender_ip b AND 0x7f \<noteq> 0x7f"
    and "process_rx_packet api cfg side q b arp4 r = Some (h, b', arp4', r')"
    and "fst (device_read_clock api cfg r) \<noteq> Some 0"
  shows "ether_address api cfg side' (sender_ip b) arp4' r'' = Some (No_error, Some (sender_mac b), arp4', r'')"
  using process_rx_packet_learns [OF assms(1,2,4)] assms(3,5) by (auto simp: ether_address_def)

text \<open>The device asks at most once: after an ARP request for an address was handed to the ring,
  further lookups report \<open>resource_unavailable_try_again\<close> and neither allocate nor send, until a packet
  from that address arrives. A lost request is not repeated.\<close>

theorem ether_address_asks_once:
  assumes "ip AND 0x7f \<noteq> 0x7f" and "arp4 ip = None" and "feature_arp_table cfg"
    and "pktmbuf_alloc api r = (Some buffer, r1)"
    and "service_enque api side 0 (make_arp_request cfg ip buffer) r1 = Some (True, r2)"
  shows "\<exists>arp4'. ether_address api cfg side ip arp4 r = Some (Generic resource_unavailable_try_again, None, arp4', r2)
       \<and> (\<forall>r'. ether_address api cfg side ip arp4' r' = Some (Generic resource_unavailable_try_again, None, arp4', r'))"
  using assms by (simp add: ether_address_def)

theorem ether_address_asks_once_witness:
  "map_option fst (ether_address example_net example_cfg example_side 0x0200000a (\<lambda>_. None) []) =
     Some (Generic resource_unavailable_try_again)"
proof -
  let ?b = "example_frame (\<lambda>_. 0) 0"
  have a: "pktmbuf_alloc example_net [] = (Some ?b, [])" and f: "feature_arp_table example_cfg"
    and e: "service_enque example_net example_side 0 (make_arp_request example_cfg 0x0200000a ?b) [] =
       Some (True, [make_arp_request example_cfg 0x0200000a ?b])"
    by (simp_all add: example_net_def example_cfg_def example_side_def service_enque_def service_tx_def
        tx_ring_enque1_def tx_ring_enque_def)
  show ?thesis
    using ether_address_asks_once [OF _ _ f a e, of "\<lambda>_. None"] by auto
qed

lemma make_arp_request_lengths [simp]:
  "l2_len (make_arp_request cfg ip b) = 14" "data_len (make_arp_request cfg ip b) = 42"
  by (simp_all add: make_arp_request_def Let_def)

lemma make_arp_request_mem:
  assumes "length (mac_addr cfg) = 6"
  shows "(ldw (mem (make_arp_request cfg ip b)) 12 :: u16) = bswap RTE_ETHER_TYPE_ARP"
    and "(ldw (mem (make_arp_request cfg ip b)) 14 :: u16) = bswap RTE_ARP_HRD_ETHER"
    and "(ldw (mem (make_arp_request cfg ip b)) 16 :: u16) = bswap RTE_ETHER_TYPE_IPV4"
    and "(ldw (mem (make_arp_request cfg ip b)) 20 :: u16) = bswap RTE_ARP_OP_REQUEST"
    and "fetch (mem (make_arp_request cfg ip b)) 22 6 = mac_addr cfg"
    and "(ldw (mem (make_arp_request cfg ip b)) 28 :: u32) = ip4_addr cfg"
    and "(ldw (mem (make_arp_request cfg ip b)) 38 :: u32) = ip"
  using assms by (simp_all add: make_arp_request_def Let_def mem_simps del: be_ether_types)

lemma make_arp_request_is_arp:
  assumes "length (mac_addr cfg) = 6"
  shows "is_arp (make_arp_request cfg ip b)" and "sender_ip (make_arp_request cfg ip b) = ip4_addr cfg"
    and "sender_mac (make_arp_request cfg ip b) = mac_addr cfg"
  using make_arp_request_mem [OF assms, of ip b]
  by (simp_all add: is_arp_def sender_ip_def sender_mac_def eth_proto_def del: be_ether_types)

lemma arp_reply_is_arp:
  assumes "length (mac_addr cfg) = 6" and "14 \<le> unat (l2_len b)" and "is_arp b"
  shows "is_arp (arp_reply cfg b)" and "sender_ip (arp_reply cfg b) = ip4_addr cfg"
    and "sender_mac (arp_reply cfg b) = mac_addr cfg"
  using arp_reply_mem [OF assms(1,2) refl] assms(3)
  by (simp_all add: is_arp_def sender_ip_def sender_mac_def eth_proto_def del: be_ether_types)

lemma process_request_answers:
  assumes "is_arp b" and "ldw (mem b) (unat (l2_len b) + 6) = bswap RTE_ARP_OP_REQUEST"
    and "ldw (mem b) (unat (l2_len b) + 24) = ip4_addr cfg"
    and "process_rx_packet api cfg side q b arp4 r = Some (h, b', arp4', r')"
  shows "b' = arp_reply cfg b"
  using assms unfolding is_arp_def process_rx_packet_def process_arp_def Let_def
  by (auto simp: arp_bswaps simp del: be_ether_types split: if_splits option.splits prod.splits)

text \<open>C1: the two ends of address resolution fit together: when device \<open>A\<close> asks for the address of
  device \<open>B\<close>, \<open>B\<close> turns the request into its answer, and the answer resolves \<open>B\<close>'s address to \<open>B\<close>'s
  MAC address at \<open>A\<close>, whatever the buffers, the tables and the environments were.\<close>

theorem arp_handshake:
  assumes "length (mac_addr A) = 6" and "length (mac_addr B) = 6" and "feature_arp_table A"
    and "ip4_addr B AND 0x7f \<noteq> 0x7f" and "fst (device_read_clock apiA A rA) \<noteq> Some 0"
    and "process_rx_packet apiB B sideB qB (make_arp_request A (ip4_addr B) buffer) arpB rB =
           Some (hB, answer, arpB', rB')"
    and "process_rx_packet apiA A sideA qA answer arpA rA = Some (hA, b, arpA', rA')"
  shows "ether_address apiA A sideA (ip4_addr B) arpA' r = Some (No_error, Some (mac_addr B), arpA', r)"
proof -
  let ?req = "make_arp_request A (ip4_addr B) buffer"
  note req = make_arp_request_is_arp(1) [OF assms(1), of "ip4_addr B" buffer]
  have answer: "answer = arp_reply B ?req"
    using make_arp_request_mem [OF assms(1), of "ip4_addr B" buffer] assms(6)
    by (intro process_request_answers [OF req]) simp_all
  have l2: "14 \<le> unat (l2_len ?req)" by simp
  note rep = arp_reply_is_arp [OF assms(2) l2 req, folded answer]
  show ?thesis
    using process_rx_packet_learns [OF rep(1) assms(3) assms(7)] assms(4,5) rep(2,3)
    by (auto simp: ether_address_def)
qed

text \<open>Two devices with the addresses 10.0.0.1 and 10.0.0.2.\<close>

definition example_peer :: dev_cfg where
  "example_peer = example_cfg\<lparr>mac_addr := [2, 0, 0, 0, 0, 2], ip4_addr := 0x0200000a\<rparr>"

lemma example_enque:
  "service_enque example_net example_side q b r = Some (True, r @ [b])"
  by (simp add: example_net_def example_side_def service_enque_def service_tx_def
      tx_ring_enque1_def tx_ring_enque_def)

lemma example_clock: "device_read_clock example_net example_cfg r = (Some 5000000000, r)"
  "device_read_clock example_net example_peer r = (Some 5000000000, r)"
  by (simp_all add: device_read_clock_def example_net_def example_cfg_def example_peer_def ns_timer_def)

lemma process_arp_total:
  assumes "\<And>b r. service_enque api side q b r \<noteq> None" and "\<And>r. arp_learn api cfg b arp4 r \<noteq> None"
  shows "process_arp api cfg side q b arp4 r \<noteq> None"
proof -
  obtain arp1 r1 where "arp_learn api cfg b arp4 r = Some (arp1, r1)" using assms(2) [of r] by auto
  then show ?thesis using assms(1) by (simp add: process_arp_def Let_def del: not_None_eq)
qed

lemma example_process:
  assumes "cfg = example_cfg \<or> cfg = example_peer" and "is_arp b"
  shows "process_rx_packet example_net cfg example_side q b arp4 r \<noteq> None"
proof -
  have "arp_learn example_net cfg b arp4 r \<noteq> None" for r
    using assms(1) by (auto simp: arp_learn_def example_clock)
  then have "process_arp example_net cfg example_side q b arp4 r \<noteq> None"
    by (intro process_arp_total) (simp_all add: example_enque)
  then show ?thesis
    using assms(2) arp_bswaps(2) by (simp add: process_rx_packet_def is_arp_def del: be_ether_types)
qed

theorem arp_handshake_witness:
  "\<exists>arp4. ether_address example_net example_cfg example_side 0x0200000a arp4 [] =
     Some (No_error, Some [2, 0, 0, 0, 0, 2], arp4, [])"
proof -
  let ?req = "make_arp_request example_cfg (ip4_addr example_peer) (example_frame (\<lambda>_. 0) 0)"
  have mac: "length (mac_addr example_cfg) = 6" "length (mac_addr example_peer) = 6"
    by (simp_all add: example_cfg_def example_peer_def)
  note req = make_arp_request_is_arp(1) [OF mac(1), of "ip4_addr example_peer" "example_frame (\<lambda>_. 0) 0"]
  obtain h1 answer arp1 r1 where a: "process_rx_packet example_net example_peer example_side 0 ?req (\<lambda>_. None) [] =
      Some (h1, answer, arp1, r1)"
    using example_process [of example_peer ?req 0 "\<lambda>_. None" "[]"] req by auto
  have "answer = arp_reply example_peer ?req"
    using make_arp_request_mem [OF mac(1), of "ip4_addr example_peer" "example_frame (\<lambda>_. 0) 0"] a
    by (intro process_request_answers [OF req]) simp_all
  moreover have "is_arp (arp_reply example_peer ?req)"
    by (rule arp_reply_is_arp(1) [OF mac(2) _ req]) simp
  ultimately obtain h2 b arp2 r2 where
    "process_rx_packet example_net example_cfg example_side 0 answer (\<lambda>_. None) [] = Some (h2, b, arp2, r2)"
    using example_process [of example_cfg answer 0 "\<lambda>_. None" "[]"] by auto
  from arp_handshake [OF mac _ _ _ a this, of "[]"] show ?thesis
    by (auto simp: example_clock) (auto simp: example_cfg_def example_peer_def)
qed

theorem arp_learned_resolves_witness:
  "\<exists>arp4. ether_address example_net example_peer example_side 0x0100000a arp4 [] =
     Some (No_error, Some [2, 0, 0, 0, 0, 1], arp4, [])"
proof -
  let ?req = "make_arp_request example_cfg 0x0200000a (example_frame (\<lambda>_. 0) 0)"
  have mac: "length (mac_addr example_cfg) = 6" by (simp add: example_cfg_def)
  note req = make_arp_request_is_arp [OF mac, of "0x0200000a" "example_frame (\<lambda>_. 0) 0"]
  obtain h b arp1 r1 where "process_rx_packet example_net example_peer example_side 0 ?req (\<lambda>_. None) [] =
      Some (h, b, arp1, r1)"
    using example_process [of example_peer ?req 0 "\<lambda>_. None" "[]"] req(1) by auto
  from arp_learned_resolves [OF req(1) _ _ this, of example_side "[]"] req(2,3) show ?thesis
    by (auto simp: example_clock) (auto simp: example_cfg_def example_peer_def)
qed

section \<open>The loop over packets\<close>

lemma process_buf_id:
  "process_rx_packet api cfg side q b arp4 r = Some (h, b', arp4', r') \<Longrightarrow> buf_id b' = buf_id b"
  by (auto simp: process_rx_packet_def process_ipv4_def process_arp_def icmp_reply_def arp_reply_def Let_def
      split: if_splits option.splits prod.splits)

text \<open>The contract of the service rings: \<open>handed\<close> collects the buffers that were put into one; a ring takes one buffer
  or reports that it did not, and reading a clock is no concern of it. What else depends on the environment is
  not changed by either.\<close>

definition rings_account :: "'r net_api \<Rightarrow> ('r \<Rightarrow> nat multiset) \<Rightarrow> bool" where
  "rings_account api handed \<longleftrightarrow>
     (\<forall>ring b r k r'. ring_mp_enqueue_burst (tx api) ring [b] r = (k, r') \<longrightarrow>
        handed r' = handed r + (if k = 0 then {#} else {#buf_id b#}))
   \<and> (\<forall>r. handed (snd (eth_read_clock api r)) = handed r) \<and> (\<forall>r. handed (snd (timer_cycles api r)) = handed r)"

definition rings_keep :: "'r net_api \<Rightarrow> ('r \<Rightarrow> 'a) \<Rightarrow> bool" where
  "rings_keep api f \<longleftrightarrow>
     (\<forall>ring b r. f (snd (ring_mp_enqueue_burst (tx api) ring [b] r)) = f r)
   \<and> (\<forall>r. f (snd (eth_read_clock api r)) = f r) \<and> (\<forall>r. f (snd (timer_cycles api r)) = f r)"

lemma clock_keeps:
  assumes "\<forall>r. f (snd (eth_read_clock api r)) = f r" and "\<forall>r. f (snd (timer_cycles api r)) = f r"
    and "device_read_clock api cfg r = (now, r')"
  shows "f r' = f r"
proof -
  obtain rd r1 c r2 where "eth_read_clock api r = (rd, r1)" "timer_cycles api r1 = (c, r2)" by fastforce
  moreover obtain c' r3 where "timer_cycles api r = (c', r3)" by fastforce
  moreover have "f r1 = f r" "f r2 = f r1" "f r3 = f r" using assms(1,2) calculation by (metis snd_conv)+
  ultimately show ?thesis using assms(3) by (auto simp: device_read_clock_def split: if_splits option.splits)
qed

lemma service_enque_handed:
  assumes "rings_account api handed" and "service_enque api side q b r = Some (ok, r')"
  shows "handed r' = handed r + (if ok then {#buf_id b#} else {#})"
proof -
  obtain ring k where "ring_mp_enqueue_burst (tx api) ring [b] r = (k, r')" "ok = (k \<noteq> 0)"
    using assms(2) by (cases "service_tx side q") (auto simp: service_enque_def tx_ring_enque1_def tx_ring_enque_def Let_def split: prod.splits)
  moreover have "handed r' = handed r + (if k = 0 then {#} else {#buf_id b#})"
    using assms(1) calculation(1) unfolding rings_account_def by blast
  ultimately show ?thesis by simp
qed

lemma service_enque_keeps:
  assumes "rings_keep api f" and "service_enque api side q b r = Some (ok, r')"
  shows "f r' = f r"
proof -
  obtain ring k where "ring_mp_enqueue_burst (tx api) ring [b] r = (k, r')"
    using assms(2) by (cases "service_tx side q") (auto simp: service_enque_def tx_ring_enque1_def tx_ring_enque_def Let_def split: prod.splits)
  then show ?thesis using assms(1) unfolding rings_keep_def by (metis snd_conv)
qed

lemma arp_learn_keeps:
  assumes "\<forall>r. f (snd (eth_read_clock api r)) = f r" and "\<forall>r. f (snd (timer_cycles api r)) = f r"
    and "arp_learn api cfg b arp4 r = Some (arp4', r')"
  shows "f r' = f r"
  using assms(3) clock_keeps [OF assms(1,2)]
  by (auto simp: arp_learn_def split: if_splits option.splits prod.splits)

text \<open>One packet: the environment after learning, and the call of the ring if there is one.\<close>

lemma process_rx_packet_steps:
  assumes "process_rx_packet api cfg side q b arp4 r = Some (h, b', arp4', r')"
  obtains (kept) "\<not> h" "r' = r \<or> arp_learn api cfg b arp4 r = Some (arp4', r')"
    | (offered) r1 where "r1 = r \<or> arp_learn api cfg b arp4 r = Some (arp4', r1)" "service_enque api side q b' r1 = Some (h, r')"
  using assms unfolding process_rx_packet_def process_ipv4_def process_arp_def Let_def
  by (auto split: if_splits option.splits prod.splits)

lemma process_rx_packet_handed:
  assumes "rings_account api handed" and "process_rx_packet api cfg side q b arp4 r = Some (h, b', arp4', r')"
  shows "handed r' = handed r + (if h then {#buf_id b#} else {#})"
proof -
  have learn: "handed r1 = handed r" if "arp_learn api cfg b arp4 r = Some (arp1, r1)" for arp1 r1
    using arp_learn_keeps [OF _ _ that, of handed] assms(1) unfolding rings_account_def by blast
  show ?thesis
    using assms(2)
  proof (cases rule: process_rx_packet_steps)
    case kept
    then show ?thesis using learn by auto
  next
    case (offered r1)
    then show ?thesis using learn service_enque_handed [OF assms(1) offered(2)] process_buf_id [OF assms(2)] by auto
  qed
qed

lemma process_rx_packet_keeps:
  assumes "rings_keep api f" and "process_rx_packet api cfg side q b arp4 r = Some (h, b', arp4', r')"
  shows "f r' = f r"
proof -
  have learn: "f r1 = f r" if "arp_learn api cfg b arp4 r = Some (arp1, r1)" for arp1 r1
    using arp_learn_keeps [OF _ _ that, of f] assms(1) unfolding rings_keep_def by blast
  show ?thesis
    using assms(2)
  proof (cases rule: process_rx_packet_steps)
    case kept
    then show ?thesis using learn by auto
  next
    case (offered r1)
    then show ?thesis using learn service_enque_keeps [OF assms(1) offered(2)] by auto
  qed
qed

lemma process_rx_packets_Cons:
  assumes "process_rx_packets api cfg side q (b # bs) arp4 r = Some (kept, arp4', r')"
  obtains h b' arp1 r1 kept' where "process_rx_packet api cfg side q b arp4 r = Some (h, b', arp1, r1)"
    "process_rx_packets api cfg side q bs arp1 r1 = Some (kept', arp4', r')" "kept = (if h then kept' else b' # kept')"
  using assms by (auto split: option.splits prod.splits)

lemma process_rx_packets_keeps:
  assumes "rings_keep api f"
  shows "process_rx_packets api cfg side q bs arp4 r = Some (kept, arp4', r') \<Longrightarrow> f r' = f r"
proof (induction bs arbitrary: arp4 r kept)
  case (Cons b bs)
  from Cons.prems obtain h b' arp1 r1 kept' where
    p: "process_rx_packet api cfg side q b arp4 r = Some (h, b', arp1, r1)"
    and k: "process_rx_packets api cfg side q bs arp1 r1 = Some (kept', arp4', r')" by (rule process_rx_packets_Cons)
  from process_rx_packet_keeps [OF assms p] Cons.IH [OF k] show ?case by simp
qed simp

lemma process_rx_packets_account:
  assumes "rings_account api handed"
  shows "process_rx_packets api cfg side q bs arp4 r = Some (kept, arp4', r') \<Longrightarrow>
     subseq (map buf_id kept) (map buf_id bs)
     \<and> handed r' + mset (map buf_id kept) = handed r + mset (map buf_id bs)"
proof (induction bs arbitrary: arp4 r kept)
  case (Cons b bs)
  from Cons.prems obtain h b' arp1 r1 kept' where
    p: "process_rx_packet api cfg side q b arp4 r = Some (h, b', arp1, r1)"
    and k: "process_rx_packets api cfg side q bs arp1 r1 = Some (kept', arp4', r')"
    and kept: "kept = (if h then kept' else b' # kept')" by (rule process_rx_packets_Cons)
  from Cons.IH [OF k] kept process_rx_packet_handed [OF assms p] process_buf_id [OF p] show ?case
    by (auto simp: subseq_Cons')
qed simp

text \<open>C34: \<open>process_rx_packets\<close> accounts for every buffer: those it returns for recycling are, in order,
  a subsequence of those it got, and exactly the others are put into the service rings, each once: no buffer is lost,
  and none is both returned and in a ring.\<close>

theorem process_rx_packets_kept:
  assumes "rings_account api handed" and "process_rx_packets api cfg side q bs arp4 r = Some (kept, arp4', r')"
  shows "subseq (map buf_id kept) (map buf_id bs)
       \<and> handed r' + mset (map buf_id kept) = handed r + mset (map buf_id bs)"
  by (rule process_rx_packets_account [OF assms])

text \<open>A request for the own address, which is answered, and a frame that is neither IPv4 nor ARP.\<close>

lemma example_account: "rings_account example_net (\<lambda>r. mset (map buf_id r))"
  by (simp add: rings_account_def example_net_def)

theorem process_rx_packets_kept_witness:
  "\<exists>kept arp4 r. process_rx_packets example_net example_cfg example_side 0
      [(make_arp_request example_peer 0x0100000a (example_frame (\<lambda>_. 0) 0))\<lparr>buf_id := 7\<rparr>, echo_request] (\<lambda>_. None) []
        = Some (kept, arp4, r)
    \<and> map buf_id kept = [0] \<and> map buf_id r = [7]"
proof -
  let ?a = "make_arp_request example_peer 0x0100000a (example_frame (\<lambda>_. 0) 0)" let ?b = "?a\<lparr>buf_id := 7\<rparr>"
  have mac: "length (mac_addr example_peer) = 6" by (simp add: example_peer_def)
  have arp: "is_arp ?b" using make_arp_request_is_arp(1) [OF mac, of "0x0100000a" "example_frame (\<lambda>_. 0) 0"]
    by (simp add: is_arp_def eth_proto_def del: be_ether_types)
  have proto: "eth_proto echo_request \<noteq> bswap RTE_ETHER_TYPE_IPV4" "eth_proto echo_request \<noteq> bswap RTE_ETHER_TYPE_ARP"
    by (simp_all add: eth_proto_def echo_request_def example_frame_def word_eval)
  obtain h b' arp1 r1 where p: "process_rx_packet example_net example_cfg example_side 0 ?b (\<lambda>_. None) [] = Some (h, b', arp1, r1)"
    using example_process [OF _ arp, of example_cfg 0 "\<lambda>_. None" "[]"] by auto
  have ops: "ldw (mem ?b) (unat (l2_len ?b) + 6) = bswap RTE_ARP_OP_REQUEST" "ldw (mem ?b) (unat (l2_len ?b) + 24) = ip4_addr example_cfg"
    using make_arp_request_mem [OF mac, of "0x0100000a" "example_frame (\<lambda>_. 0) 0"] by (simp_all add: example_cfg_def)
  have h: "h" using p arp ops unfolding is_arp_def process_rx_packet_def process_arp_def Let_def
    by (auto simp: arp_bswaps example_enque simp del: be_ether_types split: if_splits option.splits prod.splits)
  then have r1: "r1 = [b']" using process_rx_packet_handed [OF example_account p] p arp ops
    unfolding is_arp_def process_rx_packet_def process_arp_def Let_def
    by (auto simp: arp_bswaps example_enque arp_learn_def example_clock simp del: be_ether_types split: if_splits option.splits prod.splits)
  have eq: "process_rx_packets example_net example_cfg example_side 0 [?b, echo_request] (\<lambda>_. None) [] =
      Some ([echo_request], arp1, [b'])"
    using p h r1 proto by (simp add: process_rx_packet_def [of _ _ _ _ echo_request])
  from process_rx_packets_kept [OF example_account eq] eq show ?thesis
    by (auto simp: echo_request_def example_frame_def)
qed

section \<open>Membership reports\<close>

text \<open>The highest byte of an address in network byte order is its last octet.\<close>

definition last_octet :: "u32 \<Rightarrow> nat" where
  "last_octet ip = unat (drop_bit 24 ip)"

lemma mcast_range: "(0xE0000000 \<le> x \<and> x \<le> 0xEFFFFFFF) \<longleftrightarrow> last_octet x \<in> {224..239}" for x :: u32
proof -
  have "(224 \<le> unat x div 16777216 \<and> unat x div 16777216 \<le> 239) \<longleftrightarrow> (0xE0000000 \<le> unat x \<and> unat x \<le> 0xEFFFFFFF)"
    using less_eq_div_iff_mult_less_eq [of 16777216 224 "unat x"]
      div_less_iff_less_mult [of 16777216 "unat x" 240] by auto
  then show ?thesis by (simp add: last_octet_def unat_drop_bit_div word_le_nat_alt)
qed

text \<open>The guard of \<open>mcast_group\<close> rejects the wrong addresses. \<open>RTE_IS_IPV4_MCAST\<close> tests a host-order
  address for 224.0.0.0 to 239.255.255.255; applied to the network-order value and without
  negation, it refuses exactly the addresses whose last octet is 224 to 239, multicast or not, and
  sends a report for all others.\<close>

theorem mcast_group_guard:
  assumes "\<forall>x. is_ipv4_mcast api x \<longleftrightarrow> 0xE0000000 \<le> x \<and> x \<le> 0xEFFFFFFF"
    and "pktmbuf_alloc api r = (Some buffer, r1)"
    and "svc_tx_n side \<noteq> 0"
  shows "(\<exists>r'. mcast_group api cfg side ip t r = Some (Generic bad_address, r')) \<longleftrightarrow> last_octet ip \<in> {224..239}"
proof (cases "is_ipv4_mcast api ip")
  case True
  then show ?thesis using assms(1) mcast_range [of ip] by (simp add: mcast_group_def)
next
  case False
  then have "last_octet ip \<notin> {224..239}" using assms(1) mcast_range [of ip] by simp
  moreover obtain ok r2 where "service_enque api side 0 (make_igmp api cfg ip t buffer) r1 = Some (ok, r2)"
    using assms(3) by (cases "tx_ring_enque1 (tx api) (0 mod svc_tx_n side + tx_jobs_n side - svc_tx_n side)
        (make_igmp api cfg ip t buffer) r1") (auto simp: service_enque_def service_tx_def)
  ultimately show ?thesis using False assms(2) by (simp add: mcast_group_def)
qed

theorem mcast_group_guard_witness:
  "\<exists>r'. mcast_group example_net example_cfg example_side 0xe10101ef change_to_exclude_mode [] =
     Some (Generic bad_address, r')"
proof -
  have "last_octet 0xe10101ef = 225" by (simp add: last_octet_def)
  moreover have "\<forall>x. is_ipv4_mcast example_net x \<longleftrightarrow> 0xE0000000 \<le> x \<and> x \<le> 0xEFFFFFFF"
    and "pktmbuf_alloc example_net [] = (Some (example_frame (\<lambda>_. 0) 0), [])"
    by (simp_all add: example_net_def)
  moreover have "svc_tx_n example_side \<noteq> 0" by (simp add: example_side_def)
  ultimately show ?thesis
    using mcast_group_guard [of example_net "[]" "example_frame (\<lambda>_. 0) 0" "[]" example_side example_cfg "0xe10101ef"]
    by simp
qed

lemma make_igmp_lengths:
  "data_len (make_igmp api cfg ip t b) = 54" "l2_len (make_igmp api cfg ip t b) = 14"
  "l3_len (make_igmp api cfg ip t b) = 24"
  "l2_len (igmp_report cfg ip t b) = 14" "l3_len (igmp_report cfg ip t b) = 24"
  by (simp_all add: make_igmp_def igmp_report_def make_ipv4_def Let_def)

lemma make_igmp_mem:
  assumes "i < 24 \<or> 26 \<le> i \<and> i < 40 \<or> 42 \<le> i"
  shows "mem (make_igmp api cfg ip t b) i = mem (igmp_report cfg ip t b) i"
  using assms by (auto simp: make_igmp_def Let_def make_igmp_lengths mem_simps)

lemma make_igmp_fetch:
  assumes "off + n \<le> 24 \<or> 26 \<le> off \<and> off + n \<le> 40 \<or> 42 \<le> off"
  shows "fetch (mem (make_igmp api cfg ip t b)) off n = fetch (mem (igmp_report cfg ip t b)) off n"
  using assms by (intro nth_equalityI) (auto simp: make_igmp_mem)

lemma igmp_report_mem:
  assumes "length (mac_addr cfg) = 6"
  shows "mem (igmp_report cfg ip t b) =
     (let m0 = mem (make_ipv4 b IPPROTO_IGMP 20);
          m1 = store (store m0 6 (mac_addr cfg)) 0 [0x01, 0x00, 0x5e, 0x00, 0x00, 0x16];
          m2 = stw (stw (stw m1 14 (0x46 :: u8)) 26 (ip4_addr cfg)) 30 (0x160000E0 :: u32);
          m3 = stw (stw (stw (stw m2 22 (1 :: u8)) 34 (0x494 :: u32)) 38 (0x22 :: u8)) 39 (0 :: u8)
      in stw (stw (stw (stw (stw (stw (stw m3 42 (0 :: u16)) 44 (0x100 :: u16)) 46 (igmp_code t)) 47 (0 :: u8)) 48 (0 :: u16)) 50 ip) 40 (0 :: u16))"
proof -
  have eth: "ether_addr_for_ipv4_mcast 0xE0000016 = [0x01, 0x00, 0x5e, 0x00, 0x00, 0x16]"
    by (simp add: ether_addr_for_ipv4_mcast_def word_eval)
  have swaps: "bswap (0xE0000016 :: u32) = 0x160000E0" "bswap (1 :: u16) = 0x100"
    by (simp_all add: word_eval)
  have "mem (make_ipv4 b IPPROTO_IGMP 20) 14 = 0x45"
    by (simp add: make_ipv4_def Let_def mem_simps)
  moreover have "l2_len (make_ipv4 b IPPROTO_IGMP 20) = 14" "l3_len (make_ipv4 b IPPROTO_IGMP 20) = 20"
    by (simp_all add: make_ipv4_def Let_def)
  ultimately show ?thesis
    using assms by (simp add: igmp_report_def Let_def eth swaps store_apply)
qed

lemma make_igmp_ldw:
  assumes "off + LENGTH('a) div 8 \<le> 24 \<or> 26 \<le> off \<and> off + LENGTH('a) div 8 \<le> 40 \<or> 42 \<le> off"
  shows "(ldw (mem (make_igmp api cfg ip t b)) off :: 'a::len word) = ldw (mem (igmp_report cfg ip t b)) off"
  by (simp add: ldw_def make_igmp_fetch [OF assms])

lemma igmp_ipv4_mem:
  "(ldw (mem (make_ipv4 b IPPROTO_IGMP 20)) 12 :: u16) = bswap RTE_ETHER_TYPE_IPV4"
  "(ldw (mem (make_ipv4 b IPPROTO_IGMP 20)) 16 :: u16) = bswap 40"
  "mem (make_ipv4 b IPPROTO_IGMP 20) 23 = IPPROTO_IGMP"
  by (simp_all add: make_ipv4_def Let_def mem_simps)

text \<open>A membership report is well-formed: an IPv4 packet to 224.0.0.22 with time to live 1 and the
  router-alert option, so a header of 24 bytes, whose total length covers the 16 bytes of the
  report with one record for the group; the frame holds exactly these bytes.\<close>

theorem make_igmp_layout:
  assumes "length (mac_addr cfg) = 6" and "m = mem (make_igmp api cfg ip t b)"
  shows "unat (data_len (make_igmp api cfg ip t b)) = 14 + 24 + 16
       \<and> unat (l2_len (make_igmp api cfg ip t b)) = 14 \<and> unat (l3_len (make_igmp api cfg ip t b)) = 24
       \<and> fetch m 0 6 = [0x01, 0x00, 0x5e, 0x00, 0x00, 0x16] \<and> fetch m 6 6 = mac_addr cfg
       \<and> ldw m 12 = bswap RTE_ETHER_TYPE_IPV4 \<and> ipv4_hdr_len m 14 = 24
       \<and> unat (bswap (ldw m 16 :: u16)) = 24 + 16 \<and> m 22 = 1 \<and> m 23 = IPPROTO_IGMP
       \<and> ldw m 26 = ip4_addr cfg \<and> fetch m 30 4 = [224, 0, 0, 22] \<and> fetch m 34 4 = [0x94, 0x04, 0, 0]
       \<and> m 38 = 0x22 \<and> fetch m 44 2 = [0, 1] \<and> m 46 = igmp_code t \<and> ldw m 50 = ip"
  unfolding assms(2)
  by (intro conjI)
    (simp_all add: make_igmp_lengths make_igmp_fetch make_igmp_ldw make_igmp_mem ipv4_hdr_len_def
      igmp_report_mem [OF assms(1)] Let_def mem_simps igmp_ipv4_mem assms(1) to_le_numeral
      del: be_ether_types)

theorem make_igmp_layout_witness:
  "ldw (mem (make_igmp example_net example_cfg 0xef010101 change_to_exclude_mode (example_frame (\<lambda>_. 0) 0))) 50 =
     (0xef010101 :: u32)"
proof -
  have "length (mac_addr example_cfg) = 6" by (simp add: example_cfg_def)
  then show ?thesis using make_igmp_layout [OF _ refl, of example_cfg] by blast
qed

end
