(* ===== verification/Flow_Queue.thy ===== *)
theory Flow_Queue
  imports Errors Mbuf
begin

text \<open>
  Flow-directed receive queues: \<open>dpdkx/flow/flow.cpp\<close>, \<open>dpdkx/flow/rx_queue.{hpp,cpp}\<close> and the
  receive loop \<open>flow::rx_queue::run_exclusive\<close> of \<open>dpdkx/jobs.cpp\<close>. Flow handles and channels are
  known by their address. \<open>rte_flow_create\<close> and \<open>rte_flow_destroy\<close> are fields of \<open>flow_api\<close> over an
  unknown state \<open>'r\<close>; the error they fill in is the thread's last flow error.
\<close>

section \<open>Flow rules\<close>

type_synonym ip4_endpoint = "u32 \<times> u16"

record ipv4_item =
  it_next_proto_id :: u8
  it_dst_addr :: u32

datatype flow_item =
    Item_eth
  | Item_ipv4 ipv4_item ipv4_item
  | Item_udp u16 u16
  | Item_end

datatype flow_action = Action_queue u16 | Action_end

record 'r flow_api =
  flow_create :: "u16 \<Rightarrow> flow_item list \<Rightarrow> flow_action list \<Rightarrow> 'r \<Rightarrow> nat option \<times> rte_flow_error \<times> 'r"
  flow_destroy :: "u16 \<Rightarrow> nat \<Rightarrow> 'r \<Rightarrow> int \<times> rte_flow_error \<times> 'r"

definition make_udp_flow ::
  "'r flow_api \<Rightarrow> u16 \<Rightarrow> u16 \<Rightarrow> ip4_endpoint \<Rightarrow> 'r \<Rightarrow> nat option \<times> rte_flow_error \<times> 'r" where
  "make_udp_flow api port queue endpoint r =
     (let ip4_spec = \<lparr>it_next_proto_id = IPPROTO_UDP, it_dst_addr = fst endpoint\<rparr>;
          ip4_mask = \<lparr>it_next_proto_id = 0xff, it_dst_addr = 0xffffffff\<rparr>;
          pattern = [Item_eth, Item_ipv4 ip4_spec ip4_mask, Item_udp (snd endpoint) 0xffff, Item_end];
          actions = [Action_queue queue, Action_end]
      in flow_create api port pattern actions r)"

text \<open>The overload that throws; \<open>cause\<close> is the text of the pointer in the error, and \<open>None\<close> is an error without a
  message, whose null pointer would be formatted.\<close>

definition make_udp_flow_or_throw ::
  "'r flow_api \<Rightarrow> string \<Rightarrow> u16 \<Rightarrow> u16 \<Rightarrow> ip4_endpoint \<Rightarrow> 'r \<Rightarrow> (string + nat) option \<times> 'r" where
  "make_udp_flow_or_throw api cause port queue endpoint r =
     (case make_udp_flow api port queue endpoint r of
        (Some flow, e, r) \<Rightarrow> (Some (Inr flow), r)
      | (None, e, r) \<Rightarrow>
          (map_option (\<lambda>m. Inl (''unable create flow, error : '' @ to_string (fe_type e) @ '' '' @ cause @ '' '' @ m))
             (fe_message e), r))"

section \<open>The queue object\<close>

record rx_queue =
  fq_port :: u16
  fq_queue :: u16
  fq_flows :: "nat list"
  fq_ch :: "nat option"

definition make_rx_queue :: "u16 \<Rightarrow> u16 \<Rightarrow> rx_queue" where
  "make_rx_queue port queue = \<lparr>fq_port = port, fq_queue = queue, fq_flows = [], fq_ch = None\<rparr>"

definition assigned :: "rx_queue \<Rightarrow> bool" where
  "assigned q \<longleftrightarrow> fq_ch q \<noteq> None"

definition flow_stub_endpoint :: "u16 \<Rightarrow> ip4_endpoint" where
  "flow_stub_endpoint queue_id = (0xe0 OR bswap (ucast queue_id :: u32), 0)"

text \<open>Moving a queue that has a channel throws; \<open>None\<close> is the exception.\<close>

definition move_rx_queue :: "rx_queue \<Rightarrow> rx_queue option" where
  "move_rx_queue other = (if assigned other then None else Some (other\<lparr>fq_ch := None\<rparr>))"

text \<open>Exceptions of the members below carry an error code, \<open>Inl\<close>.\<close>

definition flow_start :: "'r flow_api \<Rightarrow> rx_queue \<Rightarrow> 'r \<Rightarrow> (error_code + unit) \<times> rx_queue \<times> 'r" where
  "flow_start api q r =
     (if fq_flows q = [] then
        (case make_udp_flow api (fq_port q) (fq_queue q) (flow_stub_endpoint (fq_queue q)) r of
           (None, e, r) \<Rightarrow> (Inl (last_error_code e), q, r)
         | (Some flow, e, r) \<Rightarrow> (Inr (), q\<lparr>fq_flows := fq_flows q @ [flow]\<rparr>, r))
      else (Inr (), q, r))"

text \<open>The predicate of \<open>remove_if\<close> runs once per element, in order.\<close>

fun destroy_flows :: "'r flow_api \<Rightarrow> u16 \<Rightarrow> nat list \<Rightarrow> 'r \<Rightarrow> nat list \<times> 'r" where
  "destroy_flows api port [] r = ([], r)"
| "destroy_flows api port (f # fs) r =
     (let (rc, e, r) = flow_destroy api port f r; (kept, r) = destroy_flows api port fs r
      in (if rc = 0 then kept else f # kept, r))"

definition flow_reset :: "'r flow_api \<Rightarrow> rx_queue \<Rightarrow> 'r \<Rightarrow> rx_queue \<times> 'r" where
  "flow_reset api q r =
     (let (kept, r) = destroy_flows api (fq_port q) (fq_flows q) r in (q\<lparr>fq_flows := kept\<rparr>, r))"

definition route_to :: "'r flow_api \<Rightarrow> ip4_endpoint \<Rightarrow> rx_queue \<Rightarrow> 'r \<Rightarrow> error_code \<times> rx_queue \<times> 'r" where
  "route_to api ep q r =
     (case make_udp_flow api (fq_port q) (fq_queue q) ep r of
        (None, e, r) \<Rightarrow> (last_error_code e, q, r)
      | (Some flow, e, r) \<Rightarrow> (No_error, q\<lparr>fq_flows := fq_flows q @ [flow]\<rparr>, r))"

text \<open>The second loop destroys from the back and stops at the first failure; it runs over the
  reversed list.\<close>

fun destroy_back :: "'r flow_api \<Rightarrow> u16 \<Rightarrow> nat list \<Rightarrow> 'r \<Rightarrow> error_code option \<times> nat list \<times> 'r" where
  "destroy_back api port [] r = (None, [], r)"
| "destroy_back api port (f # fs) r =
     (let (rc, e, r) = flow_destroy api port f r
      in if rc \<noteq> 0 then (Some (last_error_code e), f # fs, r) else destroy_back api port fs r)"

definition reset_channel ::
  "'r flow_api \<Rightarrow> nat option \<Rightarrow> ip4_endpoint \<Rightarrow> rx_queue \<Rightarrow> 'r \<Rightarrow> (error_code + unit) \<times> rx_queue \<times> 'r" where
  "reset_channel api ch ep q r =
     (let (q, r) = flow_reset api q r;
          (err, left, r) = destroy_back api (fq_port q) (rev (fq_flows q)) r;
          q = q\<lparr>fq_flows := rev left\<rparr>
      in case err of
           Some e \<Rightarrow> (Inl e, q, r)
         | None \<Rightarrow>
             (let (e, q, r) = route_to api ep (q\<lparr>fq_ch := ch\<rparr>) r
              in if failed e then (Inl e, q, r) else (Inr (), q, r)))"

text \<open>\<open>process\<close> always throws.\<close>

definition flow_process :: "rx_queue \<Rightarrow> string option" where
  "flow_process q = Some ''not implemented yet''"

section \<open>The receive loop\<close>

text \<open>
  \<open>run_exclusive\<close> of lines 122-159 of \<open>dpdkx/jobs.cpp\<close>. The queue is polled every 500 ms until a
  channel is assigned: \<open>polls\<close> gives what each poll sees, the channel and the running flag.
  \<open>proxy ch\<close> is what \<open>enqueue_proxy\<close> of the channel returns, \<open>None\<close> when it throws. Each further
  round reads the flag, then a burst; \<open>None\<close> as result means that the fuel ran out.
\<close>

definition parse_flow_buffer :: "nat \<Rightarrow> rte_mbuf \<Rightarrow> rte_mbuf option" where
  "parse_flow_buffer fuel b =
     map_option (\<lambda>(proto, b).
       b\<lparr>l3_len := of_nat (ipv4_hdr_len (mem b) (unat (l2_len b))), l4_len := 8\<rparr>) (update_l2size fuel b)"

fun parse_flow_buffers :: "nat \<Rightarrow> rte_mbuf list \<Rightarrow> rte_mbuf list option" where
  "parse_flow_buffers fuel [] = Some []"
| "parse_flow_buffers fuel (b # bs) =
     (case parse_flow_buffer fuel b of
        None \<Rightarrow> None
      | Some b \<Rightarrow> map_option (Cons b) (parse_flow_buffers fuel bs))"

fun flow_rounds ::
  "nat \<Rightarrow> ('r \<Rightarrow> bool) \<Rightarrow> ('r \<Rightarrow> rte_mbuf list \<times> 'r) \<Rightarrow> (rte_mbuf list \<Rightarrow> 'r \<Rightarrow> 'r) \<Rightarrow> 'r \<Rightarrow> 'r option" where
  "flow_rounds 0 running rx_burst enqueue r = None"
| "flow_rounds (Suc fuel) running rx_burst enqueue r =
     (if running r then
        (let (bs, r) = rx_burst r
         in if bs = [] then flow_rounds fuel running rx_burst enqueue r
            else (case parse_flow_buffers fuel bs of
                    None \<Rightarrow> None
                  | Some bs \<Rightarrow> flow_rounds fuel running rx_burst enqueue (enqueue bs r)))
      else Some r)"

fun flow_run_exclusive ::
  "nat \<Rightarrow> (nat option \<times> bool) list \<Rightarrow> (nat \<Rightarrow> (rte_mbuf list \<Rightarrow> 'r \<Rightarrow> 'r) option) \<Rightarrow> ('r \<Rightarrow> bool) \<Rightarrow>
     ('r \<Rightarrow> rte_mbuf list \<times> 'r) \<Rightarrow> 'r \<Rightarrow> 'r option" where
  "flow_run_exclusive fuel [] proxy running rx_burst r = None"
| "flow_run_exclusive fuel ((ch, run) # polls) proxy running rx_burst r =
     (case ch of
        None \<Rightarrow> if \<not> run then Some r else flow_run_exclusive fuel polls proxy running rx_burst r
      | Some c \<Rightarrow> (case proxy c of None \<Rightarrow> Some r | Some enqueue \<Rightarrow> flow_rounds fuel running rx_burst enqueue r))"

text \<open>\<open>rx_channel::enqueue_proxy\<close>, which no class of the program overrides, throws.\<close>

definition rx_channel_enqueue_proxy :: "nat \<Rightarrow> (rte_mbuf list \<Rightarrow> 'r \<Rightarrow> 'r) option" where
  "rx_channel_enqueue_proxy ch = None"

section \<open>Properties\<close>

lemma destroy_flows_subseq: "destroy_flows api port fs r = (kept, r') \<Longrightarrow> subseq kept fs"
proof (induction fs arbitrary: r kept)
  case (Cons f fs)
  then show ?case by (auto split: prod.splits if_splits)
qed simp

lemma unat_bswap_queue:
  "unat (bswap (ucast (q :: u16) :: u32)) = 65536 * (unat q div 256) + 16777216 * (unat q mod 256)"
proof -
  have q: "unat q < 65536" using unsigned_less [of q, where 'a = nat] by simp
  have v: "unat (ucast q :: u32) = unat q" by (rule unat_ucast_up) simp
  have le: "to_le 4 (unat q) = [of_nat (unat q), of_nat (unat q div 256), 0, 0]"
    using q by (simp add: to_le_numeral)
  have hi: "unat (of_nat (unat q div 256) :: byte) = unat q div 256"
    using q by (simp only: unat_of_nat_mod) simp
  have lo: "unat (of_nat (unat q) :: byte) = unat q mod 256"
    by (simp only: unat_of_nat_mod) simp
  have n: "of_le (rev (to_le 4 (unat q))) = 65536 * (unat q div 256) + 16777216 * (unat q mod 256)"
    by (simp only: le rev.simps append.simps of_le.simps hi lo unsigned_0) simp
  have "unat (bswap (ucast q :: u32)) = of_le (rev (to_le 4 (unat q))) mod 4294967296"
    unfolding bswap_def v by (simp only: unat_of_nat_mod) simp
  moreover have "unat q div 256 < 256" using q by simp
  ultimately show ?thesis unfolding n by simp
qed

text \<open>The stub endpoints that keep the flow queues of a port apart before a channel is assigned
  differ for different queues, and all lie in 224.0.0.0/8.\<close>

theorem flow_stub_endpoint_distinct:
  "(flow_stub_endpoint q = flow_stub_endpoint q' \<longleftrightarrow> q = q') \<and> fst (flow_stub_endpoint q) AND 0xff = 0xe0"
proof
  let ?x = "\<lambda>q. bswap (ucast (q :: u16) :: u32)"
  have div: "unat (?x q) = 256 * unat (drop_bit 8 (?x q))" for q
  proof -
    have "unat (?x q) = 256 * (256 * (unat q div 256) + 65536 * (unat q mod 256))"
      by (simp add: unat_bswap_queue)
    then show ?thesis by (simp add: unat_drop_bit_div)
  qed
  have "q = q'" if "0xe0 OR ?x q = 0xe0 OR ?x q'"
  proof -
    have "drop_bit 8 (0xe0 OR ?x q) = drop_bit 8 (0xe0 OR ?x q')" using that by simp
    then have "drop_bit 8 (?x q) = drop_bit 8 (?x q')" by (simp add: drop_bit_or)
    then have "?x q = ?x q'" using div [of q] div [of q'] by (simp add: word_unat_eq_iff)
    then have eq: "(ucast q :: u32) = ucast q'" by (simp add: bswap_inject)
    have up: "unat (ucast w :: u32) = unat w" for w :: u16 by (rule unat_ucast_up) simp
    show ?thesis using up [of q] up [of q'] unfolding eq by (simp add: word_unat_eq_iff)
  qed
  then show "flow_stub_endpoint q = flow_stub_endpoint q' \<longleftrightarrow> q = q'" by (auto simp: flow_stub_endpoint_def)
  have "unat (take_bit 8 (?x q)) = 0" using div [of q] by (simp only: unsigned_take_bit_eq) (simp add: take_bit_eq_mod)
  then have "?x q AND 0xff = 0" by (simp add: take_bit_eq_mask mask_eq_exp_minus_1 word_unat_eq_iff)
  then show "fst (flow_stub_endpoint q) AND 0xff = 0xe0"
    by (simp add: flow_stub_endpoint_def bit.conj_disj_distrib2)
qed

lemma destroy_back_result:
  "destroy_back api port fs r = (err, left, r') \<Longrightarrow>
     (err = None \<longrightarrow> left = []) \<and> (err \<noteq> None \<longrightarrow> left \<noteq> [] \<and> suffix left fs)"
proof (induction fs arbitrary: r)
  case (Cons f fs)
  then show ?case by (auto split: prod.splits if_splits intro: suffix_ConsI)
qed simp

text \<open>Reassigning a flow queue ends in one of three ways: the queue has the new channel and exactly
  one rule, the rule for the endpoint; or a rule could not be destroyed, an exception is thrown and
  channel and remaining rules are the old ones; or the new rule could not be created, an exception
  is thrown, and the queue keeps the new channel without any rule. In the last case the queue counts
  as assigned although no packet can reach it.\<close>

theorem reset_channel_result:
  assumes "\<forall>port items actions r e r'. flow_create api port items actions r = (None, e, r') \<longrightarrow> fe_type e \<noteq> 0"
    and "reset_channel api ch ep q r = (res, q', r')"
  shows "(\<exists>f. res = Inr () \<and> fq_flows q' = [f] \<and> fq_ch q' = ch)
       \<or> (\<exists>e. res = Inl e \<and> fq_ch q' = fq_ch q \<and> fq_flows q' \<noteq> [] \<and> subseq (fq_flows q') (fq_flows q))
       \<or> (\<exists>e. res = Inl e \<and> fq_ch q' = ch \<and> fq_flows q' = [])"
proof -
  obtain kept r1 where k: "destroy_flows api (fq_port q) (fq_flows q) r = (kept, r1)"
    by (cases "destroy_flows api (fq_port q) (fq_flows q) r")
  obtain err left r2 where d: "destroy_back api (fq_port q) (rev kept) r1 = (err, left, r2)"
    by (cases "destroy_back api (fq_port q) (rev kept) r1")
  note left = destroy_back_result [OF d]
  show ?thesis
  proof (cases err)
    case None
    obtain o1 e r3 where c: "make_udp_flow api (fq_port q) (fq_queue q) ep r2 = (o1, e, r3)"
      by (cases "make_udp_flow api (fq_port q) (fq_queue q) ep r2")
    have "fe_type e \<noteq> 0" if "o1 = None"
      using c that assms(1) [rule_format] unfolding make_udp_flow_def Let_def by blast
    then show ?thesis
      using assms(2) None left k d c
      by (cases o1) (auto simp: reset_channel_def flow_reset_def route_to_def last_error_code_def)
  next
    case (Some e)
    have "subseq (rev left) kept"
      using left Some by (metis option.distinct(1) prefix_imp_subseq rev_rev_ident suffix_to_prefix)
    then have "subseq (rev left) (fq_flows q)"
      using destroy_flows_subseq [OF k] subseq_order.order_trans by blast
    then show ?thesis
      using assms(2) Some left k d by (auto simp: reset_channel_def flow_reset_def)
  qed
qed

text \<open>A driver that creates rules until five exist.\<close>

definition example_flow_api :: "nat flow_api" where
  "example_flow_api =
     \<lparr>flow_create = (\<lambda>_ _ _ r. if r < 5 then (Some r, \<lparr>fe_type = 0, fe_message = None\<rparr>, Suc r)
                              else (None, \<lparr>fe_type = 1, fe_message = None\<rparr>, r)),
      flow_destroy = (\<lambda>_ _ r. (0, \<lparr>fe_type = 0, fe_message = None\<rparr>, r))\<rparr>"

theorem reset_channel_result_witness:
  "fq_flows (fst (snd (reset_channel example_flow_api (Some 9) (1, 2) (make_rx_queue 0 3) 0))) = [0]"
proof -
  obtain res q' r' where s: "reset_channel example_flow_api (Some 9) (1, 2) (make_rx_queue 0 3) 0 = (res, q', r')"
    by (cases "reset_channel example_flow_api (Some 9) (1, 2) (make_rx_queue 0 3) 0")
  have "\<forall>port items actions r e r'. flow_create example_flow_api port items actions r = (None, e, r') \<longrightarrow> fe_type e \<noteq> 0"
    by (auto simp: example_flow_api_def split: if_splits)
  from reset_channel_result [OF this s] show ?thesis
    using s by (auto simp: reset_channel_def flow_reset_def route_to_def make_udp_flow_def make_rx_queue_def
        example_flow_api_def Let_def)
qed

text \<open>The receive loop of a flow queue ends without receiving anything as soon as a channel is
  assigned, since the only \<open>enqueue_proxy\<close> of the program throws; until then it polls.\<close>

theorem flow_run_exclusive_never_receives:
  "flow_run_exclusive fuel polls rx_channel_enqueue_proxy running rx_burst r =
     (if \<exists>p \<in> set polls. fst p \<noteq> None \<or> \<not> snd p then Some r else None)"
proof (induction polls)
  case (Cons p polls)
  then show ?case by (cases p) (auto simp: rx_channel_enqueue_proxy_def split: option.splits)
qed simp

end
