(* ===== verification/Device_Sinks.thy ===== *)
theory Device_Sinks
  imports Device_Net Flow_Queue
begin

text \<open>
  Attaching receive channels to a device: \<open>device::attach_rx\<close>, \<open>detach_rx\<close>, \<open>join_mcast\<close> and
  \<open>leave_mcast\<close> of \<open>dpdkx/device.cpp\<close>. The table of sinks is a vector behind an atomic shared pointer
  that the receive jobs read without a lock, so vectors are objects of an explicit store, known by
  their address. A fresh address is never in use, as the shared pointers guarantee. What other
  threads do between the load and the exchange is a list of state changes, one per attempt.
\<close>

section \<open>State\<close>

type_synonym sinks_t = "(ip4_endpoint \<times> nat option) list"

record sink_dev =
  vectors :: "nat \<Rightarrow> sinks_t"
  fresh_addr :: nat
  sinks_addr :: nat
  joined_mcasts :: "u32 \<Rightarrow> u8 option"
  fqueues :: "rx_queue list"

definition sinks :: "sink_dev \<Rightarrow> sinks_t" where
  "sinks d = vectors d (sinks_addr d)"

text \<open>The table starts with one entry for no endpoint and no channel.\<close>

definition make_sinks :: "rx_queue list \<Rightarrow> sink_dev" where
  "make_sinks fqs = \<lparr>vectors = (\<lambda>_. [((0, 0), None)]), fresh_addr = 1, sinks_addr = 0,
     joined_mcasts = (\<lambda>_. None), fqueues = fqs\<rparr>"

definition find_sink :: "sinks_t \<Rightarrow> u16 \<Rightarrow> nat" where
  "find_sink vec port = length (takeWhile (\<lambda>e. snd (fst e) \<noteq> port) vec)"

section \<open>Group membership\<close>

definition join_mcast ::
  "'r net_api \<Rightarrow> dev_cfg \<Rightarrow> tx_side \<Rightarrow> u32 \<Rightarrow> sink_dev \<Rightarrow> 'r \<Rightarrow> (error_code \<times> sink_dev \<times> 'r) option" where
  "join_mcast api cfg side ip d r =
     (case joined_mcasts d ip of
        Some c \<Rightarrow> Some (Generic address_in_use, d\<lparr>joined_mcasts := (joined_mcasts d)(ip \<mapsto> c + 1)\<rparr>, r)
      | None \<Rightarrow>
          (let d = d\<lparr>joined_mcasts := (joined_mcasts d)(ip \<mapsto> 1)\<rparr>
           in map_option (\<lambda>(e, r). (e, d, r)) (mcast_group api cfg side ip change_to_exclude_mode r)))"

definition leave_mcast ::
  "'r net_api \<Rightarrow> dev_cfg \<Rightarrow> tx_side \<Rightarrow> u32 \<Rightarrow> sink_dev \<Rightarrow> 'r \<Rightarrow> (error_code \<times> sink_dev \<times> 'r) option" where
  "leave_mcast api cfg side ip d r =
     (case joined_mcasts d ip of
        None \<Rightarrow> Some (Generic bad_address, d, r)
      | Some c \<Rightarrow>
          (let d = d\<lparr>joined_mcasts := (joined_mcasts d)(ip := if c - 1 = 0 then None else Some (c - 1))\<rparr>
           in map_option (\<lambda>(e, r). (e, d, r)) (mcast_group api cfg side ip change_to_include_mode r)))"

section \<open>Attaching and detaching\<close>

datatype attach_mode = any | rss | flow

datatype outcome = Returned error_code | Threw error_code

text \<open>The \<open>return RTE_IS_IPV4_MCAST(...) ? join_mcast(...) : {}\<close> that ends every successful path.\<close>

definition attach_join ::
  "'r net_api \<Rightarrow> dev_cfg \<Rightarrow> tx_side \<Rightarrow> ip4_endpoint \<Rightarrow> sink_dev \<Rightarrow> 'r \<Rightarrow> (outcome \<times> sink_dev \<times> 'r) option" where
  "attach_join api cfg side ep d r =
     (if is_ipv4_mcast api (bswap (fst ep))
      then map_option (\<lambda>(e, d, r). (Returned e, d, r)) (join_mcast api cfg side (fst ep) d r)
      else Some (Returned No_error, d, r))"

text \<open>
  The copy-on-write loop. \<open>emplace_back(...).second\<close> is the channel pointer of the new element, so
  the test is for a null channel; \<open>std::move\<close> empties the local \<open>ch\<close>, which matters when the
  exchange fails and the loop runs again.
\<close>

fun attach_rss ::
  "(sink_dev \<Rightarrow> sink_dev) list \<Rightarrow> ip4_endpoint \<Rightarrow> nat option \<Rightarrow> sink_dev \<Rightarrow> error_code \<times> sink_dev" where
  "attach_rss [] ep ch d =
     (let vec = sinks d @ [(ep, ch)]
      in if ch = None then (Generic address_in_use, d)
         else (No_error, d\<lparr>vectors := (vectors d)(fresh_addr d := vec), sinks_addr := fresh_addr d,
                            fresh_addr := fresh_addr d + 1\<rparr>))"
| "attach_rss (other # others) ep ch d =
     (let active = sinks_addr d; vec = sinks d @ [(ep, ch)]
      in if ch = None then (Generic address_in_use, d)
         else
           (let d = other d
            in if sinks_addr d = active
               then (No_error, d\<lparr>vectors := (vectors d)(fresh_addr d := vec), sinks_addr := fresh_addr d,
                                  fresh_addr := fresh_addr d + 1\<rparr>)
               else attach_rss others ep None d))"

definition queue_with :: "(rx_queue \<Rightarrow> bool) \<Rightarrow> rx_queue list \<Rightarrow> nat option" where
  "queue_with P qs = (let i = length (takeWhile (\<lambda>q. \<not> P q) qs) in if i < length qs then Some i else None)"

definition attach_rx ::
  "'r net_api \<Rightarrow> 'r flow_api \<Rightarrow> int \<Rightarrow> dev_cfg \<Rightarrow> tx_side \<Rightarrow> (sink_dev \<Rightarrow> sink_dev) list \<Rightarrow>
     ip4_endpoint \<Rightarrow> nat option \<Rightarrow> attach_mode \<Rightarrow> sink_dev \<Rightarrow> 'r \<Rightarrow> (outcome \<times> sink_dev \<times> 'r) option" where
  "attach_rx api fapi rte_max_errno cfg side others ep ch mode d r =
     (let rss_part = (case attach_rss others ep ch d of (e, d) \<Rightarrow>
            if failed e then Some (Returned e, d, r) else attach_join api cfg side ep d r)
      in if mode = rss then rss_part
         else case queue_with (\<lambda>q. fq_ch q = ch) (fqueues d) of
           Some i \<Rightarrow>
             (case route_to fapi ep (fqueues d ! i) r of (e, q, r) \<Rightarrow>
                let d = d\<lparr>fqueues := (fqueues d)[i := q]\<rparr>
                in if failed e then Some (Returned e, d, r) else attach_join api cfg side ep d r)
         | None \<Rightarrow>
             (case queue_with (\<lambda>q. \<not> assigned q) (fqueues d) of
                Some i \<Rightarrow>
                  (case reset_channel fapi ch ep (fqueues d ! i) r of (res, q, r) \<Rightarrow>
                     let d = d\<lparr>fqueues := (fqueues d)[i := q]\<rparr>
                     in case res of
                          Inl e \<Rightarrow> Some (Threw e, d, r)
                        | Inr _ \<Rightarrow> attach_join api cfg side ep d r)
              | None \<Rightarrow>
                  if mode = flow then Some (Returned (Dpdk (no_avalible_queue rte_max_errno)), d, r)
                  else rss_part))"

text \<open>
  \<open>detach_rx\<close> erases from the vector that \<open>sinks_\<close> points to, in place, and then exchanges the
  pointer with itself.
\<close>

definition erase_sink :: "nat \<Rightarrow> nat \<Rightarrow> sink_dev \<Rightarrow> sink_dev" where
  "erase_sink addr i d =
     d\<lparr>vectors := (vectors d)(addr := take i (vectors d addr) @ drop (Suc i) (vectors d addr))\<rparr>"

fun detach_loop ::
  "(sink_dev \<Rightarrow> sink_dev) list \<Rightarrow> nat \<Rightarrow> ip4_endpoint \<Rightarrow> nat option \<Rightarrow> sink_dev \<Rightarrow> error_code option \<times> sink_dev" where
  "detach_loop others attempt ep ch d =
     (let active = sinks_addr d; i = find_sink (sinks d) (snd ep)
      in if i = length (sinks d) \<or> snd (sinks d ! i) \<noteq> ch
         then (Some (if attempt = 0 then Generic invalid_argument else No_error), d)
         else
           (let d = erase_sink active i d
            in case others of
                 [] \<Rightarrow> (None, d)
               | other # others \<Rightarrow>
                   (let d = other d
                    in if sinks_addr d = active then (None, d)
                       else detach_loop others (Suc attempt) ep ch d)))"

definition detach_rx ::
  "'r net_api \<Rightarrow> dev_cfg \<Rightarrow> tx_side \<Rightarrow> (sink_dev \<Rightarrow> sink_dev) list \<Rightarrow> ip4_endpoint \<Rightarrow> nat option \<Rightarrow>
     sink_dev \<Rightarrow> 'r \<Rightarrow> (error_code \<times> sink_dev \<times> 'r) option" where
  "detach_rx api cfg side others ep ch d r =
     (case detach_loop others 0 ep ch d of
        (Some e, d) \<Rightarrow> Some (e, d, r)
      | (None, d) \<Rightarrow>
          if is_ipv4_mcast api (bswap (fst ep)) then leave_mcast api cfg side (fst ep) d r
          else Some (No_error, d, r))"

text \<open>\<open>rx_channel.cpp\<close>: the endpoint of a socket address, \<open>None\<close> for the exception.\<close>

definition make_endpoint :: "nat \<Rightarrow> nat \<Rightarrow> u32 \<Rightarrow> u16 \<Rightarrow> ip4_endpoint option" where
  "make_endpoint af_inet sin_family s_addr sin_port =
     (if sin_family \<noteq> af_inet then None else Some (s_addr, sin_port))"

section \<open>Membership counts\<close>

text \<open>The abstract view: how many channels joined a group.\<close>

definition members :: "sink_dev \<Rightarrow> u32 \<Rightarrow> nat" where
  "members d ip = (case joined_mcasts d ip of None \<Rightarrow> 0 | Some c \<Rightarrow> unat c)"

definition counts_ok :: "sink_dev \<Rightarrow> bool" where
  "counts_ok d \<longleftrightarrow> (\<forall>ip. joined_mcasts d ip \<noteq> Some 0)"

text \<open>Joins (\<open>True\<close>) and leaves (\<open>False\<close>) in a row, and the abstract history they implement: a map of
  counts that is defined while no count passes the limit and no leave lacks its join.\<close>

fun replay :: "('g \<Rightarrow> 'd \<Rightarrow> 'd option) \<Rightarrow> ('g \<Rightarrow> 'd \<Rightarrow> 'd option) \<Rightarrow> ('g \<times> bool) list \<Rightarrow> 'd \<Rightarrow> 'd option" where
  "replay join leave [] d = Some d"
| "replay join leave ((g, up) # evs) d =
     (case (if up then join g d else leave g d) of None \<Rightarrow> None | Some d \<Rightarrow> replay join leave evs d)"

fun history :: "nat \<Rightarrow> ('g \<times> bool) list \<Rightarrow> ('g \<Rightarrow> nat) \<Rightarrow> ('g \<Rightarrow> nat) option" where
  "history limit [] c = Some c"
| "history limit ((g, up) # evs) c =
     (if up then (if c g < limit then history limit evs (c(g := c g + 1)) else None)
      else (if 0 < c g then history limit evs (c(g := c g - 1)) else None))"

locale member_counter =
  fixes join leave :: "'g \<Rightarrow> 'd \<Rightarrow> 'd option"
    and count :: "'d \<Rightarrow> 'g \<Rightarrow> nat"
    and ok :: "'d \<Rightarrow> bool"
    and limit :: nat
  assumes join_counts:
      "ok d \<Longrightarrow> count d g < limit \<Longrightarrow> join g d = Some d' \<Longrightarrow> ok d' \<and> count d' = (count d)(g := count d g + 1)"
    and leave_counts:
      "ok d \<Longrightarrow> 0 < count d g \<Longrightarrow> leave g d = Some d' \<Longrightarrow> ok d' \<and> count d' = (count d)(g := count d g - 1)"
begin

lemma replay_history:
  "ok d \<Longrightarrow> replay join leave evs d = Some d' \<Longrightarrow> history limit evs (count d) = Some c \<Longrightarrow> ok d' \<and> count d' = c"
proof (induction evs arbitrary: d)
  case (Cons ev evs)
  obtain g up where ev: "ev = (g, up)" by (cases ev)
  with Cons.prems obtain d1 where d1: "(if up then join g d else leave g d) = Some d1"
    "replay join leave evs d1 = Some d'" by (auto split: option.splits)
  have "ok d1 \<and> history limit evs (count d1) = Some c"
    using Cons.prems(1,3) ev d1(1) join_counts [of d g d1] leave_counts [of d g d1]
    by (auto split: if_splits)
  then show ?case using Cons.IH d1(2) by blast
qed simp

end

lemma join_mcast_step:
  assumes "counts_ok d" and "members d ip < 255" and "join_mcast api cfg side ip d r = Some (e, d', r')"
  shows "counts_ok d' \<and> members d' = (members d)(ip := members d ip + 1)
       \<and> (members d ip = 0 \<longrightarrow> mcast_group api cfg side ip change_to_exclude_mode r = Some (e, r'))
       \<and> (members d ip \<noteq> 0 \<longrightarrow> e = Generic address_in_use \<and> r' = r)"
proof (cases "joined_mcasts d ip")
  case None
  then have "members d ip = 0" by (simp add: members_def)
  with None assms show ?thesis
    by (auto simp: join_mcast_def counts_ok_def members_def fun_eq_iff split: if_splits)
next
  case (Some c)
  then have "unat c < 255" "c \<noteq> 0" "unat c \<noteq> 0"
    using assms(1,2) by (auto simp: members_def counts_ok_def unat_eq_0)
  then have "unat (c + 1) = unat c + 1" by (simp add: unat_word_ariths)
  moreover from this have "c + 1 \<noteq> 0" by (metis unsigned_0 add_is_0 one_neq_zero)
  ultimately show ?thesis
    using Some assms \<open>unat c \<noteq> 0\<close>
    by (auto simp: join_mcast_def counts_ok_def members_def fun_eq_iff split: if_splits)
qed

lemma leave_mcast_step:
  assumes "counts_ok d" and "0 < members d ip" and "leave_mcast api cfg side ip d r = Some (e, d', r')"
  shows "counts_ok d' \<and> members d' = (members d)(ip := members d ip - 1)
       \<and> mcast_group api cfg side ip change_to_include_mode r = Some (e, r')"
proof -
  from assms(2) obtain c where c: "joined_mcasts d ip = Some c" "0 < unat c"
    by (auto simp: members_def split: option.splits)
  then have "unat (c - 1) = unat c - 1" by (intro unat_dec) auto
  then show ?thesis
    using c assms(1,3) by (auto simp: leave_mcast_def counts_ok_def members_def fun_eq_iff unat_eq_0 split: if_splits)
qed

interpretation mcasts: member_counter
  "\<lambda>ip (d, r). map_option snd (join_mcast api cfg side ip d r)"
  "\<lambda>ip (d, r). map_option snd (leave_mcast api cfg side ip d r)"
  "\<lambda>(d, r). members d" "\<lambda>(d, r). counts_ok d" 255
  for api :: "'r net_api" and cfg side
proof (unfold_locales, goal_cases)
  case (1 x g x')
  then obtain d r e d' r' where "x = (d, r)" "x' = (d', r')" "join_mcast api cfg side g d r = Some (e, d', r')"
    by (cases x, cases x') (auto simp: map_option_case split: option.splits)
  with 1 join_mcast_step [of d g api cfg side r e d' r'] show ?case by simp
next
  case (2 x g x')
  then obtain d r e d' r' where "x = (d, r)" "x' = (d', r')" "leave_mcast api cfg side g d r = Some (e, d', r')"
    by (cases x, cases x') (auto simp: map_option_case split: option.splits)
  with 2 leave_mcast_step [of d g api cfg side r e d' r'] show ?case by simp
qed

lemma make_sinks_counts: "counts_ok (make_sinks fqs)" "members (make_sinks fqs) = (\<lambda>_. 0)"
  by (auto simp: counts_ok_def members_def make_sinks_def)

text \<open>C14: the membership table refines a map of counters: after any history of joins and leaves in
  which no group has more than 255 members at a time and every leave follows its join, the device
  knows for every group the joins minus the leaves, whatever the network did meanwhile.\<close>

theorem mcast_history:
  assumes "history 255 evs (\<lambda>_. 0) = Some c"
    and "replay (\<lambda>ip (d, r). map_option snd (join_mcast api cfg side ip d r))
           (\<lambda>ip (d, r). map_option snd (leave_mcast api cfg side ip d r)) evs (make_sinks fqs, r) = Some (d', r')"
  shows "members d' = c \<and> counts_ok d'"
  using mcasts.replay_history [OF _ assms(2)] assms(1) make_sinks_counts by auto

text \<open>A group's first member sends a join report and later members report \<open>address_in_use\<close>; but
  every leave sends a leave report, also while other members remain.\<close>

theorem leave_mcast_reports:
  assumes "counts_ok d" and "members d ip = 2" and "leave_mcast api cfg side ip d r = Some (e, d', r')"
  shows "members d' ip = 1 \<and> mcast_group api cfg side ip change_to_include_mode r = Some (e, r')"
  using leave_mcast_step [OF assms(1) _ assms(3)] assms(2) by simp

text \<open>The group 239.1.1.1, in network byte order, at the example device.\<close>

lemma example_mcast_group:
  "mcast_group example_net example_cfg example_side 0x010101ef t r =
     Some (No_error, r @ [make_igmp example_net example_cfg 0x010101ef t (example_frame (\<lambda>_. 0) 0)])"
proof -
  have "\<not> is_ipv4_mcast example_net 0x010101ef"
    "pktmbuf_alloc example_net r = (Some (example_frame (\<lambda>_. 0) 0), r)"
    by (simp_all add: example_net_def)
  then show ?thesis by (simp add: mcast_group_def example_enque)
qed

theorem mcast_history_witness:
  "\<exists>d' r'. replay (\<lambda>ip (d, r). map_option snd (join_mcast example_net example_cfg example_side ip d r))
     (\<lambda>ip (d, r). map_option snd (leave_mcast example_net example_cfg example_side ip d r))
     [(0x010101ef, True), (0x010101ef, True), (0x010101ef, False)] (make_sinks [], []) = Some (d', r')
     \<and> members d' 0x010101ef = 1"
proof -
  let ?join = "\<lambda>ip (d, r). map_option snd (join_mcast example_net example_cfg example_side ip d r)"
  let ?leave = "\<lambda>ip (d, r). map_option snd (leave_mcast example_net example_cfg example_side ip d r)"
  let ?evs = "[(0x010101ef, True), (0x010101ef, True), (0x010101ef :: u32, False)]"
  have h: "history 255 ?evs (\<lambda>_. 0) = Some ((\<lambda>_. 0)(0x010101ef := 1))"
    by (simp add: fun_eq_iff)
  obtain d' r' where "replay ?join ?leave ?evs (make_sinks [], []) = Some (d', r')"
    by (simp add: join_mcast_def leave_mcast_def make_sinks_def example_mcast_group)
  from mcast_history [OF h this] this show ?thesis by auto
qed

theorem leave_mcast_reports_witness:
  "members (fst (snd (the (leave_mcast example_net example_cfg example_side 0x010101ef
     ((make_sinks [])\<lparr>joined_mcasts := [0x010101ef \<mapsto> 2]\<rparr>) [])))) 0x010101ef = 1"
proof -
  let ?d = "(make_sinks [])\<lparr>joined_mcasts := [0x010101ef \<mapsto> 2]\<rparr>"
  have "counts_ok ?d" "members ?d 0x010101ef = 2" by (auto simp: counts_ok_def members_def)
  moreover obtain e d' r' where "leave_mcast example_net example_cfg example_side 0x010101ef ?d [] = Some (e, d', r')"
    by (simp add: leave_mcast_def example_mcast_group)
  ultimately show ?thesis
    using leave_mcast_reports [of ?d "0x010101ef" example_net example_cfg example_side "[]" e d' r'] by simp
qed

section \<open>Attaching\<close>

definition sinks_wf :: "sink_dev \<Rightarrow> bool" where
  "sinks_wf d \<longleftrightarrow> sinks_addr d < fresh_addr d"

lemma attach_rss_publish:
  assumes "attach_rss [] ep (Some c) d = (e, d')"
  shows "e = No_error" and "sinks d' = sinks d @ [(ep, Some c)]" and "fresh_addr d' = Suc (fresh_addr d)"
    and "sinks_addr d' = fresh_addr d" and "a \<noteq> fresh_addr d \<Longrightarrow> vectors d' a = vectors d a"
    and "joined_mcasts d' = joined_mcasts d"
  using assms by (auto simp: sinks_def)

text \<open>Attaching publishes a new table and leaves every table that a receive job may be reading as
  it was: the new table is the old one with the new entry at its end, at a fresh address.\<close>

theorem attach_rss_copies:
  assumes "sinks_wf d" and "attach_rss [] ep (Some c) d = (e, d')"
  shows "e = No_error \<and> sinks d' = sinks d @ [(ep, Some c)] \<and> sinks_wf d'
       \<and> (\<forall>a < fresh_addr d. vectors d' a = vectors d a)"
  using attach_rss_publish [OF assms(2)] by (auto simp: sinks_wf_def)

theorem attach_rss_copies_witness:
  "sinks (snd (attach_rss [] (7, 8) (Some 3) (make_sinks []))) = [((0, 0), None), ((7, 8), Some 3)]"
  using attach_rss_copies [of "make_sinks []" "(7, 8)" 3]
  by (cases "attach_rss [] (7, 8) (Some 3) (make_sinks [])") (simp add: sinks_wf_def sinks_def make_sinks_def)

text \<open>An attach that loses the race for the table once is not repeated: the channel pointer was
  moved away by the first attempt, so the second one finds a null channel and reports
  \<open>address_in_use\<close>; the channel is not attached.\<close>

theorem attach_rss_lost_race:
  assumes "sinks_addr (other d) \<noteq> sinks_addr d"
  shows "attach_rss (other # others) ep (Some c) d = (Generic address_in_use, other d)"
  using assms by (cases others) simp_all

theorem attach_rss_lost_race_witness:
  "attach_rss [\<lambda>d. snd (attach_rss [] (1, 2) (Some 4) d)] (7, 8) (Some 3) (make_sinks []) =
     (Generic address_in_use, snd (attach_rss [] (1, 2) (Some 4) (make_sinks [])))"
  using attach_rss_lost_race [of "\<lambda>d. snd (attach_rss [] (1, 2) (Some 4) d)" "make_sinks []" "[]" "(7, 8)" 3]
  by (simp add: make_sinks_def)

lemma find_sink_append:
  "find_sink (xs @ ys) p = (if find_sink xs p < length xs then find_sink xs p else length xs + find_sink ys p)"
proof (cases "\<exists>x \<in> set xs. snd (fst x) = p")
  case True
  then have "takeWhile (\<lambda>e. snd (fst e) \<noteq> p) (xs @ ys) = takeWhile (\<lambda>e. snd (fst e) \<noteq> p) xs"
    by (auto intro: takeWhile_append1)
  moreover have "length (takeWhile (\<lambda>e. snd (fst e) \<noteq> p) xs) < length xs"
    using True by (metis (mono_tags, lifting) length_takeWhile_le nat_less_le takeWhile_eq_all_conv takeWhile_eq_take take_all_iff order_refl)
  ultimately show ?thesis by (simp add: find_sink_def)
next
  case False
  then have "takeWhile (\<lambda>e. snd (fst e) \<noteq> p) xs = xs" by (simp add: takeWhile_eq_all_conv)
  moreover have "takeWhile (\<lambda>e. snd (fst e) \<noteq> p) (xs @ ys) = xs @ takeWhile (\<lambda>e. snd (fst e) \<noteq> p) ys"
    using False by (simp add: takeWhile_append2)
  ultimately show ?thesis by (simp add: find_sink_def del: takeWhile_eq_all_conv)
qed

text \<open>An endpoint can be attached twice without an error, contrary to the code's own
  \<open>address_in_use\<close> branch, and the second channel is unreachable: the lookup by port still finds
  the first entry.\<close>

theorem attach_rss_duplicate:
  assumes "find_sink (sinks d) (snd ep) < length (sinks d)" and "attach_rss [] ep (Some c) d = (e, d')"
  shows "e = No_error \<and> find_sink (sinks d') (snd ep) = find_sink (sinks d) (snd ep)
       \<and> find_sink (sinks d') (snd ep) \<noteq> length (sinks d') - 1"
  using assms(1) attach_rss_publish(1,2) [OF assms(2)] by (simp add: find_sink_append)

theorem attach_rss_duplicate_witness:
  "fst (attach_rss [] (7, 8) (Some 4) (snd (attach_rss [] (7, 8) (Some 3) (make_sinks [])))) = No_error"
proof -
  let ?d = "snd (attach_rss [] (7, 8) (Some 3) (make_sinks []))"
  have "find_sink (sinks ?d) 8 < length (sinks ?d)" by (simp add: find_sink_def sinks_def make_sinks_def)
  then show ?thesis
    using attach_rss_duplicate [of ?d "(7, 8)" 4] by (cases "attach_rss [] (7, 8) (Some 4) ?d") simp
qed

lemma find_sink_less: "find_sink xs p < length xs \<longleftrightarrow> p \<in> (snd \<circ> fst) ` set xs"
proof (induction xs)
  case (Cons x xs)
  then show ?case by (auto simp: find_sink_def)
qed (simp add: find_sink_def)

lemma detach_attached:
  assumes "sinks d1 = sinks d @ [(ep, Some c)]" and "snd ep \<notin> (snd \<circ> fst) ` set (sinks d)"
  obtains d2 where "detach_loop [] 0 ep (Some c) d1 = (None, d2)" "sinks d2 = sinks d" "joined_mcasts d2 = joined_mcasts d1"
    "fqueues d2 = fqueues d1"
proof -
  have "find_sink [(ep, Some c)] (snd ep) = 0" by (simp add: find_sink_def)
  then have i: "find_sink (sinks d1) (snd ep) = length (sinks d)"
    using assms find_sink_less [of "sinks d" "snd ep"] by (simp add: find_sink_append)
  let ?d2 = "erase_sink (sinks_addr d1) (length (sinks d)) d1"
  have "sinks ?d2 = take (length (sinks d)) (sinks d1) @ drop (Suc (length (sinks d))) (sinks d1)"
    by (simp add: sinks_def erase_sink_def)
  then have "sinks ?d2 = sinks d" by (simp add: assms(1))
  moreover have "detach_loop [] 0 ep (Some c) d1 = (None, ?d2)" using i assms(1) by (simp add: Let_def)
  moreover have "joined_mcasts ?d2 = joined_mcasts d1" "fqueues ?d2 = fqueues d1" by (simp_all add: erase_sink_def)
  ultimately show thesis by (intro that)
qed

lemma detach_unknown:
  assumes "snd ep \<notin> (snd \<circ> fst) ` set (sinks d)"
  shows "detach_rx api cfg side [] ep (Some c) d r = Some (Generic invalid_argument, d, r)"
  using assms find_sink_less [of "sinks d" "snd ep"] length_takeWhile_le [of "\<lambda>e. snd (fst e) \<noteq> snd ep" "sinks d"]
  by (simp add: detach_rx_def Let_def find_sink_def)

text \<open>A flow queue takes the channel: one that has it already, or one that is free.\<close>

definition takes_queue :: "attach_mode \<Rightarrow> nat \<Rightarrow> sink_dev \<Rightarrow> bool" where
  "takes_queue mode c d \<longleftrightarrow> mode \<noteq> rss \<and> (\<exists>q \<in> set (fqueues d). fq_ch q = Some c \<or> \<not> assigned q)"

lemma queue_with_None: "queue_with P qs = None \<longleftrightarrow> (\<forall>q \<in> set qs. \<not> P q)"
proof -
  have "length (takeWhile (\<lambda>q. \<not> P q) qs) < length qs \<longleftrightarrow> (\<exists>q \<in> set qs. P q)"
    by (induction qs) auto
  then show ?thesis by (auto simp: queue_with_def Let_def)
qed

lemma attach_join_frame:
  assumes "attach_join api cfg side ep d r = Some (res, d', r')"
  shows "sinks d' = sinks d" "fqueues d' = fqueues d"
  using assms by (auto simp: attach_join_def join_mcast_def sinks_def Let_def split: if_splits option.splits)

lemma attach_rx_table:
  assumes "\<not> takes_queue mode c d" and "mode \<noteq> flow"
    and "attach_rx api fapi errno cfg side [] ep (Some c) mode d r = Some (res, d1, r1)"
  obtains d0 where "attach_join api cfg side ep d0 r = Some (res, d1, r1)" "sinks d0 = sinks d @ [(ep, Some c)]"
    "joined_mcasts d0 = joined_mcasts d" "fqueues d0 = fqueues d"
proof -
  obtain d0 where d0: "attach_rss [] ep (Some c) d = (No_error, d0)" by (simp add: Let_def)
  have "mode = rss \<or> queue_with (\<lambda>q. fq_ch q = Some c) (fqueues d) = None \<and> queue_with (\<lambda>q. \<not> assigned q) (fqueues d) = None"
    using assms(1) by (auto simp: takes_queue_def queue_with_None)
  then have "attach_join api cfg side ep d0 r = Some (res, d1, r1)"
    using assms(2,3) d0 by (cases "mode = rss") (simp_all add: attach_rx_def Let_def del: attach_rss.simps)
  moreover have "sinks d0 = sinks d @ [(ep, Some c)]" "joined_mcasts d0 = joined_mcasts d" "fqueues d0 = fqueues d"
    using d0 by (auto simp: sinks_def Let_def)
  ultimately show thesis by (rule that)
qed

lemma attach_rx_flow:
  assumes "takes_queue mode c d \<or> mode = flow"
    and "attach_rx api fapi errno cfg side [] ep (Some c) mode d r = Some (res, d1, r1)"
  shows "sinks d1 = sinks d"
proof -
  have upd: "sinks (d\<lparr>fqueues := qs\<rparr>) = sinks d" for qs by (simp add: sinks_def)
  show ?thesis
  proof (cases "queue_with (\<lambda>q. fq_ch q = Some c) (fqueues d)")
    case None
    then have "queue_with (\<lambda>q. \<not> assigned q) (fqueues d) \<noteq> None \<or> mode = flow" and "mode \<noteq> rss"
      using assms(1) by (auto simp: takes_queue_def queue_with_None)
    then show ?thesis
      using None assms(2) upd by (auto simp: attach_rx_def Let_def simp del: attach_rss.simps dest!: attach_join_frame(1)
          split: option.splits prod.splits sum.splits if_splits)
  next
    case (Some i)
    moreover have "mode \<noteq> rss" using assms(1) by (auto simp: takes_queue_def)
    ultimately show ?thesis
      using assms(2) upd by (auto simp: attach_rx_def Let_def simp del: attach_rss.simps dest!: attach_join_frame(1)
          split: option.splits prod.splits if_splits)
  qed
qed

text \<open>Joining and leaving a group again, with room in its counter.\<close>

lemma join_leave:
  assumes "counts_ok d" and "members d ip < 255" and "join_mcast api cfg side ip d r = Some (e, d1, r1)"
    and "joined_mcasts d2 = joined_mcasts d1" and "leave_mcast api cfg side ip d2 r2 = Some (e', d3, r3)"
  shows "joined_mcasts d3 = joined_mcasts d" and "sinks d3 = sinks d2" and "fqueues d3 = fqueues d2"
proof -
  show "joined_mcasts d3 = joined_mcasts d"
  proof (cases "joined_mcasts d ip")
    case None
    with assms(3-5) show ?thesis by (auto simp: join_mcast_def leave_mcast_def Let_def split: option.splits)
  next
    case (Some c)
    then have "c \<noteq> 0" using assms(1) by (auto simp: counts_ok_def)
    with Some assms(3-5) show ?thesis
      by (auto simp: join_mcast_def leave_mcast_def Let_def fun_upd_idem split: option.splits)
  qed
  show "sinks d3 = sinks d2" "fqueues d3 = fqueues d2"
    using assms(5) by (auto simp: leave_mcast_def sinks_def Let_def split: option.splits)
qed

text \<open>C37: detaching undoes attaching where the table of the device is used: a channel that \<open>attach_rx\<close> returns for, and that no
  flow queue took, is the last entry of the table, \<open>detach_rx\<close> finds it by a port no other entry has and
  removes it, and table, flow queues and group counters are as before; for a unicast address neither reports an
  error. A channel that a flow queue took is not in the table, and \<open>detach_rx\<close> returns \<open>invalid_argument\<close> for it. No other
  thread changes the table in between.\<close>

theorem attach_detach:
  assumes "snd ep \<notin> (snd \<circ> fst) ` set (sinks d)" and "counts_ok d" and "members d (fst ep) < 255"
    and "attach_rx api fapi errno cfg side [] ep (Some c) mode d r = Some (Returned e, d1, r1)"
    and "detach_rx api cfg side [] ep (Some c) d1 r2 = Some (e2, d2, r3)"
  shows "(\<not> takes_queue mode c d \<and> mode \<noteq> flow \<longrightarrow> sinks d1 = sinks d @ [(ep, Some c)]
        \<and> sinks d2 = sinks d \<and> joined_mcasts d2 = joined_mcasts d \<and> fqueues d2 = fqueues d
        \<and> (\<not> is_ipv4_mcast api (bswap (fst ep)) \<longrightarrow> e = No_error \<and> e2 = No_error))
   \<and> (takes_queue mode c d \<or> mode = flow \<longrightarrow> sinks d1 = sinks d \<and> e2 = Generic invalid_argument \<and> d2 = d1)"
proof (cases "takes_queue mode c d \<or> mode = flow")
  case True
  then have "sinks d1 = sinks d" using assms(4) by (rule attach_rx_flow)
  with True assms(1,5) show ?thesis by (auto simp: detach_unknown)
next
  case False
  obtain d0 where j: "attach_join api cfg side ep d0 r = Some (Returned e, d1, r1)" and d0: "sinks d0 = sinks d @ [(ep, Some c)]"
    "joined_mcasts d0 = joined_mcasts d" "fqueues d0 = fqueues d"
    using attach_rx_table [of mode c d, OF _ _ assms(4)] False by blast
  note fr = attach_join_frame [OF j]
  then have d1: "sinks d1 = sinks d @ [(ep, Some c)]" using d0 by simp
  obtain d' where d': "detach_loop [] 0 ep (Some c) d1 = (None, d')" "sinks d' = sinks d" "joined_mcasts d' = joined_mcasts d1"
    "fqueues d' = fqueues d1"
    using detach_attached [OF d1 assms(1)] by blast
  have "sinks d2 = sinks d \<and> joined_mcasts d2 = joined_mcasts d \<and> fqueues d2 = fqueues d
      \<and> (\<not> is_ipv4_mcast api (bswap (fst ep)) \<longrightarrow> e = No_error \<and> e2 = No_error)"
  proof (cases "is_ipv4_mcast api (bswap (fst ep))")
    case True
    then have jm: "join_mcast api cfg side (fst ep) d0 r = Some (e, d1, r1)" and lv: "leave_mcast api cfg side (fst ep) d' r2 = Some (e2, d2, r3)"
      using j assms(5) d'(1) by (auto simp: attach_join_def detach_rx_def simp del: detach_loop.simps)
    have c: "counts_ok d0" "members d0 (fst ep) < 255" using assms(2,3) d0(2) by (simp_all add: counts_ok_def members_def)
    from True join_leave [OF c jm d'(3) lv] d'(2,4) d0(2,3) fr(2) show ?thesis by simp
  next
    case False
    have "e = No_error" using j False by (simp add: attach_join_def)
    moreover have "joined_mcasts d1 = joined_mcasts d0" using j False by (simp add: attach_join_def)
    moreover have "e2 = No_error" "d2 = d'"
      using assms(5) False by (simp_all only: detach_rx_def d'(1) prod.case option.case if_False option.inject prod.inject)
    ultimately show ?thesis using d'(2-4) d0(2,3) fr(2) by simp
  qed
  with False d1 show ?thesis by simp
qed

lemma example_attached:
  "detach_loop [] 0 (7, 8) (Some 3) (snd (attach_rss [] (7, 8) (Some 3) (make_sinks []))) =
     (None, erase_sink 1 1 (snd (attach_rss [] (7, 8) (Some 3) (make_sinks []))))"
  by (simp add: make_sinks_def sinks_def find_sink_def Let_def)

text \<open>Detaching changes the published table in place: afterwards the same table object, which the
  receive jobs may be indexing, is one entry shorter.\<close>

theorem detach_in_place:
  assumes "detach_loop [] 0 ep ch d = (None, d')"
  shows "sinks_addr d' = sinks_addr d \<and> length (vectors d' (sinks_addr d)) = length (vectors d (sinks_addr d)) - 1
       \<and> 0 < length (vectors d (sinks_addr d))"
proof -
  have "find_sink (sinks d) (snd ep) \<le> length (sinks d)"
    by (simp add: find_sink_def length_takeWhile_le)
  then show ?thesis
    using assms by (auto simp: Let_def erase_sink_def sinks_def split: if_splits)
qed

theorem detach_in_place_witness:
  "length (vectors (snd (detach_loop [] 0 (7, 8) (Some 3) (snd (attach_rss [] (7, 8) (Some 3) (make_sinks []))))) 1) = 1"
proof -
  let ?d = "snd (attach_rss [] (7, 8) (Some 3) (make_sinks []))"
  obtain r d' where "detach_loop [] 0 (7, 8) (Some 3) ?d = (r, d')" by (cases "detach_loop [] 0 (7, 8) (Some 3) ?d")
  moreover from this have "r = None" using example_attached by simp
  ultimately show ?thesis
    using detach_in_place [of "(7, 8)" "Some 3" ?d d'] by (simp add: sinks_def make_sinks_def)
qed

text \<open>Attaching a second channel to a multicast group reports \<open>address_in_use\<close> although the channel
  was attached: the code of \<open>join_mcast\<close> for a group that is joined already becomes the result.\<close>

theorem attach_second_member:
  assumes "is_ipv4_mcast api (bswap (fst ep))" and "joined_mcasts d (fst ep) = Some k"
  shows "\<exists>d'. attach_rx api fapi errno cfg side [] ep (Some c) rss d r = Some (Returned (Generic address_in_use), d', r)
       \<and> sinks d' = sinks d @ [(ep, Some c)]"
  using assms by (simp add: attach_rx_def attach_join_def join_mcast_def sinks_def Let_def)

definition no_flows :: "'r flow_api" where
  "no_flows = \<lparr>flow_create = (\<lambda>_ _ _ r. (None, \<lparr>fe_type = 1, fe_message = None\<rparr>, r)),
     flow_destroy = (\<lambda>_ _ r. (0, \<lparr>fe_type = 0, fe_message = None\<rparr>, r))\<rparr>"

theorem attach_detach_witness:
  "\<exists>d1 d2. attach_rx example_net no_flows 1000 example_cfg example_side [] (7, 8) (Some 3) any (make_sinks []) [] = Some (Returned No_error, d1, [])
     \<and> detach_rx example_net example_cfg example_side [] (7, 8) (Some 3) d1 [] = Some (No_error, d2, [])
     \<and> sinks d1 = [((0, 0), None), ((7, 8), Some 3)] \<and> sinks d2 = [((0, 0), None)]"
proof -
  have u: "\<not> is_ipv4_mcast example_net (bswap (fst (7 :: u32, 8 :: u16)))" by (simp add: example_net_def word_eval)
  let ?d1 = "snd (attach_rss [] (7, 8) (Some 3) (make_sinks []))" let ?d2 = "erase_sink 1 1 ?d1"
  have a: "attach_rx example_net no_flows 1000 example_cfg example_side [] (7, 8) (Some 3) any (make_sinks []) [] = Some (Returned No_error, ?d1, [])"
    using u by (simp add: attach_rx_def attach_join_def make_sinks_def queue_with_def Let_def)
  have b: "detach_rx example_net example_cfg example_side [] (7, 8) (Some 3) ?d1 [] = Some (No_error, ?d2, [])"
    using u example_attached by (simp add: detach_rx_def)
  have h: "snd (7 :: u32, 8 :: u16) \<notin> (snd \<circ> fst) ` set (sinks (make_sinks []))" "counts_ok (make_sinks [])"
    "members (make_sinks []) (fst (7 :: u32, 8 :: u16)) < 255" "\<not> takes_queue any 3 (make_sinks [])" "sinks (make_sinks []) = [((0, 0), None)]"
    by (simp_all add: sinks_def make_sinks_def counts_ok_def members_def takes_queue_def)
  from attach_detach [OF h(1-3) a b] h(4,5) a b show ?thesis by auto
qed

theorem attach_second_member_witness:
  "\<exists>d'. attach_rx example_net no_flows 1000 example_cfg example_side [] (0x010101ef, 8) (Some 3) rss
     ((make_sinks [])\<lparr>joined_mcasts := [0x010101ef \<mapsto> 1]\<rparr>) [] = Some (Returned (Generic address_in_use), d', [])"
proof -
  have "is_ipv4_mcast example_net (bswap 0x010101ef)" by (simp add: example_net_def word_eval)
  then show ?thesis
    using attach_second_member [of example_net "(0x010101ef, 8)" "(make_sinks [])\<lparr>joined_mcasts := [0x010101ef \<mapsto> 1]\<rparr>" 1
        no_flows 1000 example_cfg example_side 3 "[]"] by auto
qed

end
