(* ===== verification/Device_Attach.thy ===== *)
theory Device_Attach
  imports Device_Sinks
begin

text \<open>
  Threads that attach channels at the same time with \<open>attach_mode::rss\<close>: \<open>device::attach_rx\<close> (\<open>dpdkx/device.cpp\<close>) split at
  its atomic operations, \<open>load\<close> and \<open>compare_exchange_strong\<close> (\<open>dpdkx/detail/atomic_shared_ptr.hpp\<close>) in the loop and
  \<open>join_mcast\<close> behind it, which changes its table under a lock, as an inductive relation that interleaves any number of threads.
  The pointer a thread has loaded keeps its table alive, so that a new table never has the same address. At the end,
  \<open>make_rx_channel\<close> of \<open>dpdkx/rx_channel.hpp\<close>.
\<close>

section \<open>Atomic operations\<close>

definition atomic_load :: "sink_dev \<Rightarrow> nat" where
  "atomic_load d = sinks_addr d"

definition atomic_store :: "sinks_t \<Rightarrow> sink_dev \<Rightarrow> sink_dev" where
  "atomic_store vec d =
     d\<lparr>vectors := (vectors d)(fresh_addr d := vec), sinks_addr := fresh_addr d, fresh_addr := fresh_addr d + 1\<rparr>"

definition compare_exchange_strong :: "nat \<Rightarrow> sinks_t \<Rightarrow> sink_dev \<Rightarrow> bool \<times> sink_dev" where
  "compare_exchange_strong expected desired d =
     (if sinks_addr d = expected then (True, atomic_store desired d) else (False, d))"

section \<open>One thread\<close>

text \<open>Where a thread is: before the load with its local \<open>ep\<close> and \<open>ch\<close>, before the exchange with its copy of the
  table, behind the loop with the group to join, or back from \<open>attach_rx\<close> with its result.\<close>

datatype attacher =
    Start ip4_endpoint "nat option"
  | Loaded nat sinks_t ip4_endpoint
  | Joining ip4_endpoint
  | Finished outcome

text \<open>From the load to the exchange. The channel is moved into the copy.\<close>

definition attach_load :: "ip4_endpoint \<Rightarrow> nat option \<Rightarrow> sink_dev \<Rightarrow> attacher" where
  "attach_load ep ch d =
     (let active = atomic_load d; vec = vectors d active @ [(ep, ch)]
      in if ch = None then Finished (Returned (Generic address_in_use)) else Loaded active vec ep)"

definition attach_exchange :: "nat \<Rightarrow> sinks_t \<Rightarrow> ip4_endpoint \<Rightarrow> sink_dev \<Rightarrow> attacher \<times> sink_dev" where
  "attach_exchange active vec ep d =
     (case compare_exchange_strong active vec d of
        (True, d) \<Rightarrow> (Joining ep, d)
      | (False, d) \<Rightarrow> (Start ep None, d))"

text \<open>\<open>attach_rx\<close> as one piece, with what others do before each exchange, runs these steps in turn; the last one is
  \<open>attach_join\<close>.\<close>

lemma attach_rss_steps:
  "attach_rss (other # others) ep ch d =
     (case attach_load ep ch d of
        Finished (Returned e) \<Rightarrow> (e, d)
      | Loaded active vec ep \<Rightarrow>
          (case attach_exchange active vec ep (other d) of
             (Joining ep, d) \<Rightarrow> (No_error, d)
           | (Start ep ch, d) \<Rightarrow> attach_rss others ep ch d))"
  "attach_rss [] ep ch d =
     (case attach_load ep ch d of
        Finished (Returned e) \<Rightarrow> (e, d)
      | Loaded active vec ep \<Rightarrow> (case attach_exchange active vec ep d of (Joining ep, d) \<Rightarrow> (No_error, d)))"
  by (simp_all add: attach_load_def attach_exchange_def compare_exchange_strong_def atomic_load_def atomic_store_def
      sinks_def Let_def)

lemma attach_rx_steps:
  "attach_rx api fapi errno cfg side [] ep ch rss d r =
     (case attach_load ep ch d of
        Finished res \<Rightarrow> Some (res, d, r)
      | Loaded active vec ep \<Rightarrow>
          (case attach_exchange active vec ep d of (Joining ep, d) \<Rightarrow> attach_join api cfg side ep d r))"
  by (simp add: attach_rx_def attach_load_def attach_exchange_def compare_exchange_strong_def atomic_load_def
      atomic_store_def sinks_def Let_def)

section \<open>Many threads\<close>

text \<open>\<open>at_log\<close> lists the threads whose exchange succeeded, in this order; the program has no such variable.\<close>

record 'r attach_state =
  at_dev :: sink_dev
  at_pc :: "nat \<Rightarrow> attacher"
  at_log :: "nat list"
  at_env :: 'r

definition attach_init :: "(nat \<Rightarrow> ip4_endpoint) \<Rightarrow> (nat \<Rightarrow> nat) \<Rightarrow> sink_dev \<Rightarrow> 'r \<Rightarrow> 'r attach_state" where
  "attach_init ep ch d r = \<lparr>at_dev = d, at_pc = (\<lambda>i. Start (ep i) (Some (ch i))), at_log = [], at_env = r\<rparr>"

definition thread_load :: "nat \<Rightarrow> ip4_endpoint \<Rightarrow> nat option \<Rightarrow> 'r attach_state \<Rightarrow> 'r attach_state" where
  "thread_load i ep ch s = s\<lparr>at_pc := (at_pc s)(i := attach_load ep ch (at_dev s))\<rparr>"

definition thread_exchange :: "nat \<Rightarrow> nat \<Rightarrow> sinks_t \<Rightarrow> ip4_endpoint \<Rightarrow> 'r attach_state \<Rightarrow> 'r attach_state" where
  "thread_exchange i active vec ep s =
     (case attach_exchange active vec ep (at_dev s) of (pc, d) \<Rightarrow>
        s\<lparr>at_dev := d, at_pc := (at_pc s)(i := pc), at_log := at_log s @ (if pc = Joining ep then [i] else [])\<rparr>)"

definition thread_join ::
  "'r net_api \<Rightarrow> dev_cfg \<Rightarrow> tx_side \<Rightarrow> nat \<Rightarrow> ip4_endpoint \<Rightarrow> 'r attach_state \<Rightarrow> 'r attach_state option" where
  "thread_join api cfg side i ep s =
     map_option (\<lambda>(res, d, r). s\<lparr>at_dev := d, at_pc := (at_pc s)(i := Finished res), at_env := r\<rparr>)
       (attach_join api cfg side ep (at_dev s) (at_env s))"

text \<open>A step of thread \<open>i\<close>, and the runs with the threads that took their steps.\<close>

inductive attach_step ::
  "'r net_api \<Rightarrow> dev_cfg \<Rightarrow> tx_side \<Rightarrow> nat \<Rightarrow> nat \<Rightarrow> 'r attach_state \<Rightarrow> 'r attach_state \<Rightarrow> bool"
  for api cfg side n where
  load: "i < n \<Longrightarrow> at_pc s i = Start ep ch \<Longrightarrow> attach_step api cfg side n i s (thread_load i ep ch s)"
| exchange: "i < n \<Longrightarrow> at_pc s i = Loaded active vec ep \<Longrightarrow> attach_step api cfg side n i s (thread_exchange i active vec ep s)"
| join: "i < n \<Longrightarrow> at_pc s i = Joining ep \<Longrightarrow> thread_join api cfg side i ep s = Some s' \<Longrightarrow> attach_step api cfg side n i s s'"

inductive attach_run ::
  "'r net_api \<Rightarrow> dev_cfg \<Rightarrow> tx_side \<Rightarrow> nat \<Rightarrow> 'r attach_state \<Rightarrow> nat list \<Rightarrow> 'r attach_state \<Rightarrow> bool"
  for api cfg side n s0 where
  none: "attach_run api cfg side n s0 [] s0"
| step: "attach_run api cfg side n s0 sched s \<Longrightarrow> attach_step api cfg side n i s s' \<Longrightarrow> attach_run api cfg side n s0 (sched @ [i]) s'"

inductive_cases attach_stepE: "attach_step api cfg side n i s s'"

section \<open>What is kept\<close>

text \<open>What a thread returns behind its exchange: nothing is to be joined for a unicast address, and \<open>join_mcast\<close> was called in some
  state for a multicast address.\<close>

definition joined :: "'r net_api \<Rightarrow> dev_cfg \<Rightarrow> tx_side \<Rightarrow> ip4_endpoint \<Rightarrow> outcome \<Rightarrow> bool" where
  "joined api cfg side ep res \<longleftrightarrow>
     (if is_ipv4_mcast api (bswap (fst ep))
      then (\<exists>e d r d' r'. join_mcast api cfg side (fst ep) d r = Some (e, d', r') \<and> res = Returned e)
      else res = Returned No_error)"

text \<open>Thread \<open>i\<close> agrees with the table: it left the loop behind a successful exchange exactly when it is in the log, it can
  have lost only when another one won, its copy is the table it loaded with its entry behind it, and
  its result is that of joining the group.\<close>

definition thread_ok ::
  "'r net_api \<Rightarrow> dev_cfg \<Rightarrow> tx_side \<Rightarrow> (nat \<Rightarrow> ip4_endpoint) \<Rightarrow> (nat \<Rightarrow> nat) \<Rightarrow> sink_dev \<Rightarrow> 'r attach_state \<Rightarrow> nat \<Rightarrow> bool" where
  "thread_ok api cfg side ep ch d0 s i \<longleftrightarrow>
     (case at_pc s i of
        Start e c \<Rightarrow> e = ep i \<and> i \<notin> set (at_log s) \<and> (c = Some (ch i) \<or> c = None \<and> at_log s \<noteq> [])
      | Loaded a vec e \<Rightarrow> e = ep i \<and> i \<notin> set (at_log s) \<and> a < fresh_addr (at_dev s)
          \<and> vec = vectors (at_dev s) a @ [(ep i, Some (ch i))] \<and> (at_log s = [] \<longrightarrow> a = sinks_addr d0)
      | Joining e \<Rightarrow> e = ep i \<and> i \<in> set (at_log s)
      | Finished res \<Rightarrow>
          i \<in> set (at_log s) \<and> joined api cfg side (ep i) res
          \<or> res = Returned (Generic address_in_use) \<and> i \<notin> set (at_log s) \<and> at_log s \<noteq> [])"

definition attach_inv ::
  "'r net_api \<Rightarrow> dev_cfg \<Rightarrow> tx_side \<Rightarrow> nat \<Rightarrow> (nat \<Rightarrow> ip4_endpoint) \<Rightarrow> (nat \<Rightarrow> nat) \<Rightarrow> sink_dev \<Rightarrow> 'r attach_state \<Rightarrow> bool" where
  "attach_inv api cfg side n ep ch d0 s \<longleftrightarrow>
     distinct (at_log s) \<and> set (at_log s) \<subseteq> {..<n}
   \<and> sinks (at_dev s) = sinks d0 @ map (\<lambda>i. (ep i, Some (ch i))) (at_log s)
   \<and> sinks_addr (at_dev s) < fresh_addr (at_dev s) \<and> fresh_addr d0 \<le> fresh_addr (at_dev s)
   \<and> (at_log s = [] \<longrightarrow> sinks_addr (at_dev s) = sinks_addr d0)
   \<and> (\<forall>a < fresh_addr d0. vectors (at_dev s) a = vectors d0 a)
   \<and> (\<forall>i < n. thread_ok api cfg side ep ch d0 s i)"

lemma attach_inv_init: "sinks_wf d \<Longrightarrow> attach_inv api cfg side n ep ch d (attach_init ep ch d r)"
  by (simp add: attach_inv_def attach_init_def thread_ok_def sinks_wf_def)

text \<open>A thread that leaves the table as it is disturbs no other.\<close>

lemma thread_ok_other:
  assumes "thread_ok api cfg side ep ch d0 s j" and "at_pc s' j = at_pc s j" and "at_log s' = at_log s"
    and "vectors (at_dev s') = vectors (at_dev s)" and "fresh_addr (at_dev s') = fresh_addr (at_dev s)"
  shows "thread_ok api cfg side ep ch d0 s' j"
  using assms by (simp add: thread_ok_def split: attacher.splits)

lemma thread_load_inv:
  assumes "attach_inv api cfg side n ep ch d0 s" and "i < n" and "at_pc s i = Start e c"
  shows "attach_inv api cfg side n ep ch d0 (thread_load i e c s)"
proof -
  have "thread_ok api cfg side ep ch d0 (thread_load i e c s) j" if "j < n" for j
  proof (cases "j = i")
    case True
    have "thread_ok api cfg side ep ch d0 s i" using assms(1,2) by (simp add: attach_inv_def)
    then show ?thesis
      using assms(1,3) True
      by (auto simp: thread_ok_def thread_load_def attach_load_def atomic_load_def attach_inv_def Let_def)
  next
    case False
    have "thread_ok api cfg side ep ch d0 s j" using assms(1) that by (simp add: attach_inv_def)
    then show ?thesis using False by (rule_tac thread_ok_other) (simp_all add: thread_load_def)
  qed
  then show ?thesis using assms(1) by (simp add: attach_inv_def thread_load_def)
qed

lemma atomic_store_table:
  "sinks (atomic_store vec d) = vec" "a < fresh_addr d \<Longrightarrow> vectors (atomic_store vec d) a = vectors d a"
  "fresh_addr (atomic_store vec d) = Suc (fresh_addr d)" "sinks_addr (atomic_store vec d) = fresh_addr d"
  by (simp_all add: atomic_store_def sinks_def)

lemma thread_exchange_inv:
  assumes "attach_inv api cfg side n ep ch d0 s" and "i < n" and "at_pc s i = Loaded a vec e"
  shows "attach_inv api cfg side n ep ch d0 (thread_exchange i a vec e s)"
proof -
  have i: "e = ep i" "i \<notin> set (at_log s)" "a < fresh_addr (at_dev s)" "vec = vectors (at_dev s) a @ [(ep i, Some (ch i))]"
    "at_log s = [] \<Longrightarrow> a = sinks_addr d0"
    using assms by (auto simp: attach_inv_def thread_ok_def)
  have others: "thread_ok api cfg side ep ch d0 s j" if "j < n" for j using assms(1) that by (simp add: attach_inv_def)
  show ?thesis
  proof (cases "sinks_addr (at_dev s) = a")
    case True
    let ?s = "s\<lparr>at_dev := atomic_store vec (at_dev s), at_pc := (at_pc s)(i := Joining e), at_log := at_log s @ [i]\<rparr>"
    have s: "thread_exchange i a vec e s = ?s"
      using True by (simp add: thread_exchange_def attach_exchange_def compare_exchange_strong_def)
    have "thread_ok api cfg side ep ch d0 ?s j" if "j < n" for j
    proof (cases "j = i")
      case False
      with others [OF that] show ?thesis
        by (auto simp: thread_ok_def atomic_store_table split: attacher.splits)
    qed (simp add: thread_ok_def i(1))
    moreover have "vec = sinks (at_dev s) @ [(ep i, Some (ch i))]" using True i(4) by (simp add: sinks_def)
    ultimately show ?thesis
      unfolding s using assms(1,2) i(2) by (auto simp: attach_inv_def atomic_store_table)
  next
    case False
    let ?s = "s\<lparr>at_pc := (at_pc s)(i := Start e None)\<rparr>"
    have s: "thread_exchange i a vec e s = ?s"
      using False by (simp add: thread_exchange_def attach_exchange_def compare_exchange_strong_def)
    have "at_log s \<noteq> []" using False i(5) assms(1) by (auto simp: attach_inv_def)
    then have "thread_ok api cfg side ep ch d0 ?s j" if "j < n" for j
      using others [OF that] i(1,2) by (cases "j = i") (simp_all add: thread_ok_def split: attacher.splits)
    then show ?thesis unfolding s using assms(1) by (simp add: attach_inv_def)
  qed
qed

lemma attach_join_keeps:
  assumes "attach_join api cfg side ep d r = Some (res, d', r')"
  shows "vectors d' = vectors d" "sinks_addr d' = sinks_addr d" "fresh_addr d' = fresh_addr d" "fqueues d' = fqueues d"
    and "joined api cfg side ep res"
proof -
  show "vectors d' = vectors d" "sinks_addr d' = sinks_addr d" "fresh_addr d' = fresh_addr d" "fqueues d' = fqueues d"
    using assms by (auto simp: attach_join_def join_mcast_def Let_def split: if_splits option.splits)
  show "joined api cfg side ep res"
    using assms unfolding attach_join_def joined_def by (fastforce split: if_splits)
qed

lemma thread_join_inv:
  assumes "attach_inv api cfg side n ep ch d0 s" and "i < n" and "at_pc s i = Joining e" and "thread_join api cfg side i e s = Some s'"
  shows "attach_inv api cfg side n ep ch d0 s'"
proof -
  obtain res d r where j: "attach_join api cfg side e (at_dev s) (at_env s) = Some (res, d, r)"
    and s': "s' = s\<lparr>at_dev := d, at_pc := (at_pc s)(i := Finished res), at_env := r\<rparr>"
    using assms(4) by (auto simp: thread_join_def)
  note k = attach_join_keeps [OF j]
  have "e = ep i" "i \<in> set (at_log s)" using assms(1-3) by (auto simp: attach_inv_def thread_ok_def)
  then have me: "thread_ok api cfg side ep ch d0 s' i" using k(5) by (simp add: thread_ok_def s')
  have "thread_ok api cfg side ep ch d0 s' j" if "j < n" for j
  proof (cases "j = i")
    case False
    have "thread_ok api cfg side ep ch d0 s j" using assms(1) that by (simp add: attach_inv_def)
    then show ?thesis using False k by (rule_tac thread_ok_other) (simp_all add: s')
  qed (simp add: me)
  moreover have "sinks d = sinks (at_dev s)" by (simp add: sinks_def k)
  ultimately show ?thesis using assms(1) k by (simp add: attach_inv_def s')
qed

lemma attach_step_inv:
  "attach_step api cfg side n i s s' \<Longrightarrow> attach_inv api cfg side n ep ch d0 s \<Longrightarrow> attach_inv api cfg side n ep ch d0 s'"
  by (erule attach_stepE) (simp_all add: thread_load_inv thread_exchange_inv thread_join_inv)

lemma attach_run_inv:
  "attach_run api cfg side n s0 sched s \<Longrightarrow> attach_inv api cfg side n ep ch d0 s0 \<Longrightarrow> attach_inv api cfg side n ep ch d0 s"
  by (induction rule: attach_run.induct) (simp_all add: attach_step_inv)

section \<open>Every schedule ends\<close>

primrec steps_left :: "attacher \<Rightarrow> nat" where
  "steps_left (Start ep ch) = (if ch = None then 1 else 3)"
| "steps_left (Loaded a vec ep) = 2"
| "steps_left (Joining ep) = 1"
| "steps_left (Finished e) = 0"

lemma attach_step_left:
  assumes "attach_step api cfg side n i s s'"
  shows "steps_left (at_pc s' i) < steps_left (at_pc s i)" and "j \<noteq> i \<Longrightarrow> at_pc s' j = at_pc s j"
  using assms
  by (auto elim!: attach_stepE simp: thread_load_def attach_load_def thread_exchange_def attach_exchange_def
      compare_exchange_strong_def thread_join_def Let_def)

lemma attach_run_bounded:
  "attach_run api cfg side n s0 sched s \<Longrightarrow> count_list sched i + steps_left (at_pc s i) \<le> steps_left (at_pc s0 i)"
proof (induction rule: attach_run.induct)
  case (step sched s j s')
  then show ?case using attach_step_left [OF step.hyps(2)] by (cases "i = j") (auto simp: add.commute)
qed simp

lemma attach_join_total: "svc_tx_n side \<noteq> 0 \<Longrightarrow> attach_join api cfg side ep d r \<noteq> None"
  by (auto simp: attach_join_def join_mcast_def mcast_group_def service_enque_def service_tx_def Let_def
      split: option.splits prod.splits)

lemma attach_progress:
  assumes "\<nexists>j s'. attach_step api cfg side n j s s'" and "i < n" and "svc_tx_n side \<noteq> 0"
  shows "\<exists>e. at_pc s i = Finished e"
proof (cases "at_pc s i")
  case (Joining ep)
  obtain s' where "thread_join api cfg side i ep s = Some s'"
    using attach_join_total [OF assms(3)] by (fastforce simp: thread_join_def)
  with Joining assms(1,2) show ?thesis by (meson attach_step.join)
qed (use assms(1,2) in \<open>meson attach_step.load attach_step.exchange\<close>)+

section \<open>Properties\<close>


text \<open>Two threads load the table before either exchanges it: the first one wins and the second one gives up.\<close>

abbreviation "race_init \<equiv> attach_init (\<lambda>i. if i = 0 then (7, 8) else (5, 6)) (\<lambda>i. i) (make_sinks []) []"

abbreviation "race_step \<equiv> attach_step example_net example_cfg example_side 2"

definition race_joining :: "rte_mbuf list attach_state" where
  "race_joining = thread_load 1 (5, 6) None (thread_exchange 1 0 [((0, 0), None), ((5, 6), Some 1)] (5, 6)
     (thread_exchange 0 0 [((0, 0), None), ((7, 8), Some 0)] (7, 8)
       (thread_load 1 (5, 6) (Some 1) (thread_load 0 (7, 8) (Some 0) race_init))))"

definition example_race :: "rte_mbuf list attach_state" where
  "example_race = race_joining\<lparr>at_pc := (at_pc race_joining)(0 := Finished (Returned No_error))\<rparr>"

lemmas example_race_steps = thread_load_def thread_exchange_def attach_load_def attach_exchange_def
  compare_exchange_strong_def atomic_load_def atomic_store_def attach_init_def make_sinks_def

lemma race_unicast: "\<not> is_ipv4_mcast example_net (bswap (7 :: u32))" "\<not> is_ipv4_mcast example_net (bswap (5 :: u32))"
  by (simp_all add: example_net_def word_eval)

lemma example_race_reached:
  "attach_run example_net example_cfg example_side 2 race_init [0, 1, 0, 1, 1, 0] example_race"
proof -
  let ?s1 = "thread_load 0 (7, 8) (Some 0) race_init" let ?s2 = "thread_load 1 (5, 6) (Some 1) ?s1"
  let ?s3 = "thread_exchange 0 0 [((0, 0), None), ((7, 8), Some 0)] (7, 8) ?s2"
  let ?s4 = "thread_exchange 1 0 [((0, 0), None), ((5, 6), Some 1)] (5, 6) ?s3"
  note load = attach_step.load [where n = 2] and exch = attach_step.exchange [where n = 2]
  note run = attach_run.step [of example_net example_cfg example_side 2 race_init]
  have a1: "race_step 0 race_init ?s1" by (rule load) (simp_all add: example_race_steps)
  have a2: "race_step 1 ?s1 ?s2" by (rule load) (simp_all add: example_race_steps)
  have a3: "race_step 0 ?s2 ?s3" by (rule exch) (simp_all add: example_race_steps Let_def)
  have a4: "race_step 1 ?s3 ?s4" by (rule exch) (simp_all add: example_race_steps Let_def)
  have a5: "race_step 1 ?s4 race_joining"
    unfolding race_joining_def by (rule load) (simp_all add: example_race_steps Let_def)
  have a6: "race_step 0 race_joining example_race"
  proof (rule attach_step.join)
    show "at_pc race_joining 0 = Joining (7, 8)" by (simp add: race_joining_def example_race_steps Let_def)
    show "thread_join example_net example_cfg example_side 0 (7, 8) race_joining = Some example_race"
      by (simp add: thread_join_def attach_join_def race_unicast example_race_def)
  qed simp
  from run [OF run [OF run [OF run [OF run [OF run [OF attach_run.none a1] a2] a3] a4] a5] a6] show ?thesis by simp
qed


section \<open>Making a channel\<close>

text \<open>\<open>make_rx_channel\<close>: \<open>ch\<close> is the channel that \<open>std::make_shared\<close> returns, \<open>Inl\<close> the exception, also one that
  leaves \<open>attach_rx\<close>.\<close>

definition make_rx_channel ::
  "'r net_api \<Rightarrow> 'r flow_api \<Rightarrow> int \<Rightarrow> dev_cfg \<Rightarrow> tx_side \<Rightarrow> nat \<Rightarrow> (sink_dev \<Rightarrow> sink_dev) list \<Rightarrow>
     nat \<Rightarrow> u32 \<Rightarrow> u16 \<Rightarrow> nat \<Rightarrow> sink_dev \<Rightarrow> 'r \<Rightarrow> ((error_code + nat) \<times> sink_dev \<times> 'r) option" where
  "make_rx_channel api fapi rte_max_errno cfg side af_inet others sin_family s_addr sin_port ch d r =
     (case make_endpoint af_inet sin_family s_addr sin_port of
        None \<Rightarrow> Some (Inl (Generic address_family_not_supported), d, r)
      | Some ep \<Rightarrow>
          map_option
            (\<lambda>(res, d, r). (case res of Threw e \<Rightarrow> Inl e | Returned e \<Rightarrow> if failed e then Inl e else Inr ch, d, r))
            (attach_rx api fapi rte_max_errno cfg side others ep (Some ch) any d r))"

text \<open>On a device without flow queues a channel that was made is in the table. A failure to join its multicast group,
  also because another channel is a member already, throws, and the channel stays in the table although the
  caller never gets it and cannot detach it.\<close>

theorem make_rx_channel_table:
  assumes "fqueues d = []" and "make_rx_channel api fapi errno cfg side af [] af addr port ch d r = Some (res, d', r')"
  shows "sinks d' = sinks d @ [((addr, port), Some ch)]
     \<and> (\<not> is_ipv4_mcast api (bswap addr) \<longrightarrow> res = Inr ch)
     \<and> (is_ipv4_mcast api (bswap addr) \<and> joined_mcasts d addr \<noteq> None \<longrightarrow> res = Inl (Generic address_in_use))"
proof -
  obtain d1 where d1: "attach_rss [] (addr, port) (Some ch) d = (No_error, d1)"
    "sinks d1 = sinks d @ [((addr, port), Some ch)]" "joined_mcasts d1 = joined_mcasts d"
    using attach_rss_publish [of "(addr, port)" ch d] by (metis surj_pair)
  have sinks: "sinks (d1\<lparr>joined_mcasts := m\<rparr>) = sinks d1" for m by (simp add: sinks_def)
  have "queue_with P [] = None" for P by (simp add: queue_with_def)
  then obtain out where out: "attach_join api cfg side (addr, port) d1 r = Some (out, d', r')"
    "res = (case out of Threw e \<Rightarrow> Inl e | Returned e \<Rightarrow> if failed e then Inl e else Inr ch)"
    using assms d1(1) by (auto simp: make_rx_channel_def make_endpoint_def attach_rx_def Let_def simp del: attach_rss.simps)
  then show ?thesis
    using d1(2,3) sinks by (auto simp: attach_join_def join_mcast_def Let_def split: if_splits option.splits)
qed

end
