(* ===== verification/Device_Rx.thy ===== *)
theory Device_Rx
  imports Device_Sinks Jobs
begin

text \<open>
  The receive job \<open>device::rx_job\<close> of \<open>dpdkx/device.{hpp,cpp}\<close>: one burst is received, UDP packets
  are sorted into runs for the channels attached to their destination port, broken packets are
  freed, and everything else is moved behind the burst in the same array and passed to
  \<open>process_rx_packets\<close>. The array is modelled with its indices; \<open>None\<close> stands for an access outside
  an array or table, for a division by zero in a called operation, or for a VLAN loop that the
  fuel does not cover. \<open>log\<close> records what became of the buffers.
\<close>

section \<open>State\<close>

record rx_job =
  rj_queue :: nat
  rj_last :: nat
  rj_checkpoint :: u16
  rj_reload_checkpoint :: u16
  rj_burst :: nat
  rj_sinks :: nat

text \<open>\<open>Delivered ch bs recycle freed\<close>: the run \<open>bs\<close> was enqueued to \<open>ch\<close>, which asked for the first
  \<open>recycle\<close> buffers to be recycled, and \<open>freed\<close> tells whether the job did so.\<close>

datatype rx_event =
    Delivered nat "rte_mbuf list" nat bool
  | Dropped rte_mbuf
  | Posted rte_mbuf

record 'r rx_api =
  eth_rx_burst :: "nat \<Rightarrow> nat \<Rightarrow> 'r \<Rightarrow> rte_mbuf list \<times> 'r"
  enqueue :: "nat \<Rightarrow> nat \<Rightarrow> rte_mbuf list \<Rightarrow> 'r \<Rightarrow> nat \<times> 'r"
  pktmbuf_free_bulk :: "rte_mbuf list \<Rightarrow> 'r \<Rightarrow> 'r"

definition make_rx_job :: "nat \<Rightarrow> nat \<Rightarrow> u16 \<Rightarrow> sink_dev \<Rightarrow> rx_job" where
  "make_rx_job queue_id burts_size reload_hint d =
     \<lparr>rj_queue = queue_id, rj_last = 0, rj_checkpoint = 1001, rj_reload_checkpoint = reload_hint,
      rj_burst = min burts_size (2 * max_pkt_burst), rj_sinks = sinks_addr d\<rparr>"

section \<open>Finding the channel\<close>

text \<open>The \<open>while\<close> loop ends after one turn when no other thread replaces the table meanwhile.\<close>

definition try_reload_sinks :: "sink_dev \<Rightarrow> rx_job \<Rightarrow> bool \<times> rx_job" where
  "try_reload_sinks d job =
     (if rj_reload_checkpoint job \<le> rj_checkpoint job
      then (rj_sinks job \<noteq> sinks_addr d, job\<lparr>rj_sinks := sinks_addr d, rj_checkpoint := 0\<rparr>)
      else (False, job))"

definition find_rx_channel :: "sink_dev \<Rightarrow> u16 \<Rightarrow> rx_job \<Rightarrow> (nat option \<times> rx_job) option" where
  "find_rx_channel d port job =
     (let vec = vectors d (rj_sinks job)
      in if length vec \<le> rj_last job then None
         else
           (let (search, job) =
                  (if snd (fst (vec ! rj_last job)) \<noteq> port then (True, job)
                   else if snd (vec ! rj_last job) = None then try_reload_sinks d job
                   else (False, job));
                vec = vectors d (rj_sinks job);
                i = find_sink vec port;
                job = (if search then job\<lparr>rj_last := if i = length vec then 0 else i\<rparr> else job)
            in if length vec \<le> rj_last job then None else Some (snd (vec ! rj_last job), job)))"

section \<open>Sorting a burst\<close>

record 'r scan =
  sc_arr :: "rte_mbuf list"
  sc_ready :: nat
  sc_channel :: "nat option"
  sc_post :: nat
  sc_log :: "rx_event list"
  sc_job :: rx_job
  sc_env :: 'r

text \<open>The \<open>ready\<close> buffers in front of index \<open>i\<close>.\<close>

definition run_of :: "'r scan \<Rightarrow> nat \<Rightarrow> rte_mbuf list" where
  "run_of s i = take (sc_ready s) (drop (i - sc_ready s) (sc_arr s))"

text \<open>Lines 135-138: the run goes to its channel, and what it returns is recycled.\<close>

definition flush_recycle :: "'r rx_api \<Rightarrow> nat \<Rightarrow> 'r scan \<Rightarrow> 'r scan" where
  "flush_recycle api i s =
     (case sc_channel s of
        Some ch \<Rightarrow>
          if sc_ready s \<noteq> 0 then
            (let run = run_of s i; (recycle, r) = enqueue api ch (rj_queue (sc_job s)) run (sc_env s);
                 r = (if recycle \<noteq> 0 then pktmbuf_free_bulk api (take recycle run) r else r)
             in s\<lparr>sc_log := sc_log s @ [Delivered ch run recycle True], sc_env := r\<rparr>)
          else s
      | None \<Rightarrow> s)"

text \<open>Lines 151-155 and 157-158: the number of buffers to recycle is ignored.\<close>

definition flush_ignore :: "'r rx_api \<Rightarrow> nat \<Rightarrow> 'r scan \<Rightarrow> 'r scan" where
  "flush_ignore api i s =
     (case sc_channel s of
        Some ch \<Rightarrow>
          if sc_ready s \<noteq> 0 then
            (let run = run_of s i; (recycle, r) = enqueue api ch (rj_queue (sc_job s)) run (sc_env s)
             in s\<lparr>sc_log := sc_log s @ [Delivered ch run recycle False], sc_env := r,
                  sc_channel := None, sc_ready := 0\<rparr>)
          else s
      | None \<Rightarrow> s)"

definition udp_at :: "rte_mbuf \<Rightarrow> nat" where
  "udp_at b = unat (l2_len b) + ipv4_hdr_len (mem b) (unat (l2_len b))"

definition is_udp :: "rte_mbuf \<Rightarrow> bool" where
  "is_udp b \<longleftrightarrow> mem b (unat (l2_len b) + 9) = IPPROTO_UDP"

definition broken_udp :: "rte_mbuf \<Rightarrow> bool" where
  "broken_udp b \<longleftrightarrow> unat (data_len b) < udp_at b + 8
     \<or> unat (data_len b) < udp_at b + unat (bswap (ldw (mem b) (udp_at b + 4) :: u16))"

definition udp_dst_port :: "rte_mbuf \<Rightarrow> u16" where
  "udp_dst_port b = ldw (mem b) (udp_at b + 2)"

definition drop_packet :: "'r rx_api \<Rightarrow> nat \<Rightarrow> rte_mbuf \<Rightarrow> 'r scan \<Rightarrow> 'r scan" where
  "drop_packet api i b s =
     flush_ignore api i (s\<lparr>sc_log := sc_log s @ [Dropped b], sc_env := pktmbuf_free_bulk api [b] (sc_env s)\<rparr>)"

definition post_packet :: "'r rx_api \<Rightarrow> nat \<Rightarrow> rte_mbuf \<Rightarrow> 'r scan \<Rightarrow> 'r scan option" where
  "post_packet api i b s =
     (if length (sc_arr s) \<le> sc_post s then None
      else Some (flush_ignore api i (s\<lparr>sc_arr := (sc_arr s)[sc_post s := b], sc_post := sc_post s + 1,
                                        sc_log := sc_log s @ [Posted b]\<rparr>)))"

text \<open>A UDP packet for channel \<open>ch\<close>: it extends the run, after a run for another channel was flushed.\<close>

definition deliver_packet :: "'r rx_api \<Rightarrow> nat \<Rightarrow> rte_mbuf \<Rightarrow> nat \<Rightarrow> 'r scan \<Rightarrow> 'r scan" where
  "deliver_packet api i b ch s =
     (let b = b\<lparr>l3_len := of_nat (ipv4_hdr_len (mem b) (unat (l2_len b))), l4_len := 8\<rparr>;
          s = s\<lparr>sc_arr := (sc_arr s)[i := b]\<rparr>;
          s = (if sc_channel s \<noteq> Some ch
               then (flush_recycle api i s)\<lparr>sc_channel := Some ch, sc_ready := 0\<rparr> else s)
      in s\<lparr>sc_ready := sc_ready s + 1\<rparr>)"

definition scan_packet :: "'r rx_api \<Rightarrow> sink_dev \<Rightarrow> nat \<Rightarrow> 'r scan \<Rightarrow> 'r scan option" where
  "scan_packet api d i s =
     (let b = sc_arr s ! i
      in if eth_proto b = 0 then Some (drop_packet api i b s)
         else if eth_proto b = bswap RTE_ETHER_TYPE_IPV4 \<and> is_udp b then
           (if broken_udp b then Some (drop_packet api i b s)
            else case find_rx_channel d (udp_dst_port b) (sc_job s) of
              None \<Rightarrow> None
            | Some (Some ch, job) \<Rightarrow> Some (deliver_packet api i b ch (s\<lparr>sc_job := job\<rparr>))
            | Some (None, job) \<Rightarrow> post_packet api i b (s\<lparr>sc_job := job\<rparr>))
         else post_packet api i b s)"

fun scan_burst :: "'r rx_api \<Rightarrow> sink_dev \<Rightarrow> nat \<Rightarrow> nat \<Rightarrow> 'r scan \<Rightarrow> 'r scan option" where
  "scan_burst api d i 0 s = Some (flush_ignore api i s)"
| "scan_burst api d i (Suc k) s =
     (case scan_packet api d i s of None \<Rightarrow> None | Some s \<Rightarrow> scan_burst api d (Suc i) k s)"

section \<open>The job\<close>

fun update_all :: "nat \<Rightarrow> rte_mbuf list \<Rightarrow> rte_mbuf list option" where
  "update_all fuel [] = Some []"
| "update_all fuel (b # bs) =
     (case update_l2size fuel b of
        None \<Rightarrow> None
      | Some (proto, b) \<Rightarrow> map_option (Cons b) (update_all fuel bs))"

record 'r rx_state =
  rs_job :: rx_job
  rs_arp :: arp_table
  rs_env :: 'r

text \<open>\<open>junk\<close> is what the array of \<open>2 * max_pkt_burst\<close> pointers holds behind the burst.\<close>

definition rx_job_process ::
  "'r net_api \<Rightarrow> 'r rx_api \<Rightarrow> dev_cfg \<Rightarrow> tx_side \<Rightarrow> sink_dev \<Rightarrow> nat \<Rightarrow> rte_mbuf list \<Rightarrow> 'r rx_state \<Rightarrow>
     (job_state \<times> rx_event list \<times> 'r rx_state) option" where
  "rx_job_process napi api cfg side d fuel junk s =
     (let job = snd (try_reload_sinks d (rs_job s));
          (bs, r) = eth_rx_burst api (rj_queue job) (rj_burst job) (rs_env s);
          n = length bs
      in if n = 0 then
           Some (Idling, [], s\<lparr>rs_job := job\<lparr>rj_checkpoint := rj_checkpoint job + of_nat (2 * rj_burst job) + 1\<rparr>, rs_env := r\<rparr>)
         else case update_all fuel bs of
           None \<Rightarrow> None
         | Some bs \<Rightarrow>
             (case scan_burst api d 0 n \<lparr>sc_arr = bs @ drop n junk, sc_ready = 0, sc_channel = None,
                     sc_post = n, sc_log = [], sc_job = job, sc_env = r\<rparr> of
                None \<Rightarrow> None
              | Some sc \<Rightarrow>
                  (let post = take (sc_post sc - n) (drop n (sc_arr sc)); job = sc_job sc
                   in if post = [] then
                        Some (Idling, sc_log sc, s\<lparr>rs_job := job\<lparr>rj_checkpoint := rj_checkpoint job + 1\<rparr>, rs_env := sc_env sc\<rparr>)
                      else case process_rx_packets napi cfg side (rj_queue job) post (rs_arp s) (sc_env sc) of
                        None \<Rightarrow> None
                      | Some (kept, arp4, r) \<Rightarrow>
                          (let r = (if kept \<noteq> [] then pktmbuf_free_bulk api kept r else r);
                               more = (if n = length post \<and> length post \<noteq> rj_burst job then of_nat (2 * rj_burst job) else 0)
                           in Some (Idling, sc_log sc,
                                s\<lparr>rs_job := job\<lparr>rj_checkpoint := rj_checkpoint job + more + 1\<rparr>, rs_arp := arp4, rs_env := r\<rparr>)))))"

section \<open>The lookup\<close>

text \<open>The table in use is one the device published, its first entry has no channel, and the index of
  the last hit is inside it.\<close>

definition job_wf :: "sink_dev \<Rightarrow> rx_job \<Rightarrow> bool" where
  "job_wf d job \<longleftrightarrow> rj_last job < length (vectors d (rj_sinks job))
     \<and> length (vectors d (rj_sinks job)) \<le> length (sinks d)
     \<and> snd (hd (vectors d (rj_sinks job))) = None \<and> snd (hd (sinks d)) = None"

lemma find_sink_le: "find_sink vec p \<le> length vec"
  by (simp add: find_sink_def length_takeWhile_le)

lemma find_sink_nth: "find_sink vec p < length vec \<Longrightarrow> snd (fst (vec ! find_sink vec p)) = p"
  unfolding find_sink_def using nth_length_takeWhile by fastforce

lemma try_reload_wf: "job_wf d job \<Longrightarrow> job_wf d (snd (try_reload_sinks d job))"
  by (auto simp: job_wf_def try_reload_sinks_def sinks_def)

lemma job_wf_nonempty: "job_wf d job \<Longrightarrow> vectors d (rj_sinks job) \<noteq> []"
  by (auto simp: job_wf_def)

lemma find_rx_channel_cases:
  assumes "job_wf d job"
  obtains job' where "find_rx_channel d port job = Some (snd (vectors d (rj_sinks job') ! rj_last job'), job')"
    "job_wf d job'"
    "snd (fst (vectors d (rj_sinks job') ! rj_last job')) = port \<or> rj_last job' = 0"
    "snd (fst (vectors d (rj_sinks job') ! rj_last job')) = port \<or> port \<notin> (snd \<circ> fst) ` set (vectors d (rj_sinks job'))"
proof -
  let ?vec = "vectors d (rj_sinks job)"
  obtain search job1 where s1: "(search, job1) =
      (if snd (fst (?vec ! rj_last job)) \<noteq> port then (True, job)
       else if snd (?vec ! rj_last job) = None then try_reload_sinks d job else (False, job))"
    by (metis surj_pair)
  then have wf1: "job_wf d job1"
    using assms try_reload_wf [OF assms] by (auto split: if_splits) (metis snd_conv)
  let ?vec1 = "vectors d (rj_sinks job1)"
  define job' where "job' = (if search then job1\<lparr>rj_last := if find_sink ?vec1 port = length ?vec1 then 0
      else find_sink ?vec1 port\<rparr> else job1)"
  have sinks': "rj_sinks job' = rj_sinks job1" by (simp add: job'_def)
  have wf': "job_wf d job'"
    using wf1 job_wf_nonempty [OF wf1] find_sink_le [of ?vec1 port] by (auto simp: job'_def job_wf_def)
  have "\<not> length ?vec \<le> rj_last job" and in_range: "\<not> length ?vec1 \<le> rj_last job'"
    using assms wf' sinks' by (simp_all add: job_wf_def)
  then have "find_rx_channel d port job =
      (if length ?vec1 \<le> rj_last job' then None else Some (snd (?vec1 ! rj_last job'), job'))"
    unfolding find_rx_channel_def Let_def s1 [symmetric] job'_def by simp
  with in_range have eq: "find_rx_channel d port job = Some (snd (?vec1 ! rj_last job'), job')" by simp
  have "snd (fst (?vec1 ! rj_last job')) = port \<or> rj_last job' = 0 \<and> port \<notin> (snd \<circ> fst) ` set ?vec1"
  proof (cases search)
    case True
    then show ?thesis
      using find_sink_nth [of ?vec1 port] find_sink_less [of ?vec1 port] find_sink_le [of ?vec1 port]
      by (auto simp: job'_def)
  next
    case False
    then have "job1 = job \<or> job1 = snd (try_reload_sinks d job)" and "snd (fst (?vec ! rj_last job)) = port"
      and "rj_sinks job1 = rj_sinks job" and "rj_last job1 = rj_last job"
      using s1 by (auto simp: try_reload_sinks_def split: if_splits)
    then show ?thesis using False by (simp add: job'_def)
  qed
  with that [OF _ wf'] eq show ?thesis by (auto simp: sinks')
qed

lemma find_rx_channel_correct_lemma:
  assumes "job_wf d job"
  shows "\<exists>ch job'. find_rx_channel d port job = Some (ch, job') \<and> job_wf d job'
       \<and> (\<forall>c. ch = Some c \<longrightarrow> (\<exists>ip. ((ip, port), Some c) \<in> set (vectors d (rj_sinks job'))))
       \<and> (ch = None \<longrightarrow> port \<notin> (snd \<circ> fst) ` set (vectors d (rj_sinks job'))
            \<or> (\<exists>ip. ((ip, port), None) \<in> set (vectors d (rj_sinks job'))))"
proof -
  obtain job' where j: "find_rx_channel d port job = Some (snd (vectors d (rj_sinks job') ! rj_last job'), job')"
    "job_wf d job'" "snd (fst (vectors d (rj_sinks job') ! rj_last job')) = port \<or> rj_last job' = 0"
    "snd (fst (vectors d (rj_sinks job') ! rj_last job')) = port \<or> port \<notin> (snd \<circ> fst) ` set (vectors d (rj_sinks job'))"
    by (rule find_rx_channel_cases [OF assms])
  let ?vec = "vectors d (rj_sinks job')"
  obtain ip p ch where e: "?vec ! rj_last job' = ((ip, p), ch)" by (metis surj_pair)
  have mem: "((ip, p), ch) \<in> set ?vec"
    using j(2) e by (metis job_wf_def nth_mem)
  have "ch = None" if "p \<noteq> port"
    using that j(2,3) e job_wf_nonempty [OF j(2)] by (auto simp: job_wf_def hd_conv_nth)
  then show ?thesis using j e mem by (cases "p = port") auto
qed

text \<open>The channel lookup is right: for a well-formed job it never leaves the table, it returns the
  channel of an entry for the packet's destination port, and no channel only when the port has no
  entry or an entry without a channel.\<close>

theorem find_rx_channel_correct:
  assumes "job_wf d job"
  shows "\<exists>ch job'. find_rx_channel d port job = Some (ch, job') \<and> job_wf d job'
       \<and> (\<forall>c. ch = Some c \<longrightarrow> (\<exists>ip. ((ip, port), Some c) \<in> set (vectors d (rj_sinks job'))))
       \<and> (ch = None \<longrightarrow> port \<notin> (snd \<circ> fst) ` set (vectors d (rj_sinks job'))
            \<or> (\<exists>ip. ((ip, port), None) \<in> set (vectors d (rj_sinks job'))))"
  by (rule find_rx_channel_correct_lemma [OF assms])

text \<open>A table with a channel for port 8, and a job that reads it.\<close>

definition example_table :: sink_dev where
  "example_table = snd (attach_rss [] (7, 8) (Some 3) (make_sinks []))"

lemma example_job_wf: "job_wf example_table (make_rx_job 0 32 1001 example_table)"
  by (simp add: job_wf_def make_rx_job_def example_table_def sinks_def make_sinks_def)

theorem find_rx_channel_correct_witness:
  "find_rx_channel example_table 8 (make_rx_job 0 32 1001 example_table) \<noteq> None"
  using find_rx_channel_correct [OF example_job_wf, of 8] by auto

section \<open>Accounting for buffers\<close>

fun event_ids :: "rx_event \<Rightarrow> nat list" where
  "event_ids (Delivered ch bs recycle freed) = map buf_id bs"
| "event_ids (Dropped b) = [buf_id b]"
| "event_ids (Posted b) = [buf_id b]"

fun event_posted :: "rx_event \<Rightarrow> rte_mbuf list" where
  "event_posted (Posted b) = [b]"
| "event_posted _ = []"

definition log_ids :: "rx_event list \<Rightarrow> nat list" where
  "log_ids log = concat (map event_ids log)"

definition log_posted :: "rx_event list \<Rightarrow> rte_mbuf list" where
  "log_posted log = concat (map event_posted log)"

lemma log_simps [simp]:
  "log_ids [] = []" "log_ids (log @ [e]) = log_ids log @ event_ids e"
  "log_posted [] = []" "log_posted (log @ [e]) = log_posted log @ event_posted e"
  by (simp_all add: log_ids_def log_posted_def)

text \<open>The loop invariant at index \<open>i\<close>, after the buffers in \<open>M\<close> were looked at.\<close>

definition scan_ok :: "nat \<Rightarrow> nat list \<Rightarrow> nat \<Rightarrow> nat multiset \<Rightarrow> 'r scan \<Rightarrow> bool" where
  "scan_ok n ids i M s \<longleftrightarrow>
     i \<le> n \<and> n \<le> sc_post s \<and> sc_post s \<le> length (sc_arr s) \<and> sc_ready s \<le> i
     \<and> (sc_channel s = None \<longrightarrow> sc_ready s = 0)
     \<and> map buf_id (take n (sc_arr s)) = ids
     \<and> take (sc_post s - n) (drop n (sc_arr s)) = log_posted (sc_log s)
     \<and> mset (log_ids (sc_log s)) + mset (map buf_id (run_of s i)) = M"

lemma flush_ignore_ok:
  assumes "scan_ok n ids i M s"
  shows "scan_ok n ids i M (flush_ignore api i s)" and "sc_ready (flush_ignore api i s) = 0"
    and "sc_post (flush_ignore api i s) = sc_post s" and "sc_job (flush_ignore api i s) = sc_job s"
    and "sc_arr (flush_ignore api i s) = sc_arr s"
  using assms by (auto simp: scan_ok_def flush_ignore_def run_of_def Let_def split: option.splits prod.splits)

lemma flush_recycle_ok:
  assumes "scan_ok n ids i M s"
  shows "scan_ok n ids i M ((flush_recycle api i s)\<lparr>sc_channel := Some ch, sc_ready := 0\<rparr>)"
    and "sc_post (flush_recycle api i s) = sc_post s" and "sc_job (flush_recycle api i s) = sc_job s"
    and "sc_arr (flush_recycle api i s) = sc_arr s"
  using assms by (auto simp: scan_ok_def flush_recycle_def run_of_def Let_def split: option.splits prod.splits)

lemma scan_ok_idle:
  assumes "scan_ok n ids i M s" and "sc_ready s = 0" and "i < n"
  shows "scan_ok n ids (Suc i) M s"
  using assms by (simp add: scan_ok_def run_of_def)

lemma run_of_update: "i \<le> j \<Longrightarrow> sc_ready s \<le> i \<Longrightarrow> run_of (s\<lparr>sc_arr := (sc_arr s)[j := b]\<rparr>) i = run_of s i"
  by (simp add: run_of_def take_drop)

lemma drop_packet_ok:
  assumes "scan_ok n ids i M s" and "i < n"
  shows "scan_ok n ids (Suc i) (add_mset (buf_id b) M) (drop_packet api i b s)"
    and "sc_post (drop_packet api i b s) = sc_post s" and "sc_job (drop_packet api i b s) = sc_job s"
    and "sc_arr (drop_packet api i b s) = sc_arr s"
proof -
  let ?s = "s\<lparr>sc_log := sc_log s @ [Dropped b], sc_env := pktmbuf_free_bulk api [b] (sc_env s)\<rparr>"
  have ok: "scan_ok n ids i (add_mset (buf_id b) M) ?s"
    using assms(1) by (auto simp: scan_ok_def run_of_def)
  from flush_ignore_ok [OF this, of api] assms(2)
  show "scan_ok n ids (Suc i) (add_mset (buf_id b) M) (drop_packet api i b s)"
    and "sc_post (drop_packet api i b s) = sc_post s" and "sc_job (drop_packet api i b s) = sc_job s"
    and "sc_arr (drop_packet api i b s) = sc_arr s"
    by (simp_all add: drop_packet_def scan_ok_idle)
qed

lemma post_packet_ok:
  assumes "scan_ok n ids i M s" and "i < n" and "post_packet api i b s = Some s'"
  shows "scan_ok n ids (Suc i) (add_mset (buf_id b) M) s'" and "sc_post s' = Suc (sc_post s)"
    and "sc_job s' = sc_job s" and "length (sc_arr s') = length (sc_arr s)"
proof -
  let ?s = "s\<lparr>sc_arr := (sc_arr s)[sc_post s := b], sc_post := sc_post s + 1, sc_log := sc_log s @ [Posted b]\<rparr>"
  have post: "sc_post s < length (sc_arr s)" and s': "s' = flush_ignore api i ?s"
    using assms(3) by (auto simp: post_packet_def split: if_splits)
  have "take (Suc (sc_post s - n)) (drop n ((sc_arr s)[sc_post s := b])) = log_posted (sc_log s) @ [b]"
    using assms(1) post take_Suc_update [of "sc_post s - n" "drop n (sc_arr s)" b]
    by (simp add: scan_ok_def drop_update_swap diff_less_mono)
  moreover have "run_of ?s i = run_of s i"
    using assms(1) run_of_update [of i "sc_post s" s b] by (simp add: scan_ok_def run_of_def)
  ultimately have "scan_ok n ids i (add_mset (buf_id b) M) ?s"
    using assms(1) post by (auto simp: scan_ok_def Suc_diff_le)
  from flush_ignore_ok [OF this, of api] assms(2)
  show "scan_ok n ids (Suc i) (add_mset (buf_id b) M) s'" "sc_post s' = Suc (sc_post s)"
    "sc_job s' = sc_job s" "length (sc_arr s') = length (sc_arr s)"
    by (simp_all add: s' scan_ok_idle)
qed

lemma deliver_packet_ok:
  assumes "scan_ok n ids i M s" and "i < n" and "b = sc_arr s ! i"
  shows "scan_ok n ids (Suc i) (add_mset (buf_id b) M) (deliver_packet api i b ch s)"
    and "sc_post (deliver_packet api i b ch s) = sc_post s"
    and "sc_job (deliver_packet api i b ch s) = sc_job s"
    and "length (sc_arr (deliver_packet api i b ch s)) = length (sc_arr s)"
proof -
  define b' where "b' = b\<lparr>l3_len := of_nat (ipv4_hdr_len (mem b) (unat (l2_len b))), l4_len := 8\<rparr>"
  let ?s = "s\<lparr>sc_arr := (sc_arr s)[i := b']\<rparr>"
  have len: "i < length (sc_arr s)" using assms(1,2) by (simp add: scan_ok_def)
  have id: "buf_id b' = buf_id b" by (simp add: b'_def)
  have ids: "map buf_id (take n ((sc_arr s)[i := b'])) = map buf_id (take n (sc_arr s))"
    using assms(2,3) len id by (simp add: take_update_swap map_update list_update_same_conv)
  have "run_of ?s i = run_of s i"
    using assms(1) run_of_update [of i i s b'] by (simp add: scan_ok_def)
  then have ok: "scan_ok n ids i M ?s"
    using assms(1,2) ids by (simp add: scan_ok_def)
  define s1 where "s1 = (if sc_channel ?s \<noteq> Some ch
      then (flush_recycle api i ?s)\<lparr>sc_channel := Some ch, sc_ready := 0\<rparr> else ?s)"
  have s1: "scan_ok n ids i M s1" "sc_post s1 = sc_post s" "sc_job s1 = sc_job s" "sc_arr s1 = (sc_arr s)[i := b']"
    "sc_channel s1 = Some ch"
    using ok flush_recycle_ok [OF ok, where api = api] by (auto simp: s1_def)
  have eq: "deliver_packet api i b ch s = s1\<lparr>sc_ready := sc_ready s1 + 1\<rparr>"
    by (simp add: deliver_packet_def Let_def b'_def s1_def)
  have "run_of (s1\<lparr>sc_ready := sc_ready s1 + 1\<rparr>) (Suc i) = run_of s1 i @ [b']"
  proof -
    have "sc_ready s1 \<le> i" using s1(1) by (simp add: scan_ok_def)
    then have "take (Suc (sc_ready s1)) (drop (i - sc_ready s1) (sc_arr s1)) =
        take (sc_ready s1) (drop (i - sc_ready s1) (sc_arr s1)) @ [sc_arr s1 ! i]"
      using len s1(4) by (subst take_Suc_conv_app_nth) simp_all
    then show ?thesis using s1(4) len by (simp add: run_of_def)
  qed
  then show "scan_ok n ids (Suc i) (add_mset (buf_id b) M) (deliver_packet api i b ch s)"
    using s1 assms(2) id by (auto simp: eq scan_ok_def)
  show "sc_post (deliver_packet api i b ch s) = sc_post s" "sc_job (deliver_packet api i b ch s) = sc_job s"
    "length (sc_arr (deliver_packet api i b ch s)) = length (sc_arr s)"
    using s1 by (simp_all add: eq)
qed

lemma scan_ok_job: "scan_ok n ids i M (s\<lparr>sc_job := job\<rparr>) \<longleftrightarrow> scan_ok n ids i M s"
  by (simp add: scan_ok_def run_of_def)

lemma scan_packet_cases:
  assumes "scan_packet api d i s = Some s'"
  obtains (dropped) "s' = drop_packet api i (sc_arr s ! i) s"
    | (found) job ch where "find_rx_channel d (udp_dst_port (sc_arr s ! i)) (sc_job s) = Some (Some ch, job)"
        "s' = deliver_packet api i (sc_arr s ! i) ch (s\<lparr>sc_job := job\<rparr>)"
    | (unknown) job where "find_rx_channel d (udp_dst_port (sc_arr s ! i)) (sc_job s) = Some (None, job)"
        "post_packet api i (sc_arr s ! i) (s\<lparr>sc_job := job\<rparr>) = Some s'"
    | (other) "post_packet api i (sc_arr s ! i) s = Some s'"
proof -
  let ?b = "sc_arr s ! i"
  let ?udp = "eth_proto ?b = bswap RTE_ETHER_TYPE_IPV4 \<and> is_udp ?b"
  consider "eth_proto ?b = 0 \<or> ?udp \<and> broken_udp ?b" | "eth_proto ?b \<noteq> 0" "?udp" "\<not> broken_udp ?b"
    | "eth_proto ?b \<noteq> 0" "\<not> ?udp" by blast
  then show thesis
  proof cases
    case 1
    with assms show thesis by (intro dropped) (simp add: scan_packet_def Let_def split: if_splits)
  next
    case 2
    obtain ch job where f: "find_rx_channel d (udp_dst_port ?b) (sc_job s) = Some (ch, job)"
      using assms 2 by (cases "find_rx_channel d (udp_dst_port ?b) (sc_job s)") (auto simp: scan_packet_def Let_def)
    with assms 2 found unknown show thesis by (cases ch) (simp_all add: scan_packet_def Let_def)
  next
    case 3
    then have "scan_packet api d i s = post_packet api i ?b s" by (simp only: scan_packet_def Let_def if_False)
    with assms other show thesis by simp
  qed
qed

text \<open>One packet: it is accounted for, the array keeps its size, at most one entry is added behind
  the burst, and the job stays well-formed.\<close>

lemma scan_packet_ok:
  assumes "scan_ok n ids i M s" and "i < n" and "scan_packet api d i s = Some s'"
  shows "scan_ok n ids (Suc i) (add_mset (ids ! i) M) s' \<and> sc_post s' \<le> Suc (sc_post s)
       \<and> length (sc_arr s') = length (sc_arr s) \<and> (job_wf d (sc_job s) \<longrightarrow> job_wf d (sc_job s'))"
proof -
  have b: "ids ! i = buf_id (sc_arr s ! i)" using assms(1,2) by (auto simp: scan_ok_def)
  have wf: "job_wf d job" if "find_rx_channel d p (sc_job s) = Some (ch, job)" "job_wf d (sc_job s)" for p ch job
    using find_rx_channel_correct_lemma [OF that(2), of p] that(1) by auto
  have ok: "scan_ok n ids i M (s\<lparr>sc_job := job\<rparr>)" for job
    using assms(1) by (simp add: scan_ok_job)
  from assms(3) show ?thesis
  proof (cases rule: scan_packet_cases)
    case dropped
    then show ?thesis using drop_packet_ok [OF assms(1,2), where b = "sc_arr s ! i" and api = api] b by simp
  next
    case (found job ch)
    then show ?thesis using deliver_packet_ok [OF ok [of job] assms(2), where b = "sc_arr s ! i" and api = api and ch = ch] b wf by simp
  next
    case (unknown job)
    then show ?thesis using post_packet_ok [OF ok [of job] assms(2) unknown(2)] b wf by simp
  next
    case other
    then show ?thesis using post_packet_ok [OF assms(1,2) other] b by simp
  qed
qed

lemma scan_packet_some:
  assumes "job_wf d (sc_job s)" and "sc_post s < length (sc_arr s)"
  shows "scan_packet api d i s \<noteq> None"
proof -
  obtain ch job where "find_rx_channel d (udp_dst_port (sc_arr s ! i)) (sc_job s) = Some (ch, job)"
    using find_rx_channel_correct_lemma [OF assms(1)] by blast
  with assms(2) show ?thesis
    by (cases ch) (simp_all add: scan_packet_def Let_def post_packet_def del: not_None_eq)
qed

lemma scan_burst_ok:
  assumes "scan_ok n ids i (mset (take i ids)) s" and "i + k = n" and "scan_burst api d i k s = Some s'"
  shows "mset (log_ids (sc_log s')) = mset ids \<and> n \<le> sc_post s'
       \<and> take (sc_post s' - n) (drop n (sc_arr s')) = log_posted (sc_log s')"
  using assms
proof (induction k arbitrary: i s)
  case 0
  then have "length ids = n" by (auto simp: scan_ok_def)
  with flush_ignore_ok(1,2) [OF 0(1), of api] 0 show ?case by (auto simp: scan_ok_def run_of_def)
next
  case (Suc k)
  then obtain s1 where s1: "scan_packet api d i s = Some s1" by (auto split: option.splits)
  have "length ids = n" using Suc.prems(1) by (auto simp: scan_ok_def)
  then have "mset (take (Suc i) ids) = add_mset (ids ! i) (mset (take i ids))"
    using Suc.prems(2) by (simp add: take_Suc_conv_app_nth)
  then have "scan_ok n ids (Suc i) (mset (take (Suc i) ids)) s1"
    using scan_packet_ok [OF Suc.prems(1) _ s1] Suc.prems(2) by simp
  then show ?case using Suc.prems(2,3) s1 by (intro Suc.IH) simp_all
qed

lemma scan_burst_some:
  assumes "scan_ok n ids i (mset (take i ids)) s" and "i + k = n" and "job_wf d (sc_job s)"
    and "sc_post s + k \<le> length (sc_arr s)"
  shows "scan_burst api d i k s \<noteq> None"
  using assms
proof (induction k arbitrary: i s)
  case (Suc k)
  then obtain s1 where s1: "scan_packet api d i s = Some s1"
    using scan_packet_some [of d s api i] by auto
  have "length ids = n" using Suc.prems(1) by (auto simp: scan_ok_def)
  then have "mset (take (Suc i) ids) = add_mset (ids ! i) (mset (take i ids))"
    using Suc.prems(2) by (simp add: take_Suc_conv_app_nth)
  then have "scan_burst api d (Suc i) k s1 \<noteq> None"
    using scan_packet_ok [OF Suc.prems(1) _ s1] Suc.prems by (intro Suc.IH) simp_all
  then show ?case by (simp add: s1)
qed simp

section \<open>The receive job\<close>

lemma skip_vlans_id: "skip_vlans fuel b proto = Some (p, b') \<Longrightarrow> buf_id b' = buf_id b"
  by (induction fuel b proto rule: skip_vlans.induct) (auto simp: Let_def split: if_splits)

lemma update_l2size_id: "update_l2size fuel b = Some (p, b') \<Longrightarrow> buf_id b' = buf_id b"
  by (auto simp: update_l2size_def Let_def dest: skip_vlans_id split: if_splits)

lemma update_all_ids: "update_all fuel bs = Some bs' \<Longrightarrow> map buf_id bs' = map buf_id bs"
  by (induction bs arbitrary: bs') (auto split: option.splits dest: update_l2size_id)

text \<open>The state in which a burst is scanned.\<close>

definition scan_start :: "rte_mbuf list \<Rightarrow> rte_mbuf list \<Rightarrow> rx_job \<Rightarrow> 'r \<Rightarrow> 'r scan" where
  "scan_start bs junk job r = \<lparr>sc_arr = bs @ drop (length bs) junk, sc_ready = 0, sc_channel = None,
     sc_post = length bs, sc_log = [], sc_job = job, sc_env = r\<rparr>"

lemma scan_start_ok: "scan_ok (length bs) (map buf_id bs) 0 (mset (take 0 (map buf_id bs))) (scan_start bs junk job r)"
  by (simp add: scan_ok_def scan_start_def run_of_def)

text \<open>
  Where the buffers are. \<open>given\<close>, \<open>freed\<close> and \<open>handed\<close> collect, in the state of the environment, the buffers that channels
  took, that went to \<open>rte_pktmbuf_free_bulk\<close> and that were put into service rings. A channel takes every run it is given.
\<close>

definition rx_account ::
  "'r rx_api \<Rightarrow> ('r \<Rightarrow> nat multiset) \<Rightarrow> ('r \<Rightarrow> nat multiset) \<Rightarrow> ('r \<Rightarrow> nat multiset) \<Rightarrow> bool" where
  "rx_account api given freed handed \<longleftrightarrow>
     (\<forall>ch q bs r. given (snd (enqueue api ch q bs r)) = given r + mset (map buf_id bs)
        \<and> freed (snd (enqueue api ch q bs r)) = freed r \<and> handed (snd (enqueue api ch q bs r)) = handed r)
   \<and> (\<forall>bs r. freed (pktmbuf_free_bulk api bs r) = freed r + mset (map buf_id bs)
        \<and> given (pktmbuf_free_bulk api bs r) = given r \<and> handed (pktmbuf_free_bulk api bs r) = handed r)
   \<and> (\<forall>q n r. given (snd (eth_rx_burst api q n r)) = given r \<and> freed (snd (eth_rx_burst api q n r)) = freed r
        \<and> handed (snd (eth_rx_burst api q n r)) = handed r)"

text \<open>The buffers of the log by what happened to them; \<open>event_recycled\<close> are those a channel gave back and the job freed.\<close>

fun event_given :: "rx_event \<Rightarrow> nat list" where
  "event_given (Delivered ch bs recycle freed) = map buf_id bs"
| "event_given _ = []"

fun event_dropped :: "rx_event \<Rightarrow> nat list" where
  "event_dropped (Dropped b) = [buf_id b]"
| "event_dropped _ = []"

fun event_recycled :: "rx_event \<Rightarrow> nat list" where
  "event_recycled (Delivered ch bs recycle freed) = (if freed then map buf_id (take recycle bs) else [])"
| "event_recycled _ = []"

abbreviation "log_given log \<equiv> concat (map event_given log)"
abbreviation "log_dropped log \<equiv> concat (map event_dropped log)"
abbreviation "log_recycled log \<equiv> concat (map event_recycled log)"

lemma log_ids_split: "mset (log_ids log) = mset (log_given log) + mset (log_dropped log) + mset (map buf_id (log_posted log))"
proof (induction log rule: rev_induct)
  case (snoc e log)
  then show ?case by (cases e) simp_all
qed simp

text \<open>What the scan has done to the environment so far is what its log says.\<close>

definition scan_env ::
  "('r \<Rightarrow> nat multiset) \<Rightarrow> ('r \<Rightarrow> nat multiset) \<Rightarrow> ('r \<Rightarrow> nat multiset) \<Rightarrow> 'r \<Rightarrow> 'r scan \<Rightarrow> bool" where
  "scan_env given freed handed r0 s \<longleftrightarrow> given (sc_env s) = given r0 + mset (log_given (sc_log s))
     \<and> freed (sc_env s) = freed r0 + mset (log_dropped (sc_log s)) + mset (log_recycled (sc_log s))
     \<and> handed (sc_env s) = handed r0"

lemma enqueue_account:
  assumes "rx_account api given freed handed" and "enqueue api ch q bs r = (k, r')"
  shows "given r' = given r + mset (map buf_id bs)" "freed r' = freed r" "handed r' = handed r"
  using assms unfolding rx_account_def by (metis snd_conv)+

lemma free_account:
  assumes "rx_account api given freed handed"
  shows "freed (pktmbuf_free_bulk api bs r) = freed r + mset (map buf_id bs)"
    and "given (pktmbuf_free_bulk api bs r) = given r" and "handed (pktmbuf_free_bulk api bs r) = handed r"
  using assms unfolding rx_account_def by blast+

lemma flush_ignore_env:
  assumes "rx_account api given freed handed" and "scan_env given freed handed r0 s"
  shows "scan_env given freed handed r0 (flush_ignore api i s)"
  using assms(2) enqueue_account [OF assms(1)]
  by (auto simp: scan_env_def flush_ignore_def Let_def split: option.splits prod.splits)

lemma flush_recycle_env:
  assumes "rx_account api given freed handed" and "scan_env given freed handed r0 s"
  shows "scan_env given freed handed r0 (flush_recycle api i s)"
  using assms(2) enqueue_account [OF assms(1)] free_account [OF assms(1)]
  by (auto simp: scan_env_def flush_recycle_def Let_def split: option.splits prod.splits)

lemma scan_env_upd [simp]:
  "scan_env given freed handed r0 (s\<lparr>sc_job := job\<rparr>) = scan_env given freed handed r0 s"
  "scan_env given freed handed r0 (s\<lparr>sc_arr := arr\<rparr>) = scan_env given freed handed r0 s"
  "scan_env given freed handed r0 (s\<lparr>sc_ready := k\<rparr>) = scan_env given freed handed r0 s"
  "scan_env given freed handed r0 (s\<lparr>sc_channel := c\<rparr>) = scan_env given freed handed r0 s"
  by (simp_all add: scan_env_def)

lemma scan_packet_env:
  assumes "rx_account api given freed handed" and "scan_env given freed handed r0 s" and "scan_packet api d i s = Some s'"
  shows "scan_env given freed handed r0 s'"
proof -
  have post: "scan_env given freed handed r0 s2"
    if "scan_env given freed handed r0 s1" "post_packet api i b s1 = Some s2" for b s1 s2
  proof -
    let ?s = "s1\<lparr>sc_arr := (sc_arr s1)[sc_post s1 := b], sc_post := sc_post s1 + 1, sc_log := sc_log s1 @ [Posted b]\<rparr>"
    have "scan_env given freed handed r0 ?s" using that(1) by (simp add: scan_env_def)
    then show ?thesis
      using that(2) flush_ignore_env [OF assms(1), of r0 ?s i] by (auto simp: post_packet_def split: if_splits)
  qed
  from assms(3) show ?thesis
  proof (cases rule: scan_packet_cases)
    case dropped
    let ?s = "s\<lparr>sc_log := sc_log s @ [Dropped (sc_arr s ! i)], sc_env := pktmbuf_free_bulk api [sc_arr s ! i] (sc_env s)\<rparr>"
    have "scan_env given freed handed r0 ?s" using assms(2) free_account [OF assms(1)] by (simp add: scan_env_def)
    then show ?thesis using dropped flush_ignore_env [OF assms(1), of r0 ?s i] by (simp add: drop_packet_def)
  next
    case (found job ch)
    then show ?thesis using assms(2) flush_recycle_env [OF assms(1)] by (simp add: deliver_packet_def Let_def)
  next
    case (unknown job)
    then show ?thesis using post [OF _ unknown(2)] assms(2) by simp
  next
    case other
    then show ?thesis using post [OF assms(2)] by blast
  qed
qed

lemma scan_burst_env:
  assumes "rx_account api given freed handed"
  shows "scan_env given freed handed r0 s \<Longrightarrow> scan_burst api d i k s = Some s' \<Longrightarrow> scan_env given freed handed r0 s'"
proof (induction k arbitrary: i s)
  case 0
  then show ?case using flush_ignore_env [OF assms, of r0 s i] by simp
next
  case (Suc k)
  then obtain s1 where s1: "scan_packet api d i s = Some s1" by (auto split: option.splits)
  show ?case using scan_packet_env [OF assms Suc.prems(1) s1] Suc.prems(2) s1 by (intro Suc.IH) simp_all
qed

lemma subseq_mset: "subseq xs ys \<Longrightarrow> mset xs \<subseteq># mset ys"
proof (induction rule: list_emb.induct)
  case (list_emb_Cons xs ys y)
  then show ?case by (metis mset.simps(2) mset_subset_eq_add_right subset_mset.order_trans add_mset_add_single union_commute)
qed simp_all

lemma try_reload_same [simp]:
  "rj_queue (snd (try_reload_sinks d job)) = rj_queue job" "rj_burst (snd (try_reload_sinks d job)) = rj_burst job"
  by (simp_all add: try_reload_sinks_def)

text \<open>A job that got buffers: its scan, and the packets it passes on with what comes back of them.\<close>

lemma rx_job_process_steps:
  assumes "rx_job_process napi api cfg side d fuel junk s = Some (st, log, s')"
    and "eth_rx_burst api (rj_queue (rs_job s)) (rj_burst (rs_job s)) (rs_env s) = (bs, r)" and "bs \<noteq> []"
  obtains bs' sc kept arp4 r' where "map buf_id bs' = map buf_id bs"
    "scan_burst api d 0 (length bs') (scan_start bs' junk (snd (try_reload_sinks d (rs_job s))) r) = Some sc" "log = sc_log sc"
    "process_rx_packets napi cfg side (rj_queue (sc_job sc)) (take (sc_post sc - length bs') (drop (length bs') (sc_arr sc)))
       (rs_arp s) (sc_env sc) = Some (kept, arp4, r')"
    "rs_env s' = (if kept \<noteq> [] then pktmbuf_free_bulk api kept r' else r')"
proof -
  let ?job = "snd (try_reload_sinks d (rs_job s))"
  obtain bs' where bs': "update_all fuel bs = Some bs'"
    using assms by (auto simp: rx_job_process_def Let_def split: option.splits)
  then have ids: "map buf_id bs' = map buf_id bs" by (rule update_all_ids)
  then have len: "length bs' = length bs" by (metis length_map)
  obtain sc where sc: "scan_burst api d 0 (length bs') (scan_start bs' junk ?job r) = Some sc"
    using assms bs' len by (auto simp: rx_job_process_def Let_def scan_start_def split: option.splits)
  let ?post = "take (sc_post sc - length bs') (drop (length bs') (sc_arr sc))"
  show thesis
  proof (cases "?post = []")
    case True
    then have "log = sc_log sc" "rs_env s' = sc_env sc"
      using assms bs' len sc by (auto simp: rx_job_process_def Let_def scan_start_def simp del: take_eq_Nil drop_eq_Nil)
    moreover have "process_rx_packets napi cfg side (rj_queue (sc_job sc)) ?post (rs_arp s) (sc_env sc) =
        Some ([], rs_arp s, sc_env sc)" by (subst True) simp
    ultimately show thesis using that [OF ids sc, of "[]" "rs_arp s" "sc_env sc"] by simp
  next
    case False
    then show thesis
      using assms bs' len sc that [OF ids sc]
      by (auto simp: rx_job_process_def Let_def scan_start_def simp del: take_eq_Nil drop_eq_Nil split: option.splits prod.splits)
  qed
qed


text \<open>C35: with at most 256 buffers per burst the job stays inside its array of 512 and inside its table:
  the scan of a burst always succeeds when the job is well-formed.\<close>

theorem scan_in_bounds:
  assumes "length bs \<le> max_pkt_burst" and "length junk = 2 * max_pkt_burst" and "job_wf d job"
  shows "\<exists>s'. scan_burst api d 0 (length bs) (scan_start bs junk job r) = Some s'
       \<and> take (sc_post s' - length bs) (drop (length bs) (sc_arr s')) = log_posted (sc_log s')"
proof -
  have "scan_burst api d 0 (length bs) (scan_start bs junk job r) \<noteq> None"
    using assms by (intro scan_burst_some [OF scan_start_ok]) (simp_all add: scan_start_def)
  then obtain s' where "scan_burst api d 0 (length bs) (scan_start bs junk job r) = Some s'" by blast
  with scan_burst_ok [OF scan_start_ok _ this] show ?thesis by simp
qed

lemma flush_ignore_frame [simp]:
  "sc_arr (flush_ignore api i s) = sc_arr s" "sc_post (flush_ignore api i s) = sc_post s"
  by (simp_all add: flush_ignore_def Let_def split: option.splits prod.splits)

lemma scan_overflow_from:
  assumes "i + k = n" and "n \<le> sc_post s" and "sc_post s \<le> length (sc_arr s)"
    and "length (sc_arr s) - sc_post s < k"
    and "\<forall>j < n. eth_proto (sc_arr s ! j) \<noteq> 0 \<and> eth_proto (sc_arr s ! j) \<noteq> bswap RTE_ETHER_TYPE_IPV4"
  shows "scan_burst api d i k s = None"
  using assms
proof (induction k arbitrary: i s)
  case (Suc k)
  let ?b = "sc_arr s ! i"
  have scan: "scan_packet api d i s = post_packet api i ?b s"
    using Suc.prems(1,5) by (simp add: scan_packet_def Let_def)
  show ?case
  proof (cases "sc_post s = length (sc_arr s)")
    case True
    then show ?thesis by (simp add: scan post_packet_def)
  next
    case False
    define s0 where "s0 = s\<lparr>sc_arr := (sc_arr s)[sc_post s := ?b], sc_post := sc_post s + 1, sc_log := sc_log s @ [Posted ?b]\<rparr>"
    have s1: "scan_packet api d i s = Some (flush_ignore api i s0)"
      using False Suc.prems(3) by (simp add: scan post_packet_def s0_def)
    have "scan_burst api d (Suc i) k (flush_ignore api i s0) = None"
      using Suc.prems False by (intro Suc.IH) (auto simp: s0_def)
    with s1 show ?thesis by simp
  qed
qed simp

text \<open>The constructor admits bursts of up to 512 buffers, but a burst of more than 256 packets that
  are neither broken nor IPv4, say ARP requests, writes behind the end of the array.\<close>

theorem scan_overflow:
  assumes "max_pkt_burst < length bs" and "length junk = 2 * max_pkt_burst" and "length bs \<le> 2 * max_pkt_burst"
    and "\<forall>b \<in> set bs. eth_proto b \<noteq> 0 \<and> eth_proto b \<noteq> bswap RTE_ETHER_TYPE_IPV4"
  shows "scan_burst api d 0 (length bs) (scan_start bs junk job r) = None"
  using assms by (intro scan_overflow_from [where n = "length bs"]) (auto simp: scan_start_def nth_append)

section \<open>Examples\<close>

text \<open>An environment that delivers one ARP request per burst.\<close>

definition example_rx :: "rte_mbuf list rx_api" where
  "example_rx = \<lparr>eth_rx_burst = (\<lambda>_ _ r. ([make_arp_request example_peer 0x0100000a (example_frame (\<lambda>_. 0) 0)], r)),
     enqueue = (\<lambda>_ _ _ r. (0, r)), pktmbuf_free_bulk = (\<lambda>_ r. r)\<rparr>"

abbreviation "example_arp \<equiv> make_arp_request example_peer 0x0100000a (example_frame (\<lambda>_. 0) 0)"

lemma example_arp_proto: "eth_proto example_arp \<noteq> 0 \<and> eth_proto example_arp \<noteq> bswap RTE_ETHER_TYPE_IPV4"
  using make_arp_request_is_arp(1) [of example_peer "0x0100000a" "example_frame (\<lambda>_. 0) 0"]
  by (simp add: is_arp_def example_peer_def example_cfg_def)

theorem scan_in_bounds_witness:
  "scan_burst example_rx example_table 0 1 (scan_start [example_arp] (replicate 512 example_arp)
     (make_rx_job 0 32 1001 example_table) []) \<noteq> None"
  using scan_in_bounds [OF _ _ example_job_wf, of "[example_arp]" "replicate 512 example_arp" example_rx "[]"] by auto

theorem scan_overflow_witness:
  "scan_burst example_rx example_table 0 300 (scan_start (replicate 300 example_arp) (replicate 512 example_arp)
     (make_rx_job 0 300 1001 example_table) []) = None"
  using scan_overflow [of "replicate 300 example_arp" "replicate 512 example_arp"] example_arp_proto by simp

text \<open>An environment that records what channels took, what was freed and what is in a ring, and a burst of a truncated
  frame and an ARP request for the own address.\<close>

type_synonym books = "nat multiset \<times> nat multiset \<times> nat multiset"

definition books_net :: "books net_api" where
  "books_net = \<lparr>tx = \<lparr>ring_sc_dequeue_burst = (\<lambda>_ _ r. ([], r)),
       ring_mp_enqueue_burst = (\<lambda>_ bs (g, f, h). (length bs, g, f, h + mset (map buf_id bs))), eth_tx_burst = (\<lambda>_ bs r. (length bs, r))\<rparr>,
     pktmbuf_alloc = (\<lambda>r. (None, r)), is_ipv4_mcast = (\<lambda>x. False),
     ipv4_cksum = (\<lambda>_ _. 0), raw_cksum = (\<lambda>_ _ _. 0), eth_read_clock = (\<lambda>r. (None, r)),
     timer_cycles = (\<lambda>r. (5, r)), timer_hz = 1, tx_offload_ipv4_cksum = 2, mbuf_f_tx_ipv4 = 1, mbuf_f_tx_ip_cksum = 2\<rparr>"

abbreviation "example_runt \<equiv> (example_frame (\<lambda>_. 0) 0)\<lparr>buf_id := 5\<rparr>"

definition books_rx :: "books rx_api" where
  "books_rx = \<lparr>eth_rx_burst = (\<lambda>_ _ r. ([example_runt, example_arp], r)),
     enqueue = (\<lambda>_ _ bs (g, f, h). (0, g + mset (map buf_id bs), f, h)),
     pktmbuf_free_bulk = (\<lambda>bs (g, f, h). (g, f + mset (map buf_id bs), h))\<rparr>"

lemma books_account:
  "rx_account books_rx fst (\<lambda>r. fst (snd r)) (\<lambda>r. snd (snd r))" "rings_account books_net (\<lambda>r. snd (snd r))"
  "rings_keep books_net fst" "rings_keep books_net (\<lambda>r. fst (snd r))"
  by (auto simp: rx_account_def rings_account_def rings_keep_def books_rx_def books_net_def split: prod.splits)


end
