(* ===== verification/Config.thy ===== *)
theory Config
  imports Errors
begin

text \<open>
  Configuration: \<open>dpdkx/config/device.hpp\<close> and \<open>dpdkx/config/program_options.{hpp,cpp}\<close>. The map of
  program options is a list of keys and values in the order of \<open>std::map\<close>. Address parsing and
  printing, the port queries of DPDK and \<open>load_value\<close>, which reads described members with Boost.Spirit
  parsers, are parameters. \<open>None\<close> and \<open>Inl\<close> stand for exceptions.
\<close>

section \<open>Devices\<close>

record portconf =
  pc_nb_queues :: u16
  pc_burst_size :: u16
  pc_ring_size :: u16

record dev_info =
  di_driver_name :: string
  di_max_rx_queues :: u16
  di_max_tx_queues :: u16
  di_rx_offload_capa :: u64
  di_tx_offload_capa :: u64
  di_rxportconf :: portconf
  di_txportconf :: portconf

record device_config =
  dc_id :: string
  dc_socket_id :: nat
  dc_port_id :: u16
  dc_mac_addr :: "byte list"
  dc_ip4_addr :: u32
  dc_ip6_addr :: "byte list"
  dc_svc_tx_n :: u16
  dc_rx_flow_queues :: u16
  dc_next_src_port :: u16
  dc_rx_reconfig_hint :: u16
  dc_clock_hz :: u64
  dc_info :: dev_info
  dc_offload_rx :: u64
  dc_offload_tx :: u64
  dc_tx_rings :: u16
  dc_rx_meta_features :: u64
  dc_features :: u64

text \<open>The member initialisers; the members without one are given.\<close>

definition default_device :: "nat \<Rightarrow> u16 \<Rightarrow> byte list \<Rightarrow> dev_info \<Rightarrow> u64 \<Rightarrow> device_config" where
  "default_device socket_id port_id mac info meta =
     \<lparr>dc_id = '''', dc_socket_id = socket_id, dc_port_id = port_id, dc_mac_addr = mac, dc_ip4_addr = 0,
      dc_ip6_addr = replicate 16 0, dc_svc_tx_n = 0xffff, dc_rx_flow_queues = 0, dc_next_src_port = 49152,
      dc_rx_reconfig_hint = 256, dc_clock_hz = 0, dc_info = info, dc_offload_rx = - 1, dc_offload_tx = - 1,
      dc_tx_rings = 0xffff, dc_rx_meta_features = meta, dc_features = push_bit 1 1 OR push_bit 2 1\<rparr>"

record nic_info =
  ni_name :: string
  ni_mac :: "byte list"
  ni_ipv4 :: "u32 list"
  ni_ipv6 :: "byte list list"

section \<open>Matching devices\<close>

record device_matcher =
  dm_id :: string
  dm_mac :: "byte list"
  dm_addr :: "u32 option"

definition make_device_matcher ::
  "(string \<Rightarrow> byte list option) \<Rightarrow> (string \<Rightarrow> u32 option) \<Rightarrow> string \<Rightarrow> device_matcher" where
  "make_device_matcher unformat_addr pton4 i =
     \<lparr>dm_id = i, dm_mac = (case unformat_addr i of Some mac \<Rightarrow> mac | None \<Rightarrow> []), dm_addr = pton4 i\<rparr>"

definition matches_nic :: "device_matcher \<Rightarrow> nic_info \<Rightarrow> bool" where
  "matches_nic m info \<longleftrightarrow>
     ni_name info = dm_id m
   \<or> dm_mac m \<noteq> [] \<and> ni_mac info = dm_mac m
   \<or> ni_ipv4 info \<noteq> [] \<and> dm_addr m \<noteq> None \<and> list_ex (\<lambda>a. dm_addr m = Some a) (ni_ipv4 info)"

definition matches_mac :: "device_matcher \<Rightarrow> byte list \<Rightarrow> bool" where
  "matches_mac m mac \<longleftrightarrow> dm_mac m \<noteq> [] \<and> dm_mac m = mac"

definition matches_device :: "device_matcher \<Rightarrow> device_config \<Rightarrow> bool" where
  "matches_device m dev \<longleftrightarrow> dc_id dev = dm_id m \<or> dm_addr m = Some (dc_ip4_addr dev)"

section \<open>Options\<close>

datatype opt_value = Opt_empty | Opt_string string | Opt_strings "string list"

type_synonym options = "(string \<times> opt_value) list"

definition option_value :: "options \<Rightarrow> string \<Rightarrow> opt_value" where
  "option_value opts key = (case map_of opts key of Some v \<Rightarrow> v | None \<Rightarrow> Opt_empty)"

text \<open>\<open>as<std::string>\<close> throws for another type.\<close>

fun as_string :: "opt_value \<Rightarrow> string option" where
  "as_string (Opt_string s) = Some s"
| "as_string v = None"

definition starts_with :: "string \<Rightarrow> string \<Rightarrow> bool" where
  "starts_with s p \<longleftrightarrow> take (length p) s = p"

record nic_parsers =
  np_unformat_addr :: "string \<Rightarrow> byte list option"
  np_pton4 :: "string \<Rightarrow> u32 option"
  np_pton6 :: "string \<Rightarrow> byte list option"

text \<open>Lines 76-98: the interface with this MAC address, or a new one, gets the address, and the IPv6
  address and the name when they are given.\<close>

definition assign_nic ::
  "nic_parsers \<Rightarrow> options \<Rightarrow> string \<Rightarrow> byte list \<Rightarrow> u32 \<Rightarrow> nic_info list \<Rightarrow> nic_info list option" where
  "assign_nic ps opts path mac addr nics =
     (let nics = (if list_ex (\<lambda>i. ni_mac i = mac) nics then nics
                  else nics @ [\<lparr>ni_name = '''', ni_mac = mac, ni_ipv4 = [], ni_ipv6 = []\<rparr>]);
          k = length (takeWhile (\<lambda>i. ni_mac i \<noteq> mac) nics);
          info = (nics ! k)\<lparr>ni_ipv4 := [addr]\<rparr>;
          ip6 = option_value opts (path @ ''.ip6''); name = option_value opts (path @ ''.name'')
      in case (if ip6 = Opt_empty then Some info
               else map_option (\<lambda>s. case np_pton6 ps s of Some a \<Rightarrow> info\<lparr>ni_ipv6 := [a]\<rparr> | None \<Rightarrow> info) (as_string ip6)) of
           None \<Rightarrow> None
         | Some info \<Rightarrow>
             (if name = Opt_empty then Some (nics[k := info])
              else map_option (\<lambda>s. nics[k := info\<lparr>ni_name := s\<rparr>]) (as_string name)))"

text \<open>One option \<open>nic.<mac>.ip\<close>; keys of another shape and addresses that do not parse are skipped.\<close>

definition nic_option :: "nic_parsers \<Rightarrow> options \<Rightarrow> string \<times> opt_value \<Rightarrow> nic_info list \<Rightarrow> nic_info list option" where
  "nic_option ps opts kv nics =
     (let key = fst kv; rest = drop 4 key; nic_id = takeWhile (\<lambda>c. c \<noteq> CHR ''.'') rest
      in if \<not> starts_with key ''nic.'' \<or> drop (length nic_id) rest \<noteq> ''.ip'' then Some nics
         else case np_unformat_addr ps nic_id of
           None \<Rightarrow> Some nics
         | Some mac \<Rightarrow>
             (case as_string (snd kv) of
                None \<Rightarrow> None
              | Some address \<Rightarrow>
                  (case np_pton4 ps address of
                     None \<Rightarrow> Some nics
                   | Some addr \<Rightarrow> assign_nic ps opts (''nic.'' @ nic_id) mac addr nics)))"

fun nic_options :: "nic_parsers \<Rightarrow> options \<Rightarrow> options \<Rightarrow> nic_info list \<Rightarrow> nic_info list option" where
  "nic_options ps opts [] nics = Some nics"
| "nic_options ps opts (kv # kvs) nics =
     (case nic_option ps opts kv nics of None \<Rightarrow> None | Some nics \<Rightarrow> nic_options ps opts kvs nics)"

definition get_nic_info :: "nic_parsers \<Rightarrow> nic_info list \<Rightarrow> options \<Rightarrow> nic_info list option" where
  "get_nic_info ps nics_info opts = nic_options ps opts opts nics_info"

text \<open>\<open>eal_option\<close>: the arguments for \<open>rte_eal_init\<close>; an empty list of values is dereferenced, \<open>None\<close>.\<close>

fun eal_value :: "string \<Rightarrow> opt_value \<Rightarrow> string list option" where
  "eal_value name Opt_empty = Some []"
| "eal_value name (Opt_string v) = Some (if v = [] then [] else [v])"
| "eal_value name (Opt_strings []) = None"
| "eal_value name (Opt_strings (v # vs)) = Some (v # concat (map (\<lambda>v. [name, v]) vs))"

fun eal_options :: "options \<Rightarrow> string list option" where
  "eal_options [] = Some []"
| "eal_options ((key, v) # kvs) =
     (if starts_with key ''eal.'' \<and> drop 4 key \<noteq> [] then
        (let name = (if length (drop 4 key) = 1 then ''-'' else ''--'') @ drop 4 key
         in case (eal_value name v, eal_options kvs) of
              (Some vs, Some rest) \<Rightarrow> Some (name # vs @ rest)
            | _ \<Rightarrow> None)
      else eal_options kvs)"

definition eal_option :: "string \<Rightarrow> options \<Rightarrow> string list option" where
  "eal_option app_name opts = map_option (Cons app_name) (eal_options opts)"

section \<open>Devices from ports\<close>

record port_api =
  eth_dev_socket_id :: "u16 \<Rightarrow> nat"
  eth_macaddr_get :: "u16 \<Rightarrow> byte list option"
  eth_dev_info_get :: "u16 \<Rightarrow> dev_info option"
  rx_metadata_negotiate :: "u16 \<Rightarrow> u64 \<Rightarrow> int \<times> u64"
  ether_format_addr :: "byte list \<Rightarrow> string"
  rx_metadata_all :: u64
  load_value :: "options \<Rightarrow> string \<Rightarrow> device_config \<Rightarrow> string + device_config"

definition device_key :: "port_api \<Rightarrow> device_config \<Rightarrow> string" where
  "device_key api dev = ''nic.'' @ ether_format_addr api (dc_mac_addr dev)"

text \<open>\<open>std::bitset<64>\<close> from a string of zeros and ones, the last of the first 64 characters is bit 0.\<close>

definition bitset_of :: "string \<Rightarrow> u64 option" where
  "bitset_of s =
     (if list_all (\<lambda>c. c = CHR ''0'' \<or> c = CHR ''1'') s
      then Some (foldl (\<lambda>v c. 2 * v + (if c = CHR ''1'' then 1 else 0)) 0 (take 64 s))
      else None)"

text \<open>Lines 217-220 and 222-226: the values below a key, then the features.\<close>

definition load_device :: "port_api \<Rightarrow> options \<Rightarrow> string \<Rightarrow> device_config \<Rightarrow> string + device_config" where
  "load_device api opts key dev =
     (case load_value api opts key dev of
        Inl e \<Rightarrow> Inl e
      | Inr dev \<Rightarrow>
          (case option_value opts (key @ ''.features'') of
             Opt_empty \<Rightarrow> Inr dev
           | v \<Rightarrow> (case Option.bind (as_string v) bitset_of of
                     None \<Rightarrow> Inl ''invalid features''
                   | Some b \<Rightarrow> Inr (dev\<lparr>dc_features := b\<rparr>))))"

text \<open>Lines 190-205: name and addresses of the interface with the same MAC address.\<close>

definition name_device :: "nic_info list \<Rightarrow> device_config \<Rightarrow> device_config" where
  "name_device nics dev =
     (case find (\<lambda>i. ni_mac i = dc_mac_addr dev) nics of
        None \<Rightarrow> dev
      | Some info \<Rightarrow>
          dev\<lparr>dc_id := ni_name info,
              dc_ip4_addr := (if ni_ipv4 info \<noteq> [] then hd (ni_ipv4 info) else dc_ip4_addr dev),
              dc_ip6_addr := (if ni_ipv6 info \<noteq> [] then hd (ni_ipv6 info) else dc_ip6_addr dev)\<rparr>)"

text \<open>Lines 228-242: defaults for the queues, and the offloads the port has.\<close>

definition limit_device :: "port_api \<Rightarrow> device_config \<Rightarrow> device_config" where
  "limit_device api dev =
     (let i = dc_info dev;
          i = (if pc_nb_queues (di_rxportconf i) = 0
               then i\<lparr>di_rxportconf := (di_rxportconf i)\<lparr>pc_nb_queues := di_max_rx_queues i\<rparr>\<rparr> else i);
          i = (if pc_nb_queues (di_txportconf i) = 0
               then i\<lparr>di_txportconf := (di_txportconf i)\<lparr>pc_nb_queues := di_max_tx_queues i\<rparr>\<rparr> else i);
          dev = dev\<lparr>dc_info := i\<rparr>;
          dev = (if dc_svc_tx_n dev > pc_nb_queues (di_txportconf i)
                 then dev\<lparr>dc_svc_tx_n := pc_nb_queues (di_txportconf i)\<rparr> else dev);
          dev = dev\<lparr>dc_offload_rx := dc_offload_rx dev AND di_rx_offload_capa i,
                    dc_offload_tx := dc_offload_tx dev AND di_tx_offload_capa i\<rparr>;
          (rc, meta) = rx_metadata_negotiate api (dc_port_id dev) (dc_rx_meta_features dev)
      in dev\<lparr>dc_rx_meta_features := if rc < 0 then 0 else meta\<rparr>)"

definition device_configuration ::
  "port_api \<Rightarrow> nic_info list \<Rightarrow> options \<Rightarrow> u16 \<Rightarrow> string + device_config" where
  "device_configuration api nics opts port_id =
     (case eth_macaddr_get api port_id of
        None \<Rightarrow> Inl ''rte_eth_macaddr_get failed''
      | Some mac \<Rightarrow>
          (case eth_dev_info_get api port_id of
             None \<Rightarrow> Inl ''rte_eth_dev_info_get failed''
           | Some info \<Rightarrow>
               (let dev = name_device nics (default_device (eth_dev_socket_id api port_id) port_id mac info (rx_metadata_all api));
                    dev = (if dc_id dev = [] then dev\<lparr>dc_id := to_string (int (unat port_id))\<rparr> else dev)
                in case load_device api opts (di_driver_name (dc_info dev)) dev of
                     Inl e \<Rightarrow> Inl e
                   | Inr dev \<Rightarrow> map_sum id (limit_device api) (load_device api opts (device_key api dev) dev))))"

fun devices_configuration ::
  "port_api \<Rightarrow> nic_info list \<Rightarrow> options \<Rightarrow> u16 list \<Rightarrow> string + device_config list" where
  "devices_configuration api nics opts [] = Inr []"
| "devices_configuration api nics opts (p # ports) =
     (case device_configuration api nics opts p of
        Inl e \<Rightarrow> Inl e
      | Inr dev \<Rightarrow> map_sum id (Cons dev) (devices_configuration api nics opts ports))"

text \<open>\<open>igc_offloads\<close> are the four offloads that the driver \<open>net_igc\<close> announces but does not support.\<close>

definition apply_workaround :: "u64 \<Rightarrow> device_config \<Rightarrow> device_config" where
  "apply_workaround igc_offloads dev =
     (if di_driver_name (dc_info dev) = ''net_igc''
      then dev\<lparr>dc_info := (dc_info dev)\<lparr>di_rx_offload_capa := di_rx_offload_capa (dc_info dev) AND NOT igc_offloads\<rparr>\<rparr>
      else dev)"

definition apply_workarounds :: "u64 \<Rightarrow> device_config list \<Rightarrow> device_config list" where
  "apply_workarounds igc_offloads devices = map (apply_workaround igc_offloads) devices"

section \<open>Properties\<close>

lemma limit_device_fields:
  "dc_offload_rx (limit_device api dev) = dc_offload_rx dev AND di_rx_offload_capa (dc_info dev)"
  "dc_offload_tx (limit_device api dev) = dc_offload_tx dev AND di_tx_offload_capa (dc_info dev)"
  "di_rx_offload_capa (dc_info (limit_device api dev)) = di_rx_offload_capa (dc_info dev)"
  "di_tx_offload_capa (dc_info (limit_device api dev)) = di_tx_offload_capa (dc_info dev)"
  by (simp_all add: limit_device_def Let_def split: prod.splits)

lemma limit_device_queues:
  "dc_svc_tx_n (limit_device api dev) \<le> pc_nb_queues (di_txportconf (dc_info (limit_device api dev)))"
  "pc_nb_queues (di_rxportconf (dc_info (limit_device api dev))) = 0 \<longleftrightarrow>
     pc_nb_queues (di_rxportconf (dc_info dev)) = 0 \<and> di_max_rx_queues (dc_info dev) = 0"
  "pc_nb_queues (di_txportconf (dc_info (limit_device api dev))) = 0 \<longleftrightarrow>
     pc_nb_queues (di_txportconf (dc_info dev)) = 0 \<and> di_max_tx_queues (dc_info dev) = 0"
  "di_max_rx_queues (dc_info (limit_device api dev)) = di_max_rx_queues (dc_info dev)"
  "di_max_tx_queues (dc_info (limit_device api dev)) = di_max_tx_queues (dc_info dev)"
  by (auto simp: limit_device_def Let_def split: prod.splits)

text \<open>What holds of every configured device.\<close>

definition device_ok :: "device_config \<Rightarrow> bool" where
  "device_ok dev \<longleftrightarrow>
     dc_offload_rx dev AND NOT (di_rx_offload_capa (dc_info dev)) = 0
   \<and> dc_offload_tx dev AND NOT (di_tx_offload_capa (dc_info dev)) = 0
   \<and> dc_svc_tx_n dev \<le> pc_nb_queues (di_txportconf (dc_info dev))
   \<and> (di_max_rx_queues (dc_info dev) \<noteq> 0 \<longrightarrow> pc_nb_queues (di_rxportconf (dc_info dev)) \<noteq> 0)
   \<and> (di_max_tx_queues (dc_info dev) \<noteq> 0 \<longrightarrow> pc_nb_queues (di_txportconf (dc_info dev)) \<noteq> 0)"

lemma limit_device_ok: "device_ok (limit_device api dev)"
  using limit_device_queues [of api dev]
  by (simp add: device_ok_def limit_device_fields and.assoc bit.conj_cancel_right) 

text \<open>What a device may ask of the port it is configured for.\<close>

definition suits_port :: "port_api \<Rightarrow> u16 \<Rightarrow> device_config \<Rightarrow> bool" where
  "suits_port api port dev \<longleftrightarrow>
     (case eth_dev_info_get api port of
        None \<Rightarrow> False
      | Some info \<Rightarrow> dc_offload_rx dev AND NOT (di_rx_offload_capa info) = 0 \<and> dc_offload_tx dev AND NOT (di_tx_offload_capa info) = 0
          \<and> (di_max_rx_queues info \<noteq> 0 \<longrightarrow> pc_nb_queues (di_rxportconf (dc_info dev)) \<noteq> 0)
          \<and> (di_max_tx_queues info \<noteq> 0 \<longrightarrow> pc_nb_queues (di_txportconf (dc_info dev)) \<noteq> 0))"

text \<open>The loader leaves the capabilities that the port reported as they are: no option sets one of these four members.\<close>

definition same_capabilities :: "dev_info \<Rightarrow> dev_info \<Rightarrow> bool" where
  "same_capabilities i j \<longleftrightarrow> di_rx_offload_capa j = di_rx_offload_capa i \<and> di_tx_offload_capa j = di_tx_offload_capa i
     \<and> di_max_rx_queues j = di_max_rx_queues i \<and> di_max_tx_queues j = di_max_tx_queues i"

definition keeps_capabilities :: "port_api \<Rightarrow> options \<Rightarrow> bool" where
  "keeps_capabilities api opts \<longleftrightarrow>
     (\<forall>key dev dev'. load_value api opts key dev = Inr dev' \<longrightarrow> same_capabilities (dc_info dev) (dc_info dev'))"

lemma load_device_keeps:
  "keeps_capabilities api opts \<Longrightarrow> load_device api opts key dev = Inr dev' \<Longrightarrow> same_capabilities (dc_info dev) (dc_info dev')"
  unfolding keeps_capabilities_def
  by (fastforce simp: load_device_def Let_def split: sum.splits opt_value.splits option.splits)

lemma device_configuration_limits:
  assumes "device_configuration api nics opts p = Inr dev"
  obtains info dev0 where "eth_dev_info_get api p = Some info" and "dev = limit_device api dev0"
    and "keeps_capabilities api opts \<longrightarrow> same_capabilities info (dc_info dev0)"
proof -
  obtain mac info where i: "eth_macaddr_get api p = Some mac" "eth_dev_info_get api p = Some info"
    using assms by (auto simp: device_configuration_def split: option.splits)
  define dev1 where "dev1 = (let dev = name_device nics (default_device (eth_dev_socket_id api p) p mac info (rx_metadata_all api))
     in if dc_id dev = [] then dev\<lparr>dc_id := to_string (int (unat p))\<rparr> else dev)"
  have dev1: "dc_info dev1 = info"
    by (simp add: dev1_def name_device_def default_device_def Let_def split: option.splits)
  obtain dev2 dev3 where d: "load_device api opts (di_driver_name (dc_info dev1)) dev1 = Inr dev2"
    "load_device api opts (device_key api dev2) dev2 = Inr dev3" "dev = limit_device api dev3"
  proof -
    have "device_configuration api nics opts p = (case load_device api opts (di_driver_name (dc_info dev1)) dev1 of Inl e \<Rightarrow> Inl e
        | Inr dev \<Rightarrow> map_sum id (limit_device api) (load_device api opts (device_key api dev) dev))"
      by (simp add: device_configuration_def i dev1_def Let_def)
    then show thesis using assms that by (auto simp: map_sum_def split: sum.splits)
  qed
  have "keeps_capabilities api opts \<longrightarrow> same_capabilities info (dc_info dev3)"
    using load_device_keeps [OF _ d(1)] load_device_keeps [OF _ d(2)] by (simp add: dev1 same_capabilities_def)
  with i(2) d(3) show ?thesis by (rule that)
qed

text \<open>C39: one device comes out per port, in the order of the ports. Whatever the options set, it has no more service
  queues than transmit queues and asks only for offloads that its configuration has. When no option overwrites
  the capabilities that the port reported, it asks only for offloads its port has, and for at least one queue of each
  kind if the port has any. The number of queues has no upper bound: it is what the options say.\<close>

theorem devices_configuration_ok:
  "devices_configuration api nics opts ports = Inr devs \<Longrightarrow> length devs = length ports \<and> list_all device_ok devs
     \<and> (keeps_capabilities api opts \<longrightarrow> list_all2 (suits_port api) ports devs)"
proof (induction ports arbitrary: devs)
  case (Cons p ports)
  obtain dev where dev: "device_configuration api nics opts p = Inr dev"
    using Cons.prems by (auto split: sum.splits)
  obtain devs' where devs': "devices_configuration api nics opts ports = Inr devs'" "devs = dev # devs'"
    using Cons.prems dev by (cases "devices_configuration api nics opts ports") auto
  obtain info dev0 where d: "eth_dev_info_get api p = Some info" "dev = limit_device api dev0"
    "keeps_capabilities api opts \<longrightarrow> same_capabilities info (dc_info dev0)"
    by (rule device_configuration_limits [OF dev])
  have "suits_port api p dev" if "keeps_capabilities api opts"
    using limit_device_ok [of api dev0] d(1) mp [OF d(3) that] limit_device_fields [of api dev0] limit_device_queues [of api dev0]
    by (simp add: d(2) suits_port_def device_ok_def same_capabilities_def)
  with Cons.IH devs' d(2) limit_device_ok show ?case by simp
qed simp

definition plain_ports :: port_api where
  "plain_ports = \<lparr>eth_dev_socket_id = (\<lambda>_. 0), eth_macaddr_get = (\<lambda>p. Some [2, 0, 0, 0, 0, ucast p]),
     eth_dev_info_get = (\<lambda>_. Some \<lparr>di_driver_name = ''net_igc'', di_max_rx_queues = 4, di_max_tx_queues = 4,
        di_rx_offload_capa = 6, di_tx_offload_capa = 6,
        di_rxportconf = \<lparr>pc_nb_queues = 0, pc_burst_size = 0, pc_ring_size = 0\<rparr>,
        di_txportconf = \<lparr>pc_nb_queues = 2, pc_burst_size = 0, pc_ring_size = 0\<rparr>\<rparr>),
     rx_metadata_negotiate = (\<lambda>_ m. (0, m)), ether_format_addr = (\<lambda>_. ''02:00:00:00:00:00''), rx_metadata_all = 7,
     load_value = (\<lambda>_ _ dev. Inr dev)\<rparr>"

theorem devices_configuration_ok_witness:
  "\<exists>devs. devices_configuration plain_ports [] [] [0, 1] = Inr devs \<and> length devs = 2 \<and> list_all device_ok devs
     \<and> list_all2 (suits_port plain_ports) [0, 1] devs"
proof -
  have "\<exists>devs. devices_configuration plain_ports [] [] [0, 1] = Inr devs"
    by (simp add: device_configuration_def plain_ports_def load_device_def option_value_def Let_def)
  then obtain devs where d: "devices_configuration plain_ports [] [] [0, 1] = Inr devs" by blast
  moreover have "keeps_capabilities plain_ports []" by (simp add: keeps_capabilities_def same_capabilities_def plain_ports_def)
  ultimately show ?thesis using devices_configuration_ok [OF d] by simp
qed

text \<open>An option that overwrites \<open>info.rx_offload_capa\<close> makes the device ask for offloads that the port does not have.\<close>

definition overwritten_ports :: port_api where
  "overwritten_ports = plain_ports\<lparr>load_value := (\<lambda>_ _ dev. Inr (dev\<lparr>dc_info := (dc_info dev)\<lparr>di_rx_offload_capa := - 1\<rparr>\<rparr>))\<rparr>"

theorem options_exceed_port:
  "map_sum id (map dc_offload_rx) (devices_configuration overwritten_ports [] [] [0]) = Inr [- 1]"
  "map_option di_rx_offload_capa (eth_dev_info_get overwritten_ports 0) = Some 6"
  by (simp_all add: overwritten_ports_def plain_ports_def device_configuration_def load_device_def option_value_def limit_device_def Let_def default_device_def name_device_def)

text \<open>The workaround for the \<open>net_igc\<close> driver has no effect: it masks the capabilities after the
  effective offloads were computed from them, and those are what the device requests.\<close>

theorem apply_workarounds_no_effect:
  "map dc_offload_rx (apply_workarounds igc_offloads devices) = map dc_offload_rx devices"
  by (simp add: apply_workarounds_def apply_workaround_def)

end
