(* ===== verification/Device_Setup.thy ===== *)
theory Device_Setup
  imports Device_Rx Config
begin

text \<open>
  Building and starting a device: the constructor of \<open>dpdkx::device\<close>, its job lists, \<open>start\<close> and \<open>stop\<close>
  (\<open>dpdkx/device.cpp\<close>), and the ring of a transmit job (\<open>dpdkx/detail/tx_ring.cpp\<close>). DPDK calls are
  fields of \<open>setup_api\<close> over an unknown state \<open>'r\<close> and return 0 for success. An exception of the
  constructor is a \<open>setup_error\<close>; \<open>None\<close> is the division by zero in the clock estimation.
\<close>

section \<open>State and environment\<close>

text \<open>The two clock readings, the processor ticks taken with them and the tick frequency.\<close>

record clock_probe =
  cp_first :: "u64 option"
  cp_first_tsc :: u64
  cp_second :: "u64 option"
  cp_second_tsc :: u64
  cp_tsc_hz :: u64

record 'r setup_api =
  svc_mempool_found :: "string \<Rightarrow> bool"
  probe :: clock_probe
  ring_create :: "string \<Rightarrow> u16 \<Rightarrow> 'r \<Rightarrow> int \<times> 'r"
  timestamp_register :: "'r \<Rightarrow> u64 option \<times> 'r"
  dev_configure :: "u16 \<Rightarrow> u16 \<Rightarrow> u64 \<Rightarrow> bool \<Rightarrow> u64 \<Rightarrow> 'r \<Rightarrow> int \<times> 'r"
  adjust_nb_desc :: "u16 \<Rightarrow> u16 \<Rightarrow> 'r \<Rightarrow> (u16 \<times> u16) option \<times> 'r"
  rx_pool_create :: "string \<Rightarrow> nat \<Rightarrow> 'r \<Rightarrow> int \<times> 'r"
  rx_queue_setup :: "nat \<Rightarrow> u16 \<Rightarrow> u64 \<Rightarrow> 'r \<Rightarrow> int \<times> 'r"
  tx_queue_setup :: "nat \<Rightarrow> u16 \<Rightarrow> u64 \<Rightarrow> 'r \<Rightarrow> int \<times> 'r"
  dev_start :: "'r \<Rightarrow> int \<times> 'r"
  dev_stop :: "'r \<Rightarrow> int \<times> 'r"
  rx_offload_rss_hash :: u64

datatype setup_error =
    No_svc_mempool
  | Ring_failed nat
  | Configure_failed
  | Adjust_failed
  | Pool_failed
  | Rx_setup_failed nat
  | Tx_setup_failed nat

record 'b device =
  dv_config :: device_config
  dv_clock_bswap :: bool
  dv_timestamp_flag :: u64
  dv_sinks :: sink_dev
  dv_rx_jobs :: "rx_job list"
  dv_tx_jobs :: "'b tx_job list"
  dv_side :: tx_side
  dv_next_src_port :: u16

definition svc_mempool_name :: "nat \<Rightarrow> string" where
  "svc_mempool_name socket_id = ''svc_mempool_'' @ to_string (int socket_id)"

definition make_ring_name :: "u16 \<Rightarrow> nat \<Rightarrow> string" where
  "make_ring_name port_id queue_id = to_string (int (unat port_id)) @ '':'' @ to_string (int queue_id)"

abbreviation default_ring_size :: u16 where "default_ring_size \<equiv> 1024"
abbreviation nb_rx :: "device_config \<Rightarrow> u16" where "nb_rx c \<equiv> pc_nb_queues (di_rxportconf (dc_info c))"
abbreviation nb_tx :: "device_config \<Rightarrow> u16" where "nb_tx c \<equiv> pc_nb_queues (di_txportconf (dc_info c))"

definition has_feature :: "device_config \<Rightarrow> nat \<Rightarrow> bool" where
  "has_feature c i \<longleftrightarrow> bit (dc_features c) i"

section \<open>Adjusting the configuration\<close>

text \<open>Lines 190-203: \<open>dev_clock\<close> is feature 2.\<close>

definition setup_clock :: "clock_probe \<Rightarrow> device_config \<Rightarrow> (device_config \<times> bool) option" where
  "setup_clock p c =
     (if has_feature c 2 then
        map_option (\<lambda>(clock_hz, swap).
          (if clock_hz \<noteq> 0 then c\<lparr>dc_clock_hz := if dc_clock_hz c = 0 then clock_hz else dc_clock_hz c\<rparr>
           else c\<lparr>dc_features := unset_bit 2 (dc_features c), dc_clock_hz := 1000000000\<rparr>, swap))
          (estimate_clock_freq False (cp_first p) (cp_first_tsc p) (cp_second p) (cp_second_tsc p) (cp_tsc_hz p))
      else Some (c, False))"

text \<open>A change of both port configurations.\<close>

definition on_ports :: "(portconf \<Rightarrow> portconf) \<Rightarrow> (portconf \<Rightarrow> portconf) \<Rightarrow> device_config \<Rightarrow> device_config" where
  "on_ports f g c = c\<lparr>dc_info := (dc_info c)\<lparr>di_rxportconf := f (di_rxportconf (dc_info c)),
                                            di_txportconf := g (di_txportconf (dc_info c))\<rparr>\<rparr>"

text \<open>Lines 208-214.\<close>

definition default_burst :: "portconf \<Rightarrow> portconf" where
  "default_burst p = (if pc_burst_size p = 0 then p\<lparr>pc_burst_size := 32\<rparr> else p)"

definition clamp_flow_queues :: "device_config \<Rightarrow> device_config" where
  "clamp_flow_queues c =
     (if dc_rx_flow_queues c \<noteq> 0 \<and> dc_rx_flow_queues c > nb_rx c then c\<lparr>dc_rx_flow_queues := nb_rx c\<rparr> else c)"

definition setup_bursts :: "device_config \<Rightarrow> device_config" where
  "setup_bursts c = clamp_flow_queues (on_ports default_burst default_burst c)"

text \<open>Lines 253-259: the ring sizes, before and after the driver adjusted them.\<close>

definition default_ring :: "portconf \<Rightarrow> portconf" where
  "default_ring p = (if pc_ring_size p = 0 then p\<lparr>pc_ring_size := default_ring_size\<rparr> else p)"

definition default_rings :: "device_config \<Rightarrow> device_config" where
  "default_rings c = on_ports default_ring default_ring c"

definition set_rings :: "u16 \<Rightarrow> u16 \<Rightarrow> device_config \<Rightarrow> device_config" where
  "set_rings rx_size tx_size c = on_ports (pc_ring_size_update (\<lambda>_. rx_size)) (pc_ring_size_update (\<lambda>_. tx_size)) c"

section \<open>Queues and jobs\<close>

definition direct_tx_queues :: "device_config \<Rightarrow> u16" where
  "direct_tx_queues c = (if dc_tx_rings c > nb_tx c then 0 else nb_tx c - dc_tx_rings c)"

text \<open>The last \<open>rx_flow_queues\<close> receive queues take flow rules, the others get a receive job each.\<close>

definition flow_queue_ids :: "device_config \<Rightarrow> nat list" where
  "flow_queue_ids c = (if dc_rx_flow_queues c \<noteq> 0 then [unat (nb_rx c - dc_rx_flow_queues c)..<unat (nb_rx c)] else [])"

definition n_rss_queues :: "device_config \<Rightarrow> u16" where
  "n_rss_queues c = nb_rx c - dc_rx_flow_queues c"

definition make_rx_jobs :: "device_config \<Rightarrow> sink_dev \<Rightarrow> rx_job list" where
  "make_rx_jobs c d =
     map (\<lambda>q. make_rx_job q (unat (pc_burst_size (di_rxportconf (dc_info c)))) (dc_rx_reconfig_hint c) d)
       [0..<unat (n_rss_queues c)]"

definition tx_job_ids :: "device_config \<Rightarrow> nat list" where
  "tx_job_ids c = [unat (direct_tx_queues c)..<unat (nb_tx c)]"

text \<open>A call for each queue until one fails.\<close>

fun each_queue :: "(nat \<Rightarrow> 'r \<Rightarrow> int \<times> 'r) \<Rightarrow> nat list \<Rightarrow> 'r \<Rightarrow> nat option \<times> 'r" where
  "each_queue f [] r = (None, r)"
| "each_queue f (q # qs) r = (let (rc, r) = f q r in if rc \<noteq> 0 then (Some q, r) else each_queue f qs r)"

definition port_rx_offloads :: "'r setup_api \<Rightarrow> device_config \<Rightarrow> u64" where
  "port_rx_offloads api c =
     (if unat (n_rss_queues c) > 1 then dc_offload_rx c else dc_offload_rx c AND NOT (rx_offload_rss_hash api))"

definition port_rss :: "'r setup_api \<Rightarrow> device_config \<Rightarrow> bool" where
  "port_rss api c \<longleftrightarrow> unat (n_rss_queues c) > 1 \<and> dc_offload_rx c AND rx_offload_rss_hash api \<noteq> 0"

definition mbufs_per_pool :: "device_config \<Rightarrow> nat" where
  "mbufs_per_pool c = 2048 + unat (nb_rx c) * 250 + 2048 + max_pkt_burst"

section \<open>The constructor\<close>

text \<open>Lines 245-281, after the jobs exist: the calls that configure the port and its queues.\<close>

definition configure_port ::
  "'r setup_api \<Rightarrow> device_config \<Rightarrow> 'r \<Rightarrow> (setup_error + device_config \<times> u64) \<times> 'r" where
  "configure_port api c r =
     (let (flag, r) = timestamp_register api r; flag = (case flag of Some f \<Rightarrow> f | None \<Rightarrow> 0);
          (rc, r) = dev_configure api (nb_rx c) (nb_tx c) (port_rx_offloads api c) (port_rss api c) (dc_offload_tx c) r
      in if rc \<noteq> 0 then (Inl Configure_failed, r)
         else
           (let c = default_rings c
            in case adjust_nb_desc api (pc_ring_size (di_rxportconf (dc_info c))) (pc_ring_size (di_txportconf (dc_info c))) r of
                 (None, r) \<Rightarrow> (Inl Adjust_failed, r)
               | (Some (rx_size, tx_size), r) \<Rightarrow>
                   (let c = set_rings rx_size tx_size c; (rc, r) = rx_pool_create api (''rx_'' @ dc_id c) (mbufs_per_pool c) r
                    in if rc \<noteq> 0 then (Inl Pool_failed, r)
                       else case each_queue (\<lambda>q. rx_queue_setup api q rx_size (port_rx_offloads api c)) [0..<unat (nb_rx c)] r of
                         (Some q, r) \<Rightarrow> (Inl (Rx_setup_failed q), r)
                       | (None, r) \<Rightarrow>
                           (case each_queue (\<lambda>q. tx_queue_setup api q tx_size (dc_offload_tx c)) [0..<unat (nb_tx c)] r of
                              (Some q, r) \<Rightarrow> (Inl (Tx_setup_failed q), r)
                            | (None, r) \<Rightarrow> (Inr (c, flag), r)))))"

definition make_device ::
  "'r setup_api \<Rightarrow> 'b list \<Rightarrow> device_config \<Rightarrow> 'r \<Rightarrow> ((setup_error + 'b device) \<times> 'r) option" where
  "make_device api junk c0 r =
     (case setup_clock (probe api) c0 of
        None \<Rightarrow> None
      | Some (c, swap) \<Rightarrow>
          if \<not> svc_mempool_found api (svc_mempool_name (dc_socket_id c)) then Some (Inl No_svc_mempool, r)
          else
            (let c = setup_bursts c;
                 d = make_sinks (map (\<lambda>q. make_rx_queue (dc_port_id c) (of_nat q)) (flow_queue_ids c));
                 rx_jobs = make_rx_jobs c d
             in case each_queue (\<lambda>q. ring_create api (make_ring_name (dc_port_id c) q) default_ring_size) (tx_job_ids c) r of
                  (Some q, r) \<Rightarrow> Some (Inl (Ring_failed q), r)
                | (None, r) \<Rightarrow>
                    (let tx_jobs = map (\<lambda>q. make_tx_job junk q (q - unat (direct_tx_queues c)) (unat (pc_burst_size (di_txportconf (dc_info c))))) (tx_job_ids c)
                     in Some (case configure_port api c r of
                          (Inl e, r) \<Rightarrow> (Inl e, r)
                        | (Inr (c, flag), r) \<Rightarrow>
                            (let c = (if unat (dc_svc_tx_n c) > length tx_jobs then c\<lparr>dc_svc_tx_n := of_nat (length tx_jobs)\<rparr> else c)
                             in (Inr \<lparr>dv_config = c, dv_clock_bswap = swap, dv_timestamp_flag = flag, dv_sinks = d,
                                      dv_rx_jobs = rx_jobs, dv_tx_jobs = tx_jobs,
                                      dv_side = \<lparr>per_core_queue = (\<lambda>_. no_txq), tx_queues = direct_tx_queues c,
                                                 tx_jobs_n = length tx_jobs, svc_tx_n = unat (dc_svc_tx_n c)\<rparr>,
                                      dv_next_src_port = dc_next_src_port c0\<rparr>, r))))))"

section \<open>Jobs, start and stop\<close>

datatype job_ref = Rx_job nat | Flow_queue nat | Tx_job nat

definition device_rx_jobs :: "'b device \<Rightarrow> job_ref list" where
  "device_rx_jobs dev = map (Rx_job \<circ> rj_queue) (dv_rx_jobs dev)"

definition device_tx_jobs :: "'b device \<Rightarrow> job_ref list" where
  "device_tx_jobs dev = map (Tx_job \<circ> tj_queue_id) (dv_tx_jobs dev)"

definition device_jobs :: "'b device \<Rightarrow> job_ref list" where
  "device_jobs dev = device_rx_jobs dev @ map (Flow_queue \<circ> unat \<circ> fq_queue) (fqueues (dv_sinks dev)) @ device_tx_jobs dev"

text \<open>\<open>start\<close> of the queues in order; an exception leaves the rest as they are.\<close>

fun start_queues :: "'r flow_api \<Rightarrow> rx_queue list \<Rightarrow> 'r \<Rightarrow> error_code option \<times> rx_queue list \<times> 'r" where
  "start_queues fapi [] r = (None, [], r)"
| "start_queues fapi (q # qs) r =
     (case flow_start fapi q r of
        (Inl e, q, r) \<Rightarrow> (Some e, q # qs, r)
      | (Inr _, q, r) \<Rightarrow> (let (e, qs, r) = start_queues fapi qs r in (e, q # qs, r)))"

definition device_start ::
  "'r setup_api \<Rightarrow> 'r flow_api \<Rightarrow> 'b device \<Rightarrow> 'r \<Rightarrow> (error_code + int) \<times> 'b device \<times> 'r" where
  "device_start api fapi dev r =
     (let (res, r) = dev_start api r
      in if res = 0 then
           (case start_queues fapi (fqueues (dv_sinks dev)) r of (e, qs, r) \<Rightarrow>
              (case e of Some e \<Rightarrow> Inl e | None \<Rightarrow> Inr res,
               dev\<lparr>dv_sinks := (dv_sinks dev)\<lparr>fqueues := qs\<rparr>\<rparr>, r))
         else (Inr res, dev, r))"

definition device_stop :: "'r setup_api \<Rightarrow> 'r \<Rightarrow> int \<times> 'r" where
  "device_stop api r = dev_stop api r"

section \<open>The configuration after set-up\<close>

lemma setup_clock_fields:
  assumes "setup_clock p c = Some (c', swap)"
  shows "dc_info c' = dc_info c" "dc_rx_flow_queues c' = dc_rx_flow_queues c" "dc_tx_rings c' = dc_tx_rings c"
    "dc_clock_hz c' = 0 \<longleftrightarrow> \<not> has_feature c 2 \<and> dc_clock_hz c = 0"
proof -
  have on: "\<exists>f hz. c' = c\<lparr>dc_features := f, dc_clock_hz := hz\<rparr> \<and> hz \<noteq> 0" if feat: "has_feature c 2"
  proof -
    obtain hz where c': "c' = (if hz \<noteq> 0 then c\<lparr>dc_clock_hz := if dc_clock_hz c = 0 then hz else dc_clock_hz c\<rparr>
        else c\<lparr>dc_features := unset_bit 2 (dc_features c), dc_clock_hz := 1000000000\<rparr>)"
      using assms feat unfolding setup_clock_def by (auto simp only: if_True map_option_eq_Some prod.inject split: prod.splits)
    show ?thesis
    proof (cases "hz = 0")
      case True
      with c' have "c' = c\<lparr>dc_features := unset_bit 2 (dc_features c), dc_clock_hz := 1000000000\<rparr>" by (simp only: simp_thms if_False)
      moreover have "(1000000000 :: u64) \<noteq> 0" by simp
      ultimately show ?thesis by blast
    next
      case False
      with c' have "c' = c\<lparr>dc_features := dc_features c, dc_clock_hz := if dc_clock_hz c = 0 then hz else dc_clock_hz c\<rparr>" by simp
      moreover have "(if dc_clock_hz c = 0 then hz else dc_clock_hz c) \<noteq> 0" using False by simp
      ultimately show ?thesis by blast
    qed
  qed
  have off: "c' = c" if "\<not> has_feature c 2" using assms that unfolding setup_clock_def by simp
  from on off show "dc_info c' = dc_info c" by (cases "has_feature c 2") auto
  from on off show "dc_rx_flow_queues c' = dc_rx_flow_queues c" by (cases "has_feature c 2") auto
  from on off show "dc_tx_rings c' = dc_tx_rings c" by (cases "has_feature c 2") auto
  from on off show "dc_clock_hz c' = 0 \<longleftrightarrow> \<not> has_feature c 2 \<and> dc_clock_hz c = 0" by (cases "has_feature c 2") auto
qed

lemma on_ports_fields [simp]:
  "di_rxportconf (dc_info (on_ports f g c)) = f (di_rxportconf (dc_info c))"
  "di_txportconf (dc_info (on_ports f g c)) = g (di_txportconf (dc_info c))"
  "dc_clock_hz (on_ports f g c) = dc_clock_hz c" "dc_tx_rings (on_ports f g c) = dc_tx_rings c"
  "dc_rx_flow_queues (on_ports f g c) = dc_rx_flow_queues c" "dc_svc_tx_n (on_ports f g c) = dc_svc_tx_n c"
  by (simp_all add: on_ports_def)

lemma default_fields [simp]:
  "pc_nb_queues (default_burst p) = pc_nb_queues p" "pc_burst_size (default_burst p) \<noteq> 0"
  "pc_nb_queues (default_ring p) = pc_nb_queues p" "pc_ring_size (default_ring p) \<noteq> 0"
  by (simp_all add: default_burst_def default_ring_def)

lemma clamp_flow_queues_fields [simp]:
  "dc_info (clamp_flow_queues c) = dc_info c" "dc_clock_hz (clamp_flow_queues c) = dc_clock_hz c"
  "dc_tx_rings (clamp_flow_queues c) = dc_tx_rings c" "dc_svc_tx_n (clamp_flow_queues c) = dc_svc_tx_n c"
  by (simp_all add: clamp_flow_queues_def)

lemma clamp_flow_queues_le: "dc_rx_flow_queues (clamp_flow_queues c) \<le> nb_rx c"
  by (auto simp: clamp_flow_queues_def not_less)

lemma setup_bursts_fields:
  "nb_rx (setup_bursts c) = nb_rx c" "nb_tx (setup_bursts c) = nb_tx c" "dc_clock_hz (setup_bursts c) = dc_clock_hz c"
  "dc_tx_rings (setup_bursts c) = dc_tx_rings c" "dc_rx_flow_queues (setup_bursts c) \<le> nb_rx c"
  "pc_burst_size (di_rxportconf (dc_info (setup_bursts c))) \<noteq> 0" "pc_burst_size (di_txportconf (dc_info (setup_bursts c))) \<noteq> 0"
  using clamp_flow_queues_le [of "on_ports default_burst default_burst c"] by (simp_all add: setup_bursts_def)

lemma rings_fields [simp]:
  "nb_rx (set_rings a b c) = nb_rx c" "nb_tx (set_rings a b c) = nb_tx c" "dc_clock_hz (set_rings a b c) = dc_clock_hz c"
  "dc_tx_rings (set_rings a b c) = dc_tx_rings c"
  "nb_rx (default_rings c) = nb_rx c" "nb_tx (default_rings c) = nb_tx c" "dc_clock_hz (default_rings c) = dc_clock_hz c"
  "dc_tx_rings (default_rings c) = dc_tx_rings c"
  by (simp_all add: set_rings_def default_rings_def)

lemma configure_port_fields:
  assumes "configure_port api c r = (Inr (c', flag), r')"
  shows "nb_rx c' = nb_rx c \<and> nb_tx c' = nb_tx c \<and> dc_clock_hz c' = dc_clock_hz c \<and> dc_tx_rings c' = dc_tx_rings c"
proof -
  obtain a b where "c' = set_rings a b (default_rings c)"
    using assms by (auto simp: configure_port_def Let_def split: prod.splits option.splits if_splits)
  then show ?thesis by simp
qed

text \<open>What a constructed device is made of.\<close>

lemma make_device_parts:
  assumes "make_device api junk c0 r = Some (Inr dev, r')"
  obtains c swap c1 where "setup_clock (probe api) c0 = Some (c, swap)" and "c1 = setup_bursts c"
    and "nb_rx (dv_config dev) = nb_rx c1" and "nb_tx (dv_config dev) = nb_tx c1"
    and "dc_clock_hz (dv_config dev) = dc_clock_hz c1"
    and "fqueues (dv_sinks dev) = map (\<lambda>q. make_rx_queue (dc_port_id c1) (of_nat q)) (flow_queue_ids c1)"
    and "map rj_queue (dv_rx_jobs dev) = [0..<unat (n_rss_queues c1)]"
    and "map tj_queue_id (dv_tx_jobs dev) = tx_job_ids c1"
    and "tx_queues (dv_side dev) = direct_tx_queues c1"
    and "tx_jobs_n (dv_side dev) = length (dv_tx_jobs dev)" and "svc_tx_n (dv_side dev) \<le> length (dv_tx_jobs dev)"
    and "\<forall>j\<in>set (dv_rx_jobs dev). 0 < rj_burst j \<and> rj_burst j \<le> 2 * max_pkt_burst"
    and "dv_sinks dev = make_sinks (fqueues (dv_sinks dev))" and "dv_rx_jobs dev = make_rx_jobs c1 (dv_sinks dev)"
    and "\<forall>j\<in>set (dv_tx_jobs dev). \<exists>q ring. j = make_tx_job junk q ring (unat (pc_burst_size (di_txportconf (dc_info c1))))"
proof -
  obtain c swap where c: "setup_clock (probe api) c0 = Some (c, swap)"
    using assms by (auto simp: make_device_def split: option.splits)
  let ?c1 = "setup_bursts c"
  let ?d = "make_sinks (map (\<lambda>q. make_rx_queue (dc_port_id ?c1) (of_nat q)) (flow_queue_ids ?c1))"
  let ?tx = "map (\<lambda>q. make_tx_job junk q (q - unat (direct_tx_queues ?c1)) (unat (pc_burst_size (di_txportconf (dc_info ?c1))))) (tx_job_ids ?c1)"
  obtain r1 c2 flag r2 where p: "configure_port api ?c1 r1 = (Inr (c2, flag), r2)"
    and dev: "dev = \<lparr>dv_config = (if unat (dc_svc_tx_n c2) > length ?tx then c2\<lparr>dc_svc_tx_n := of_nat (length ?tx)\<rparr> else c2),
        dv_clock_bswap = swap, dv_timestamp_flag = flag, dv_sinks = ?d, dv_rx_jobs = make_rx_jobs ?c1 ?d, dv_tx_jobs = ?tx,
        dv_side = \<lparr>per_core_queue = (\<lambda>_. no_txq),
          tx_queues = direct_tx_queues (if unat (dc_svc_tx_n c2) > length ?tx then c2\<lparr>dc_svc_tx_n := of_nat (length ?tx)\<rparr> else c2),
          tx_jobs_n = length ?tx,
          svc_tx_n = unat (dc_svc_tx_n (if unat (dc_svc_tx_n c2) > length ?tx then c2\<lparr>dc_svc_tx_n := of_nat (length ?tx)\<rparr> else c2))\<rparr>,
        dv_next_src_port = dc_next_src_port c0\<rparr>"
    using assms c by (auto simp: make_device_def Let_def split: option.splits prod.splits if_splits sum.splits)
  note f = configure_port_fields [OF p]
  have "length ?tx < 65536" using unsigned_less [of "nb_tx ?c1", where 'a = nat] by (simp add: tx_job_ids_def)
  then have svc: "unat (of_nat (length ?tx) :: u16) = length ?tx" by (simp only: unat_of_nat_mod) simp
  show thesis
  proof (rule that [OF c refl])
    show "svc_tx_n (dv_side dev) \<le> length (dv_tx_jobs dev)" using svc unfolding dev by simp
    show "tx_queues (dv_side dev) = direct_tx_queues ?c1" unfolding dev using f by (simp add: direct_tx_queues_def)
    show "\<forall>j\<in>set (dv_rx_jobs dev). 0 < rj_burst j \<and> rj_burst j \<le> 2 * max_pkt_burst"
      unfolding dev using setup_bursts_fields(6) [of c] by (auto simp: make_rx_jobs_def make_rx_job_def unat_gt_0)
    show "\<forall>j\<in>set (dv_tx_jobs dev). \<exists>q ring. j = make_tx_job junk q ring (unat (pc_burst_size (di_txportconf (dc_info ?c1))))"
      unfolding dev by auto
  qed (use f in \<open>simp_all add: dev make_sinks_def make_rx_jobs_def make_rx_job_def make_tx_job_def o_def\<close>)
qed

section \<open>Properties\<close>

lemma flow_ids_append:
  assumes "dc_rx_flow_queues c \<le> nb_rx c"
  shows "[0..<unat (n_rss_queues c)] @ flow_queue_ids c = [0..<unat (nb_rx c)]"
proof -
  have n: "unat (nb_rx c - dc_rx_flow_queues c) = unat (nb_rx c) - unat (dc_rx_flow_queues c)"
    using assms by (rule unat_sub)
  show ?thesis
  proof (cases "dc_rx_flow_queues c = 0")
    case False
    have "[0..<unat (nb_rx c)] = [0..<unat (nb_rx c) - unat (dc_rx_flow_queues c)] @
        [unat (nb_rx c) - unat (dc_rx_flow_queues c)..<unat (nb_rx c)]"
      by (metis diff_le_self le_add_diff_inverse upt_add_eq_append zero_le)
    with False n show ?thesis by (simp add: n_rss_queues_def flow_queue_ids_def)
  qed (simp add: n_rss_queues_def flow_queue_ids_def)
qed

lemma direct_tx_queues_le: "direct_tx_queues c \<le> nb_tx c"
  by (auto simp: direct_tx_queues_def word_le_nat_alt unat_sub not_less)

text \<open>C29: a device that could be built uses every queue of its port exactly once: receive jobs take the
  first receive queues and flow queues the rest, direct transmit queues come first and transmit jobs
  take the rest. No job has an empty burst and the service rings are rings of transmit jobs.\<close>

theorem device_queue_layout:
  assumes "make_device api junk c r = Some (Inr dev, r')"
  shows "map rj_queue (dv_rx_jobs dev) @ map (unat \<circ> fq_queue) (fqueues (dv_sinks dev)) = [0..<unat (nb_rx (dv_config dev))]
       \<and> [0..<unat (tx_queues (dv_side dev))] @ map tj_queue_id (dv_tx_jobs dev) = [0..<unat (nb_tx (dv_config dev))]
       \<and> svc_tx_n (dv_side dev) \<le> length (dv_tx_jobs dev) \<and> tx_jobs_n (dv_side dev) = length (dv_tx_jobs dev)
       \<and> (\<forall>j\<in>set (dv_rx_jobs dev). 0 < rj_burst j)"
proof -
  from make_device_parts [OF assms] obtain c0 swap c1 where c1: "c1 = setup_bursts c0"
    and nb: "nb_rx (dv_config dev) = nb_rx c1" "nb_tx (dv_config dev) = nb_tx c1"
    and fq: "fqueues (dv_sinks dev) = map (\<lambda>q. make_rx_queue (dc_port_id c1) (of_nat q)) (flow_queue_ids c1)"
    and rx: "map rj_queue (dv_rx_jobs dev) = [0..<unat (n_rss_queues c1)]"
    and tx: "map tj_queue_id (dv_tx_jobs dev) = tx_job_ids c1" "tx_queues (dv_side dev) = direct_tx_queues c1"
    and n: "tx_jobs_n (dv_side dev) = length (dv_tx_jobs dev)" "svc_tx_n (dv_side dev) \<le> length (dv_tx_jobs dev)"
      "\<forall>j\<in>set (dv_rx_jobs dev). 0 < rj_burst j \<and> rj_burst j \<le> 2 * max_pkt_burst" .
  have "unat (nb_rx c1) < 65536" using unsigned_less [of "nb_rx c1", where 'a = nat] by simp
  then have "map (unat \<circ> fq_queue) (fqueues (dv_sinks dev)) = flow_queue_ids c1"
    unfolding fq by (auto simp: make_rx_queue_def flow_queue_ids_def unat_of_nat_mod intro!: map_idI)
  moreover have "[0..<unat (n_rss_queues c1)] @ flow_queue_ids c1 = [0..<unat (nb_rx c1)]"
    using setup_bursts_fields(1,5) [of c0] c1 by (intro flow_ids_append) simp
  moreover have "[0..<unat (direct_tx_queues c1)] @ tx_job_ids c1 = [0..<unat (nb_tx c1)]"
    using direct_tx_queues_le [of c1] unfolding tx_job_ids_def word_le_nat_alt
    by (metis le_add_diff_inverse upt_add_eq_append zero_le)
  ultimately show ?thesis using rx tx n nb by simp
qed

lemma clock_unset_lemma:
  assumes "make_device api junk c r = Some (Inr dev, r')"
  shows "timestamp_fix (dc_clock_hz (dv_config dev)) t = None \<longleftrightarrow> \<not> has_feature c 2 \<and> dc_clock_hz c = 0"
proof -
  from make_device_parts [OF assms] obtain c0 swap where c0: "setup_clock (probe api) c = Some (c0, swap)"
    and "dc_clock_hz (dv_config dev) = dc_clock_hz (setup_bursts c0)" by metis
  then have "dc_clock_hz (dv_config dev) = 0 \<longleftrightarrow> \<not> has_feature c 2 \<and> dc_clock_hz c = 0"
    using setup_clock_fields(4) [OF c0] by (simp add: setup_bursts_fields)
  then show ?thesis by (simp add: timestamp_fix_def mul_div_def)
qed

text \<open>A built device has clock frequency 0, for which every conversion of a hardware time stamp
  divides by zero, exactly when the configuration switches the device clock off and sets no frequency;
  the receive channel converts time stamps whether the clock is enabled or not.\<close>

theorem device_clock_unset:
  assumes "make_device api junk c r = Some (Inr dev, r')"
  shows "timestamp_fix (dc_clock_hz (dv_config dev)) t = None \<longleftrightarrow> \<not> has_feature c 2 \<and> dc_clock_hz c = 0"
  using assms by (rule clock_unset_lemma)

lemma start_queues_flows:
  "start_queues fapi qs r = (None, qs', r') \<Longrightarrow> length qs' = length qs \<and> (\<forall>q\<in>set qs'. fq_flows q \<noteq> [])"
proof (induction qs arbitrary: r qs' r')
  case (Cons q qs)
  obtain x q1 r1 where f: "flow_start fapi q r = (x, q1, r1)" by (cases "flow_start fapi q r")
  obtain e qs1 r2 where s: "start_queues fapi qs r1 = (e, qs1, r2)" by (cases "start_queues fapi qs r1")
  from Cons.prems f s have x: "x = Inr ()" "e = None" "qs' = q1 # qs1" by (auto split: sum.splits)
  have "fq_flows q1 \<noteq> []" using f x(1) by (auto simp: flow_start_def split: if_splits prod.splits option.splits)
  with Cons.IH [of r1 qs1] s x show ?case by simp
qed simp

text \<open>After a successful start every flow queue has a rule, so that the port directs no traffic to
  it by default; a failing queue stops the start with the error of the driver.\<close>

theorem device_start_flows:
  assumes "device_start api fapi dev r = (Inr 0, dev', r')"
  shows "length (fqueues (dv_sinks dev')) = length (fqueues (dv_sinks dev))
       \<and> (\<forall>q\<in>set (fqueues (dv_sinks dev')). fq_flows q \<noteq> [])"
proof -
  obtain res r1 where d: "dev_start api r = (res, r1)" by fastforce
  obtain e qs r2 where s: "start_queues fapi (fqueues (dv_sinks dev)) r1 = (e, qs, r2)"
    by (cases "start_queues fapi (fqueues (dv_sinks dev)) r1")
  have "res = 0" "e = None" "dev' = dev\<lparr>dv_sinks := (dv_sinks dev)\<lparr>fqueues := qs\<rparr>\<rparr>"
    using assms d s by (auto simp: device_start_def split: if_splits option.splits)
  with start_queues_flows [of fapi _ r1 qs r2] s show ?thesis by simp
qed

section \<open>Examples\<close>

text \<open>A port with four receive and four transmit queues on which every call succeeds; one flow queue and
  two transmit rings are configured, the device clock is off.\<close>

definition example_setup :: "'r setup_api" where
  "example_setup = \<lparr>svc_mempool_found = (\<lambda>_. True),
     probe = \<lparr>cp_first = None, cp_first_tsc = 0, cp_second = None, cp_second_tsc = 0, cp_tsc_hz = 1\<rparr>,
     ring_create = (\<lambda>_ _ r. (0, r)), timestamp_register = (\<lambda>r. (Some 1, r)),
     dev_configure = (\<lambda>_ _ _ _ _ r. (0, r)), adjust_nb_desc = (\<lambda>a b r. (Some (a, b), r)),
     rx_pool_create = (\<lambda>_ _ r. (0, r)), rx_queue_setup = (\<lambda>_ _ _ r. (0, r)), tx_queue_setup = (\<lambda>_ _ _ r. (0, r)),
     dev_start = (\<lambda>r. (0, r)), dev_stop = (\<lambda>r. (0, r)), rx_offload_rss_hash = 0x80000\<rparr>"

definition example_port :: portconf where
  "example_port = \<lparr>pc_nb_queues = 4, pc_burst_size = 0, pc_ring_size = 0\<rparr>"

definition example_info :: dev_info where
  "example_info = \<lparr>di_driver_name = ''net_igc'', di_max_rx_queues = 4, di_max_tx_queues = 4, di_rx_offload_capa = 6,
     di_tx_offload_capa = 6, di_rxportconf = example_port, di_txportconf = example_port\<rparr>"

definition example_device :: device_config where
  "example_device = (default_device 0 0 [2, 0, 0, 0, 0, 1] example_info 0)\<lparr>dc_rx_flow_queues := 1, dc_tx_rings := 2, dc_features := 0\<rparr>"

lemma example_device_built: "\<exists>dev r'. make_device example_setup junk example_device r = Some (Inr dev, r')"
proof -
  have e: "each_queue (\<lambda>q r. (0, r)) qs r = (None, r)" for qs and r :: 'b by (induction qs) auto
  have "setup_clock (probe example_setup) example_device = Some (example_device, False)"
    by (simp add: setup_clock_def has_feature_def example_device_def)
  then show ?thesis
    by (simp add: make_device_def configure_port_def Let_def e example_setup_def)
qed

theorem device_queue_layout_witness:
  "\<exists>dev r'. make_device example_setup ([] :: nat list) example_device () = Some (Inr dev, r')
     \<and> svc_tx_n (dv_side dev) \<le> length (dv_tx_jobs dev)"
proof -
  obtain dev r' where d: "make_device example_setup ([] :: nat list) example_device () = Some (Inr dev, r')"
    using example_device_built [of "[] :: nat list" "()"] by blast
  with device_queue_layout [OF d] show ?thesis by blast
qed

theorem device_clock_unset_witness:
  "\<exists>dev r'. make_device example_setup ([] :: nat list) example_device () = Some (Inr dev, r')
     \<and> timestamp_fix (dc_clock_hz (dv_config dev)) 5 = None"
proof -
  obtain dev r' where d: "make_device example_setup ([] :: nat list) example_device () = Some (Inr dev, r')"
    using example_device_built [of "[] :: nat list" "()"] by blast
  then show ?thesis
    using device_clock_unset [OF d, of 5] by (auto simp: has_feature_def example_device_def default_device_def)
qed

theorem device_start_flows_witness:
  "\<exists>q :: rx_queue. fqueues (dv_sinks (fst (snd (device_start example_setup example_flow_api
       \<lparr>dv_config = example_device, dv_clock_bswap = False, dv_timestamp_flag = 0, dv_sinks = make_sinks [make_rx_queue 0 3],
         dv_rx_jobs = [], dv_tx_jobs = ([] :: nat tx_job list), dv_side = example_side, dv_next_src_port = 0\<rparr> 0)))) = [q]
     \<and> fq_flows q \<noteq> []"
proof -
  let ?dev = "\<lparr>dv_config = example_device, dv_clock_bswap = False, dv_timestamp_flag = 0, dv_sinks = make_sinks [make_rx_queue 0 3],
         dv_rx_jobs = [], dv_tx_jobs = ([] :: nat tx_job list), dv_side = example_side, dv_next_src_port = 0\<rparr>"
  obtain dev' r' where d: "device_start example_setup example_flow_api ?dev 0 = (Inr 0, dev', r')"
    by (simp add: device_start_def example_setup_def example_flow_api_def flow_start_def make_udp_flow_def make_sinks_def
        make_rx_queue_def)
  from device_start_flows [OF d] d show ?thesis by (auto simp: make_sinks_def length_Suc_conv)
qed

end
