(* ===== verification/Device_Run.thy ===== *)
theory Device_Run
  imports Device_Setup
begin

text \<open>
  A device at work. The state is what the jobs and the application share: the table of sinks, the receive
  and transmit jobs, the ARP table and the environment. \<open>device_process\<close> is the virtual call of
  \<open>job::process\<close> that the scheduler makes; the relation \<open>device_step\<close> interleaves such calls with attaching
  and detaching channels (\<open>device::attach_rx\<close>, \<open>detach_rx\<close>) by the application and with changes of the
  environment. A call of a job is one step.
\<close>

section \<open>State and steps\<close>

record 'r run_env =
  re_net :: "'r net_api"
  re_rx :: "'r rx_api"
  re_flow :: "'r flow_api"
  re_errno :: int
  re_cfg :: dev_cfg
  re_side :: tx_side
  re_fuel :: nat
  re_junk :: "rte_mbuf list"

record 'r run_state =
  rn_sinks :: sink_dev
  rn_rx :: "rx_job list"
  rn_tx :: "rte_mbuf tx_job list"
  rn_arp :: arp_table
  rn_env :: 'r

text \<open>A job is known by its place in the vector of jobs of its kind.\<close>

datatype run_job = Run_rx nat | Run_tx nat

definition process_rx :: "'r run_env \<Rightarrow> nat \<Rightarrow> 'r run_state \<Rightarrow> job_state option \<times> 'r run_state" where
  "process_rx e i s =
     (case rx_job_process (re_net e) (re_rx e) (re_cfg e) (re_side e) (rn_sinks s) (re_fuel e) (re_junk e)
             \<lparr>rs_job = rn_rx s ! i, rs_arp = rn_arp s, rs_env = rn_env s\<rparr> of
        None \<Rightarrow> (None, s)
      | Some (st, log, t) \<Rightarrow>
          (Some st, s\<lparr>rn_rx := (rn_rx s)[i := rs_job t], rn_arp := rs_arp t, rn_env := rs_env t\<rparr>))"

definition process_tx :: "'r run_env \<Rightarrow> nat \<Rightarrow> 'r run_state \<Rightarrow> job_state option \<times> 'r run_state" where
  "process_tx e i s =
     (case tx_job_process (tx (re_net e)) (rn_tx s ! i) (rn_env s) of
        (st, job, r) \<Rightarrow> (Some st, s\<lparr>rn_tx := (rn_tx s)[i := job], rn_env := r\<rparr>))"

definition device_process :: "'r run_env \<Rightarrow> run_job \<Rightarrow> 'r run_state \<Rightarrow> job_state option \<times> 'r run_state" where
  "device_process e j s =
     (case j of
        Run_rx i \<Rightarrow> if i < length (rn_rx s) then process_rx e i s else (None, s)
      | Run_tx i \<Rightarrow> if i < length (rn_tx s) then process_tx e i s else (None, s))"

text \<open>\<open>detaching\<close> tells whether the application detaches channels.\<close>

inductive device_step :: "bool \<Rightarrow> 'r run_env \<Rightarrow> 'r run_state \<Rightarrow> 'r run_state \<Rightarrow> bool"
  for detaching :: bool and e :: "'r run_env" where
  Job: "device_process e j s = (Some st, s') \<Longrightarrow> device_step detaching e s s'"
| Attach: "attach_rx (re_net e) (re_flow e) (re_errno e) (re_cfg e) (re_side e) [] ep (Some c) mode (rn_sinks s) (rn_env s) =
      Some (out, d, r) \<Longrightarrow> device_step detaching e s (s\<lparr>rn_sinks := d, rn_env := r\<rparr>)"
| Detach: "detaching \<Longrightarrow>
      detach_rx (re_net e) (re_cfg e) (re_side e) [] ep (Some c) (rn_sinks s) (rn_env s) = Some (code, d, r) \<Longrightarrow>
      device_step detaching e s (s\<lparr>rn_sinks := d, rn_env := r\<rparr>)"
| Network: "device_step detaching e s (s\<lparr>rn_env := r\<rparr>)"

inductive device_run :: "bool \<Rightarrow> 'r run_env \<Rightarrow> 'r run_state \<Rightarrow> 'r run_state \<Rightarrow> bool"
  for detaching :: bool and e :: "'r run_env" and s0 :: "'r run_state" where
  Start: "device_run detaching e s0 s0"
| Step: "device_run detaching e s0 s \<Longrightarrow> device_step detaching e s s' \<Longrightarrow> device_run detaching e s0 s'"

text \<open>The state of a device that was just built.\<close>

definition run_start :: "rte_mbuf device \<Rightarrow> 'r \<Rightarrow> 'r run_state" where
  "run_start dev r = \<lparr>rn_sinks = dv_sinks dev, rn_rx = dv_rx_jobs dev, rn_tx = dv_tx_jobs dev,
     rn_arp = (\<lambda>_. None), rn_env = r\<rparr>"

section \<open>The invariant\<close>

text \<open>Every receive job reads a table that was published, inside its bounds; every transmit job is
  well-formed.\<close>

definition rx_wf :: "sink_dev \<Rightarrow> rx_job \<Rightarrow> bool" where
  "rx_wf d job \<longleftrightarrow> job_wf d job \<and> rj_sinks job < fresh_addr d"

definition run_wf :: "'r run_state \<Rightarrow> bool" where
  "run_wf s \<longleftrightarrow> sinks_wf (rn_sinks s) \<and> list_all (rx_wf (rn_sinks s)) (rn_rx s) \<and> list_all tx_job_wf (rn_tx s)"

lemma find_rx_channel_sinks:
  "find_rx_channel d p job = Some (ch, job') \<Longrightarrow> rj_sinks job' = rj_sinks job \<or> rj_sinks job' = sinks_addr d"
  by (auto simp: find_rx_channel_def try_reload_sinks_def Let_def split: if_splits)

lemma find_rx_channel_wf:
  "sinks_wf d \<Longrightarrow> rx_wf d job \<Longrightarrow> find_rx_channel d p job = Some (ch, job') \<Longrightarrow> rx_wf d job'"
  using find_rx_channel_correct_lemma [of d job p] find_rx_channel_sinks [of d p job ch job']
  by (auto simp: rx_wf_def sinks_wf_def)

lemma flush_recycle_job: "sc_job (flush_recycle api i s) = sc_job s"
  by (simp add: flush_recycle_def Let_def split: option.split prod.split)

lemma flush_ignore_job: "sc_job (flush_ignore api i s) = sc_job s"
  by (simp add: flush_ignore_def Let_def split: option.split prod.split)

lemma scan_burst_wf:
  "sinks_wf d \<Longrightarrow> scan_burst api d i k s = Some s' \<Longrightarrow> rx_wf d (sc_job s) \<Longrightarrow> rx_wf d (sc_job s')"
proof (induction k arbitrary: i s)
  case 0
  then show ?case by (auto simp: flush_ignore_job)
next
  case (Suc k)
  then obtain s1 where s1: "scan_packet api d i s = Some s1" "scan_burst api d (Suc i) k s1 = Some s'"
    by (auto split: option.splits)
  have "rx_wf d (sc_job s1)"
    using s1(1)
  proof (cases rule: scan_packet_cases)
    case dropped
    then show ?thesis using Suc.prems(3) by (simp add: drop_packet_def flush_ignore_job)
  next
    case (found job ch)
    then show ?thesis using find_rx_channel_wf [OF Suc.prems(1,3) found(1)]
      by (simp add: deliver_packet_def Let_def flush_recycle_job)
  next
    case (unknown job)
    then show ?thesis using find_rx_channel_wf [OF Suc.prems(1,3) unknown(1)]
      by (auto simp: post_packet_def flush_ignore_job split: if_splits)
  next
    case other
    then show ?thesis using Suc.prems(3) by (auto simp: post_packet_def flush_ignore_job split: if_splits)
  qed
  then show ?case using Suc.IH [OF Suc.prems(1) s1(2)] by blast
qed

lemma rx_wf_checkpoint [simp]: "rx_wf d (job\<lparr>rj_checkpoint := c\<rparr>) \<longleftrightarrow> rx_wf d job"
  by (simp add: rx_wf_def job_wf_def)

lemma rx_job_process_wf:
  assumes "sinks_wf d" and "rx_wf d (rs_job s)" and "rx_job_process napi api cfg side d fuel junk s = Some (st, log, s')"
  shows "rx_wf d (rs_job s')"
proof -
  let ?job = "snd (try_reload_sinks d (rs_job s))"
  have wf: "rx_wf d ?job"
    using assms(1,2) try_reload_wf [of d "rs_job s"] by (auto simp: rx_wf_def sinks_wf_def try_reload_sinks_def)
  obtain bs r where b: "eth_rx_burst api (rj_queue ?job) (rj_burst ?job) (rs_env s) = (bs, r)" by fastforce
  show ?thesis
  proof (cases "bs = []")
    case True
    with assms(3) b wf show ?thesis by (auto simp: rx_job_process_def Let_def)
  next
    case False
    with assms(3) b obtain bs' where u: "update_all fuel bs = Some bs'"
      by (auto simp: rx_job_process_def Let_def split: option.splits)
    let ?sc = "\<lparr>sc_arr = bs' @ drop (length bs) junk, sc_ready = 0, sc_channel = None,
         sc_post = length bs, sc_log = [], sc_job = ?job, sc_env = r\<rparr>"
    obtain sc where sc: "scan_burst api d 0 (length bs) ?sc = Some sc"
      using assms(3) b False u by (auto simp: rx_job_process_def Let_def split: option.splits)
    then have "rx_wf d (sc_job sc)" using scan_burst_wf [OF assms(1) sc] wf by simp
    then show ?thesis using assms(3) b False u sc
      by (auto simp: rx_job_process_def Let_def split: option.splits if_splits prod.splits)
  qed
qed

lemma device_process_wf:
  assumes "tx_api_ok (tx (re_net e))" and "run_wf s"
  shows "run_wf (snd (device_process e j s))"
proof (cases j)
  case (Run_rx i)
  have "rx_wf (rn_sinks s) (rs_job t)"
    if "i < length (rn_rx s)" and "rx_job_process (re_net e) (re_rx e) (re_cfg e) (re_side e) (rn_sinks s) (re_fuel e) (re_junk e)
      \<lparr>rs_job = rn_rx s ! i, rs_arp = rn_arp s, rs_env = rn_env s\<rparr> = Some (st, log, t)" for st log t
    using rx_job_process_wf [OF _ _ that(2)] that(1) assms(2) by (auto simp: run_wf_def list_all_length)
  with Run_rx assms(2) show ?thesis
    by (auto simp: device_process_def process_rx_def run_wf_def list_all_length nth_list_update split: option.split)
next
  case (Run_tx i)
  obtain bs r1 where off: "offered (tx (re_net e)) (rn_tx s ! i) (rn_env s) = (bs, r1)" by fastforce
  obtain sent r2 where snt: "eth_tx_burst (tx (re_net e)) (tj_queue_id (rn_tx s ! i)) bs r1 = (sent, r2)" by fastforce
  have "tx_job_wf job"
    if "i < length (rn_tx s)" "tx_job_process (tx (re_net e)) (rn_tx s ! i) (rn_env s) = (st, job, r)" for st job r
    using tx_job_process_spec(3) [OF assms(1) _ off snt that(2)] that(1) assms(2) by (auto simp: run_wf_def list_all_length)
  with Run_tx assms(2) show ?thesis
    by (auto simp: device_process_def process_tx_def run_wf_def list_all_length nth_list_update split: prod.split)
qed

text \<open>The device's jobs fulfil the contract of the scheduler.\<close>

interpretation device_jobs: steady_jobs "device_process e" "\<lambda>s. tx_api_ok (tx (re_net e)) \<longrightarrow> run_wf s" for e
  by unfold_locales (simp add: device_process_wf)


section \<open>Attaching keeps the invariant\<close>

definition same_tables :: "sink_dev \<Rightarrow> sink_dev \<Rightarrow> bool" where
  "same_tables d d' \<longleftrightarrow> vectors d' = vectors d \<and> sinks_addr d' = sinks_addr d \<and> fresh_addr d' = fresh_addr d"

definition new_table :: "sink_dev \<Rightarrow> sink_dev \<Rightarrow> bool" where
  "new_table d d' \<longleftrightarrow> (\<exists>e. sinks d' = sinks d @ [e]) \<and> fresh_addr d' = Suc (fresh_addr d)
     \<and> sinks_addr d' = fresh_addr d \<and> (\<forall>a. a \<noteq> fresh_addr d \<longrightarrow> vectors d' a = vectors d a)"

lemma attach_join_tables: "attach_join api cfg side ep d r = Some (out, d', r') \<Longrightarrow> same_tables d d'"
  by (auto simp: attach_join_def join_mcast_def same_tables_def Let_def split: if_splits option.splits)

lemma same_tables_trans: "same_tables d d1 \<Longrightarrow> same_tables d1 d' \<Longrightarrow> same_tables d d'"
  and new_same_tables: "new_table d d1 \<Longrightarrow> same_tables d1 d' \<Longrightarrow> new_table d d'"
  by (auto simp: same_tables_def new_table_def sinks_def)

lemma attach_rss_tables:
  assumes "(case attach_rss [] ep (Some c) d of (e, d1) \<Rightarrow>
      if failed e then Some (Returned e, d1, r) else attach_join api cfg side ep d1 r) = Some (out, d', r')"
  shows "new_table d d'"
proof -
  obtain e d1 where a: "attach_rss [] ep (Some c) d = (e, d1)" by fastforce
  note p = attach_rss_publish [OF a]
  have "new_table d d1" using p(2-5) by (auto simp: new_table_def)
  moreover have "same_tables d1 d'" using assms a p(1) by (auto intro: attach_join_tables)
  ultimately show ?thesis by (rule new_same_tables)
qed

lemma attach_rx_tables:
  assumes "attach_rx api fapi errno cfg side [] ep (Some c) mode d r = Some (out, d', r')"
  shows "same_tables d d' \<or> new_table d d'"
proof -
  let ?rss = "(case attach_rss [] ep (Some c) d of (e, d1) \<Rightarrow>
      if failed e then Some (Returned e, d1, r) else attach_join api cfg side ep d1 r)"
  have fq: "same_tables d (d\<lparr>fqueues := qs\<rparr>)" for qs by (simp add: same_tables_def)
  consider "?rss = Some (out, d', r')" | qs where "d' = d\<lparr>fqueues := qs\<rparr>" | "d' = d"
    | qs r1 where "attach_join api cfg side ep (d\<lparr>fqueues := qs\<rparr>) r1 = Some (out, d', r')"
    using assms by (auto simp: attach_rx_def Let_def split: if_splits option.splits prod.splits sum.splits)
  then show ?thesis
  proof cases
    case 1
    then show ?thesis by (intro disjI2) (rule attach_rss_tables)
  next
    case 4
    from same_tables_trans [OF fq attach_join_tables [OF this]] show ?thesis ..
  qed (simp_all add: fq same_tables_def)
qed

lemma rx_wf_same: "same_tables d d' \<Longrightarrow> rx_wf d job \<Longrightarrow> rx_wf d' job"
  by (simp add: rx_wf_def job_wf_def same_tables_def sinks_def)

lemma rx_wf_new:
  assumes "new_table d d'" and "rx_wf d job"
  shows "rx_wf d' job"
proof -
  have "sinks d \<noteq> []" using assms(2) by (auto simp: rx_wf_def job_wf_def)
  moreover have "vectors d' (rj_sinks job) = vectors d (rj_sinks job)" using assms by (simp add: rx_wf_def new_table_def)
  ultimately show ?thesis using assms by (auto simp: rx_wf_def job_wf_def new_table_def)
qed

lemma attach_wf:
  assumes "run_wf s" and "attach_rx api fapi errno cfg side [] ep (Some c) mode (rn_sinks s) r = Some (out, d, r')"
  shows "run_wf (s\<lparr>rn_sinks := d, rn_env := r'\<rparr>)"
proof -
  have t: "same_tables (rn_sinks s) d \<or> new_table (rn_sinks s) d" by (rule attach_rx_tables [OF assms(2)])
  then have "sinks_wf d" using assms(1) by (auto simp: run_wf_def sinks_wf_def same_tables_def new_table_def)
  moreover have "rx_wf (rn_sinks s) job \<Longrightarrow> rx_wf d job" for job using t rx_wf_same rx_wf_new by blast
  ultimately show ?thesis using assms(1) by (auto simp: run_wf_def list_all_iff)
qed

section \<open>Runs\<close>

lemma run_start_wf:
  assumes "make_device api junk c r = Some (Inr dev, r')" and "length junk = max_pkt_burst"
  shows "run_wf (run_start dev r')"
proof -
  from make_device_parts [OF assms(1)] obtain c0 c1 where c1: "c1 = setup_bursts c0"
    and parts: "dv_sinks dev = make_sinks (fqueues (dv_sinks dev))" "dv_rx_jobs dev = make_rx_jobs c1 (dv_sinks dev)"
    "\<forall>j\<in>set (dv_tx_jobs dev). \<exists>q ring. j = make_tx_job junk q ring (unat (pc_burst_size (di_txportconf (dc_info c1))))"
    by metis
  have t: "sinks_addr (dv_sinks dev) = 0" "fresh_addr (dv_sinks dev) = 1" "vectors (dv_sinks dev) = (\<lambda>_. [((0, 0), None)])"
    by (subst parts(1), simp add: make_sinks_def)+
  have "rx_wf (dv_sinks dev) j" if "j \<in> set (dv_rx_jobs dev)" for j
    using that unfolding parts(2) by (auto simp: make_rx_jobs_def make_rx_job_def rx_wf_def job_wf_def sinks_def t)
  moreover have "0 < unat (pc_burst_size (di_txportconf (dc_info c1)))"
    using setup_bursts_fields(7) [of c0] by (simp add: c1 unat_gt_0)
  then have "\<forall>j\<in>set (dv_tx_jobs dev). tx_job_wf j"
    using parts(3) by (auto simp: make_tx_job_wf assms(2))
  ultimately show ?thesis by (auto simp: run_wf_def run_start_def list_all_iff sinks_wf_def t)
qed

lemma device_step_wf:
  assumes "device_step False e s s'" and "tx_api_ok (tx (re_net e))" and "run_wf s"
  shows "run_wf s'"
  using assms
proof (cases rule: device_step.cases)
  case (Job j st)
  then show ?thesis using device_jobs.keep [of e s j] assms(2,3) by simp
next
  case (Attach ep c mode out d r)
  then show ?thesis using attach_wf [OF assms(3) Attach(2)] by simp
qed (simp_all add: run_wf_def)

lemma device_run_wf:
  "device_run False e s0 s \<Longrightarrow> tx_api_ok (tx (re_net e)) \<Longrightarrow> run_wf s0 \<Longrightarrow> run_wf s"
  by (induction rule: device_run.induct) (auto intro: device_step_wf)


text \<open>C7: no reader leaves its table: in every run of a device in which channels are attached but none is
  detached, with the jobs, the application and the network interleaved in any way, every receive job finds
  a channel or none for every port, inside the table it reads; transmit jobs stay well-formed. Attaching
  never disturbs a receive job, because it publishes a new table.\<close>

theorem run_never_leaves_table:
  assumes "make_device api junk c r0 = Some (Inr dev, r)" and "length junk = max_pkt_burst"
    and "tx_api_ok (tx (re_net e))" and "device_run False e (run_start dev r) s"
  shows "(\<forall>job \<in> set (rn_rx s). \<forall>port. find_rx_channel (rn_sinks s) port job \<noteq> None)
       \<and> (\<forall>job \<in> set (rn_tx s). tx_job_wf job)"
proof -
  have "run_wf s" by (rule device_run_wf [OF assms(4,3) run_start_wf [OF assms(1,2)]])
  then have wf: "\<forall>job \<in> set (rn_rx s). job_wf (rn_sinks s) job" "\<forall>job \<in> set (rn_tx s). tx_job_wf job"
    by (simp_all add: run_wf_def list_all_iff rx_wf_def)
  have "find_rx_channel (rn_sinks s) port job \<noteq> None" if "job \<in> set (rn_rx s)" for job port
    using find_rx_channel_correct_lemma [of "rn_sinks s" job port] wf(1) that by auto
  with wf(2) show ?thesis by blast
qed

text \<open>The scheduler keeps a device well-formed: whatever jobs of the device \<open>run_jobs\<close> runs, for as long
  as it runs them, and however it is left.\<close>

theorem run_jobs_keeps_device:
  assumes "tx_api_ok (tx (re_net e))" and "run_wf s" and "length jobs \<noteq> 1"
    and "run_jobs fuel running (device_process e) exclusive jobs s = Some (jobs', s')"
  shows "run_wf s'"
proof -
  have "run_loop fuel (running \<circ> snd) (run_jobs_once (device_process e)) 0 (jobs, s) = Some (jobs', s')"
    using assms(3,4) by (auto simp: run_jobs_def split: list.splits)
  from device_jobs.run_loop_inv [OF this] assms(1,2) show ?thesis by simp
qed

text \<open>C36: detaching takes a table away from its readers: when the last entry of the published table is
  detached while a receive job's last hit is that entry, one step leads to a state in which the job reads
  behind the end of the table for every port.\<close>

theorem detach_faults_reader:
  assumes "run_wf s" and "job \<in> set (rn_rx s)" and "rj_sinks job = sinks_addr (rn_sinks s)"
    and "sinks (rn_sinks s) ! rj_last job = (ep, Some c)" and "Suc (rj_last job) = length (sinks (rn_sinks s))"
    and "find_sink (sinks (rn_sinks s)) (snd ep) = rj_last job" and "\<not> is_ipv4_mcast (re_net e) (bswap (fst ep))"
  shows "\<exists>s'. device_step True e s s' \<and> job \<in> set (rn_rx s') \<and> (\<forall>port. find_rx_channel (rn_sinks s') port job = None)"
proof -
  let ?d = "erase_sink (sinks_addr (rn_sinks s)) (rj_last job) (rn_sinks s)"
  have "detach_loop [] 0 ep (Some c) (rn_sinks s) = (None, ?d)"
    using assms(4-6) by (subst detach_loop.simps) (simp add: Let_def)
  then have "detach_rx (re_net e) (re_cfg e) (re_side e) [] ep (Some c) (rn_sinks s) (rn_env s) = Some (No_error, ?d, rn_env s)"
    using assms(7) by (simp add: detach_rx_def)
  from device_step.Detach [OF TrueI this] have "device_step True e s (s\<lparr>rn_sinks := ?d, rn_env := rn_env s\<rparr>)" .
  moreover have "length (vectors ?d (rj_sinks job)) = rj_last job"
    using assms(3,5) by (simp add: erase_sink_def sinks_def)
  ultimately show ?thesis using assms(2)
    by (intro exI [of _ "s\<lparr>rn_sinks := ?d, rn_env := rn_env s\<rparr>"]) (simp add: find_rx_channel_def)
qed


text \<open>A run in which a channel is attached to a new device.\<close>

definition example_env :: "rte_mbuf list run_env" where
  "example_env = \<lparr>re_net = example_net, re_rx = example_rx,
     re_flow = \<lparr>flow_create = (\<lambda>_ _ _ r. (Some 1, \<lparr>fe_type = 0, fe_message = None\<rparr>, r)),
                flow_destroy = (\<lambda>_ _ r. (0, \<lparr>fe_type = 0, fe_message = None\<rparr>, r))\<rparr>,
     re_errno = 1000, re_cfg = example_cfg, re_side = example_side, re_fuel = 200,
     re_junk = replicate 512 (example_frame (\<lambda>_. 0) 0)\<rparr>"

lemma example_env_ok: "tx_api_ok (tx (re_net example_env))"
  by (simp add: example_env_def example_net_def tx_api_ok_def)

lemma example_attach:
  "attach_rx (re_net example_env) (re_flow example_env) (re_errno example_env) (re_cfg example_env) (re_side example_env) []
     (0x0100000a, 8) (Some 3) rss d r = Some (Returned No_error, snd (attach_rss [] (0x0100000a, 8) (Some 3) d), r)"
  by (simp add: attach_rx_def attach_join_def example_env_def example_net_def word_eval)

theorem run_never_leaves_table_witness:
  "\<exists>dev r s. make_device example_setup (replicate 256 (example_frame (\<lambda>_. 0) 0)) example_device [] = Some (Inr dev, r)
     \<and> device_run False example_env (run_start dev r) s \<and> sinks (rn_sinks s) \<noteq> sinks (dv_sinks dev)
     \<and> (\<forall>job \<in> set (rn_rx s). find_rx_channel (rn_sinks s) 8 job \<noteq> None)"
proof -
  let ?junk = "replicate 256 (example_frame (\<lambda>_. 0) 0)"
  obtain dev and r :: "rte_mbuf list" where d: "make_device example_setup ?junk example_device [] = Some (Inr dev, r)"
    using example_device_built [of ?junk "[]"] by blast
  let ?s = "(run_start dev r)\<lparr>rn_sinks := snd (attach_rss [] (0x0100000a, 8) (Some 3) (rn_sinks (run_start dev r))),
      rn_env := rn_env (run_start dev r)\<rparr>"
  have run: "device_run False example_env (run_start dev r) ?s"
    by (rule device_run.Step [OF device_run.Start device_step.Attach [OF example_attach]])
  moreover have "sinks (rn_sinks ?s) \<noteq> sinks (dv_sinks dev)" by (simp add: run_start_def sinks_def)
  moreover have "\<forall>job \<in> set (rn_rx ?s). find_rx_channel (rn_sinks ?s) 8 job \<noteq> None"
    using run_never_leaves_table [OF d _ example_env_ok run] by simp
  ultimately show ?thesis using d by blast
qed

definition example_run :: "rte_mbuf list run_state" where
  "example_run = \<lparr>rn_sinks = example_table, rn_rx = [(make_rx_job 0 32 1001 example_table)\<lparr>rj_last := 1\<rparr>], rn_tx = [],
     rn_arp = (\<lambda>_. None), rn_env = []\<rparr>"

lemma example_run_wf: "run_wf example_run"
  by (simp add: run_wf_def example_run_def rx_wf_def job_wf_def sinks_wf_def example_table_def sinks_def make_sinks_def make_rx_job_def)

theorem detach_faults_reader_witness:
  "\<exists>s'. device_step True example_env example_run s' \<and> (\<exists>job \<in> set (rn_rx s'). find_rx_channel (rn_sinks s') 8 job = None)"
proof -
  let ?job = "(make_rx_job 0 32 1001 example_table)\<lparr>rj_last := 1\<rparr>"
  have step: "\<exists>s'. device_step True example_env example_run s' \<and> ?job \<in> set (rn_rx s')
      \<and> (\<forall>port. find_rx_channel (rn_sinks s') port ?job = None)"
    by (rule detach_faults_reader [OF example_run_wf, of ?job "(7, 8)" 3])
      (simp_all add: example_run_def make_rx_job_def example_table_def sinks_def make_sinks_def find_sink_def
        example_env_def example_net_def word_eval)
  then show ?thesis by blast
qed

theorem run_jobs_keeps_device_witness:
  "\<exists>jobs' s'. run_jobs 1 (\<lambda>_. False) (device_process example_env) (\<lambda>_ s. Some s) [Run_rx 0, Run_tx 0] example_run = Some (jobs', s')
     \<and> run_wf s'"
  using run_jobs_keeps_device [OF example_env_ok example_run_wf, of "[Run_rx 0, Run_tx 0]" 1 "\<lambda>_. False" "\<lambda>_ s. Some s"]
  by (simp add: run_jobs_def)

end
