(* ===== verification/Device_Life.thy ===== *)
theory Device_Life
  imports Device_Setup
begin

text \<open>
  The life of a device: what the constructor of \<open>dpdkx::device\<close> acquires, what unwinding releases when it
  throws, and what the destructor \<open>device::~device\<close> with the destructors of the members releases
  (\<open>dpdkx/device.cpp\<close>, \<open>dpdkx/detail/tx_ring.cpp\<close>, \<open>dpdkx/mempool.cpp\<close>, \<open>dpdkx/flow/rx_queue.cpp\<close>). The
  members are destroyed in the reverse order of their declaration in \<open>dpdkx/device.hpp\<close>: flow queues, transmit
  jobs with their rings, receive jobs, the pool of received packets. The releasing calls of DPDK are fields of
  \<open>life_api\<close>.
\<close>

section \<open>Releasing\<close>

record 'r life_api =
  ring_free :: "string \<Rightarrow> 'r \<Rightarrow> 'r"
  pool_free :: "string \<Rightarrow> 'r \<Rightarrow> 'r"
  dev_close :: "'r \<Rightarrow> 'r"

definition rx_pool_name :: "device_config \<Rightarrow> string" where
  "rx_pool_name c = ''rx_'' @ dc_id c"

text \<open>\<open>tx_ring::~tx_ring\<close> for the jobs of the given queues.\<close>

fun free_rings :: "'r life_api \<Rightarrow> u16 \<Rightarrow> nat list \<Rightarrow> 'r \<Rightarrow> 'r" where
  "free_rings lapi port [] r = r"
| "free_rings lapi port (q # qs) r = free_rings lapi port qs (ring_free lapi (make_ring_name port q) r)"

text \<open>What the members own when the constructor throws: the jobs built before a failing ring, all jobs
  later on, and the pool once it exists.\<close>

definition unwound_rings :: "device_config \<Rightarrow> setup_error \<Rightarrow> nat list" where
  "unwound_rings c e =
     (case e of No_svc_mempool \<Rightarrow> [] | Ring_failed q \<Rightarrow> takeWhile (\<lambda>p. p \<noteq> q) (tx_job_ids c) | _ \<Rightarrow> tx_job_ids c)"

definition owns_pool :: "setup_error \<Rightarrow> bool" where
  "owns_pool e \<longleftrightarrow> (case e of Rx_setup_failed q \<Rightarrow> True | Tx_setup_failed q \<Rightarrow> True | _ \<Rightarrow> False)"

definition device_unwind :: "'r life_api \<Rightarrow> device_config \<Rightarrow> setup_error \<Rightarrow> 'r \<Rightarrow> 'r" where
  "device_unwind lapi c e r =
     (let r = free_rings lapi (dc_port_id c) (unwound_rings c e) r
      in if owns_pool e then pool_free lapi (rx_pool_name c) r else r)"

definition construct ::
  "'r setup_api \<Rightarrow> 'r life_api \<Rightarrow> 'b list \<Rightarrow> device_config \<Rightarrow> 'r \<Rightarrow> ((setup_error + 'b device) \<times> 'r) option" where
  "construct api lapi junk c r =
     (case make_device api junk c r of
        None \<Rightarrow> None
      | Some (Inl e, r) \<Rightarrow> Some (Inl e, device_unwind lapi c e r)
      | Some (Inr dev, r) \<Rightarrow> Some (Inr dev, r))"

text \<open>\<open>rx_queue::~rx_queue\<close> of every flow queue.\<close>

fun reset_queues :: "'r flow_api \<Rightarrow> rx_queue list \<Rightarrow> 'r \<Rightarrow> 'r" where
  "reset_queues fapi [] r = r"
| "reset_queues fapi (q # qs) r = reset_queues fapi qs (snd (flow_reset fapi q r))"

definition destroy :: "'r setup_api \<Rightarrow> 'r flow_api \<Rightarrow> 'r life_api \<Rightarrow> 'b device \<Rightarrow> 'r \<Rightarrow> 'r" where
  "destroy api fapi lapi dev r =
     (let (rc, r) = device_stop api r;
          r = dev_close lapi r;
          r = reset_queues fapi (fqueues (dv_sinks dev)) r;
          r = free_rings lapi (dc_port_id (dv_config dev)) (map tj_queue_id (dv_tx_jobs dev)) r
      in pool_free lapi (rx_pool_name (dv_config dev)) r)"

section \<open>Accounting\<close>

datatype resource = Ring string | Pool string

text \<open>\<open>held r\<close>: the rings and pools that exist in the environment. The documented behaviour of DPDK: creating
  adds one on success, freeing removes it, the other calls do neither.\<close>

definition life_ok ::
  "'r setup_api \<Rightarrow> 'r flow_api \<Rightarrow> 'r life_api \<Rightarrow> ('r \<Rightarrow> resource multiset) \<Rightarrow> bool" where
  "life_ok api fapi lapi held \<longleftrightarrow>
     (\<forall>name n r. held (snd (ring_create api name n r)) = held r + (if fst (ring_create api name n r) = 0 then {#Ring name#} else {#}))
   \<and> (\<forall>name n r. held (snd (rx_pool_create api name n r)) = held r + (if fst (rx_pool_create api name n r) = 0 then {#Pool name#} else {#}))
   \<and> (\<forall>name r. held (ring_free lapi name r) = held r - {#Ring name#})
   \<and> (\<forall>name r. held (pool_free lapi name r) = held r - {#Pool name#})
   \<and> (\<forall>r. held (snd (timestamp_register api r)) = held r)
   \<and> (\<forall>a b c d e r. held (snd (dev_configure api a b c d e r)) = held r)
   \<and> (\<forall>a b r. held (snd (adjust_nb_desc api a b r)) = held r)
   \<and> (\<forall>q n flags r. held (snd (rx_queue_setup api q n flags r)) = held r)
   \<and> (\<forall>q n flags r. held (snd (tx_queue_setup api q n flags r)) = held r)
   \<and> (\<forall>r. held (snd (dev_stop api r)) = held r) \<and> (\<forall>r. held (dev_close lapi r) = held r)
   \<and> (\<forall>port f r. held (snd (snd (flow_destroy fapi port f r))) = held r)"

abbreviation rings :: "u16 \<Rightarrow> nat list \<Rightarrow> resource multiset" where
  "rings port qs \<equiv> mset (map (Ring \<circ> make_ring_name port) qs)"

text \<open>The same, for calls whose result is known.\<close>

lemma life_okD:
  assumes "life_ok api fapi lapi held"
  shows "ring_create api name n r = (rc, r') \<Longrightarrow> held r' = held r + (if rc = 0 then {#Ring name#} else {#})"
    and "rx_pool_create api name k r = (rc, r') \<Longrightarrow> held r' = held r + (if rc = 0 then {#Pool name#} else {#})"
    and "held (ring_free lapi name r) = held r - {#Ring name#}" and "held (pool_free lapi name r) = held r - {#Pool name#}"
    and "timestamp_register api r = (flag, r') \<Longrightarrow> held r' = held r"
    and "dev_configure api a b c d e r = (rc, r') \<Longrightarrow> held r' = held r"
    and "adjust_nb_desc api a b r = (sizes, r') \<Longrightarrow> held r' = held r"
    and "rx_queue_setup api q n flags r = (rc, r') \<Longrightarrow> held r' = held r"
    and "tx_queue_setup api q n flags r = (rc, r') \<Longrightarrow> held r' = held r"
    and "dev_stop api r = (rc, r') \<Longrightarrow> held r' = held r" and "held (dev_close lapi r) = held r"
    and "flow_destroy fapi port f r = (rc, err, r') \<Longrightarrow> held r' = held r"
  using assms unfolding life_ok_def by (metis fst_conv snd_conv)+

lemma each_queue_failed: "each_queue f qs r = (Some q, r') \<Longrightarrow> q \<in> set qs"
  by (induction qs arbitrary: r) (auto simp: Let_def split: prod.splits if_splits)

lemma each_queue_keeps:
  assumes "\<And>q r rc r'. f q r = (rc, r') \<Longrightarrow> held r' = held r" and "each_queue f qs r = (res, r')"
  shows "held r' = held r"
  using assms(2)
proof (induction qs arbitrary: r)
  case (Cons q qs)
  then show ?case using assms(1) by (auto simp: Let_def split: prod.splits if_splits)
qed simp

lemma each_queue_rings:
  assumes "life_ok api fapi lapi held" and "distinct qs"
    and "each_queue (\<lambda>q. ring_create api (make_ring_name port q) n) qs r = (res, r')"
  shows "held r' = held r + rings port (case res of None \<Rightarrow> qs | Some q \<Rightarrow> takeWhile (\<lambda>p. p \<noteq> q) qs)"
  using assms(2,3)
proof (induction qs arbitrary: r)
  case (Cons q qs)
  obtain rc r1 where c: "ring_create api (make_ring_name port q) n r = (rc, r1)" by fastforce
  note h = life_okD(1) [OF assms(1) c]
  show ?case
  proof (cases "rc = 0")
    case True
    with Cons.prems c have e: "each_queue (\<lambda>q. ring_create api (make_ring_name port q) n) qs r1 = (res, r')" by simp
    have "res \<noteq> Some q" using each_queue_failed [of _ qs r1] e Cons.prems(1) by auto
    with Cons.IH [OF _ e] Cons.prems(1) h True show ?thesis by (auto split: option.splits)
  qed (use Cons.prems c h in auto)
qed simp

lemma configure_port_held:
  assumes "life_ok api fapi lapi held" and "configure_port api c r = (res, r')"
  shows "held r' = held r + (if case res of Inl e \<Rightarrow> owns_pool e | Inr _ \<Rightarrow> True then {#Pool (rx_pool_name c)#} else {#})"
proof -
  note keep = life_okD(5-9) [OF assms(1)]
  have name: "dc_id (set_rings a b (default_rings c)) = dc_id c" for a b
    by (simp add: set_rings_def default_rings_def on_ports_def)
  show ?thesis
    using assms(2) unfolding configure_port_def Let_def
    by (auto split: prod.splits if_splits option.splits dest!: keep life_okD(2) [OF assms(1)]
        each_queue_keeps [where held = held, rotated] simp: owns_pool_def rx_pool_name_def name)
qed

lemma free_rings_held:
  assumes "life_ok api fapi lapi held"
  shows "held (free_rings lapi port qs r) = held r - rings port qs"
  by (induction qs arbitrary: r) (simp_all add: life_okD(3) [OF assms] diff_diff_add_mset add.commute)

lemma reset_queues_held:
  assumes "life_ok api fapi lapi held"
  shows "held (reset_queues fapi qs r) = held r"
proof -
  have d: "destroy_flows fapi port fs r = (kept, r') \<Longrightarrow> held r' = held r" for port fs r kept r'
  proof (induction fs arbitrary: r kept)
    case (Cons f fs)
    then show ?case by (auto simp: Let_def split: prod.splits dest!: life_okD(12) [OF assms])
  qed simp
  have "held (snd (flow_reset fapi q r)) = held r" for q r
    by (auto simp: flow_reset_def split: prod.splits dest: d)
  then show ?thesis by (induction qs arbitrary: r) simp_all
qed

lemma setup_names:
  assumes "setup_clock p c = Some (c', swap)"
  shows "dc_port_id (setup_bursts c') = dc_port_id c" "dc_id (setup_bursts c') = dc_id c"
    "tx_job_ids (setup_bursts c') = tx_job_ids c"
proof -
  have c': "dc_port_id c' = dc_port_id c" "dc_id c' = dc_id c"
    using assms by (auto simp: setup_clock_def split: if_splits)
  moreover have "nb_tx c' = nb_tx c" "dc_tx_rings c' = dc_tx_rings c"
    using setup_clock_fields [OF assms] by simp_all
  ultimately show "dc_port_id (setup_bursts c') = dc_port_id c" "dc_id (setup_bursts c') = dc_id c"
    "tx_job_ids (setup_bursts c') = tx_job_ids c"
    using setup_bursts_fields(2,4) [of c'] 
    by (simp_all add: tx_job_ids_def direct_tx_queues_def) (simp_all add: setup_bursts_def clamp_flow_queues_def on_ports_def)
qed

definition device_resources :: "'b device \<Rightarrow> resource multiset" where
  "device_resources dev =
     rings (dc_port_id (dv_config dev)) (map tj_queue_id (dv_tx_jobs dev)) + {#Pool (rx_pool_name (dv_config dev))#}"

definition left_behind :: "device_config \<Rightarrow> setup_error \<Rightarrow> resource multiset" where
  "left_behind c e =
     rings (dc_port_id c) (unwound_rings c e) + (if owns_pool e then {#Pool (rx_pool_name c)#} else {#})"

lemma make_device_held:
  assumes "life_ok api fapi lapi held" and "make_device api junk c r = Some (res, r')"
  shows "held r' = held r + (case res of Inl e \<Rightarrow> left_behind c e | Inr dev \<Rightarrow> device_resources dev)"
proof -
  obtain c1 swap where c1: "setup_clock (probe api) c = Some (c1, swap)"
    using assms(2) by (auto simp: make_device_def split: option.splits)
  note names = setup_names [OF c1]
  show ?thesis
  proof (cases "svc_mempool_found api (svc_mempool_name (dc_socket_id c1))")
    case False
    with assms(2) c1 show ?thesis by (auto simp: make_device_def left_behind_def unwound_rings_def owns_pool_def)
  next
    case True
    let ?c = "setup_bursts c1"
    obtain q r1 where ring: "each_queue (\<lambda>q. ring_create api (make_ring_name (dc_port_id ?c) q) default_ring_size)
        (tx_job_ids ?c) r = (q, r1)" by fastforce
    have d: "distinct (tx_job_ids ?c)" by (simp add: tx_job_ids_def)
    note h1 = each_queue_rings [OF assms(1) d ring]
    show ?thesis
    proof (cases q)
      case (Some q')
      with assms(2) c1 True ring h1 names show ?thesis
        by (auto simp: make_device_def Let_def left_behind_def unwound_rings_def owns_pool_def)
    next
      case None
      obtain res' r2 where port: "configure_port api ?c r1 = (res', r2)" by fastforce
      note h2 = configure_port_held [OF assms(1) port]
      have conf: "dc_port_id c' = dc_port_id ?c" "dc_id c' = dc_id ?c" if "res' = Inr (c', flag)" for c' flag
        using port that by (auto simp: configure_port_def Let_def set_rings_def default_rings_def on_ports_def
            split: prod.splits option.splits if_splits)
      have err: "unwound_rings c e = tx_job_ids c" if "res' = Inl e" for e
        using port that by (auto simp: configure_port_def Let_def unwound_rings_def split: prod.splits option.splits if_splits)
      show ?thesis
      proof (cases res')
        case (Inl e)
        with assms(2) c1 True ring port None have "res = Inl e" "r' = r2" by (simp_all add: make_device_def Let_def)
        with Inl None h1 h2 names err show ?thesis by (simp add: left_behind_def rx_pool_name_def)
      next
        case (Inr cf)
        obtain c' flag where cf: "cf = (c', flag)" by fastforce
        with assms(2) c1 True ring port None Inr obtain dev where dev: "res = Inr dev" "r' = r2"
          "map tj_queue_id (dv_tx_jobs dev) = tx_job_ids ?c" "dc_port_id (dv_config dev) = dc_port_id c'" "dc_id (dv_config dev) = dc_id c'"
          by (auto simp: make_device_def Let_def o_def make_tx_job_def)
        moreover have "dc_port_id c' = dc_port_id c" "dc_id c' = dc_id c" using conf [of c' flag] Inr cf names by simp_all
        ultimately show ?thesis
          using Inr None h1 h2 names by (simp add: device_resources_def rx_pool_name_def del: mset_map)
      qed
    qed
  qed
qed

section \<open>Nothing is left behind\<close>

text \<open>C16: a device leaves no ring and no pool behind. A constructor that throws, at whichever call, releases
  what it had acquired; a constructor that succeeds holds one ring for every transmit job and one pool, and
  the destructor releases exactly these, whatever was started, stopped, sent or attached in between.\<close>

theorem device_life_balanced:
  assumes "life_ok api fapi lapi held" and "construct api lapi junk c r = Some (res, r1)"
  shows "case res of
      Inl e \<Rightarrow> held r1 = held r
    | Inr dev \<Rightarrow> held r1 = held r + device_resources dev
        \<and> (\<forall>r2 dev'. held r2 = held r1 + others \<and> dv_config dev' = dv_config dev
             \<and> map tj_queue_id (dv_tx_jobs dev') = map tj_queue_id (dv_tx_jobs dev) \<longrightarrow>
             held (destroy api fapi lapi dev' r2) = held r + others)"
proof -
  obtain res' r' where m: "make_device api junk c r = Some (res', r')"
    using assms(2) by (auto simp: construct_def split: option.splits)
  note h = make_device_held [OF assms(1) m]
  show ?thesis
  proof (cases res')
    case (Inl e)
    with assms(2) m have "res = Inl e" "r1 = device_unwind lapi c e r'" by (simp_all add: construct_def)
    with Inl h show ?thesis
      by (simp add: device_unwind_def left_behind_def Let_def free_rings_held [OF assms(1)] life_okD(4) [OF assms(1)])
  next
    case (Inr dev)
    with assms(2) m have r: "res = Inr dev" "r1 = r'" by (simp_all add: construct_def)
    have "held (destroy api fapi lapi dev' r2) = held r + others"
      if "held r2 = held r1 + others" "dv_config dev' = dv_config dev"
        "map tj_queue_id (dv_tx_jobs dev') = map tj_queue_id (dv_tx_jobs dev)" for r2 dev'
    proof -
      obtain rc r3 where "dev_stop api r2 = (rc, r3)" by fastforce
      with life_okD(10) [OF assms(1) this] that h Inr r show ?thesis
        by (simp add: destroy_def device_stop_def device_resources_def free_rings_held [OF assms(1)] life_okD(4,11) [OF assms(1)]
            reset_queues_held [OF assms(1)] del: mset_map)
    qed
    with h Inr r show ?thesis by auto
  qed
qed

text \<open>An environment that keeps the account itself, in which setting up the transmit queue \<open>bad\<close> fails.\<close>

definition accounting_setup :: "nat \<Rightarrow> resource multiset setup_api" where
  "accounting_setup bad = example_setup\<lparr>
     ring_create := (\<lambda>name _ r. (0, add_mset (Ring name) r)), rx_pool_create := (\<lambda>name _ r. (0, add_mset (Pool name) r)),
     tx_queue_setup := (\<lambda>q _ _ r. (if q = bad then 1 else 0, r))\<rparr>"

definition accounting_life :: "resource multiset life_api" where
  "accounting_life = \<lparr>ring_free = (\<lambda>name r. r - {#Ring name#}), pool_free = (\<lambda>name r. r - {#Pool name#}), dev_close = id\<rparr>"

definition idle_flows :: "'r flow_api" where
  "idle_flows = \<lparr>flow_create = (\<lambda>_ _ _ r. (None, \<lparr>fe_type = 1, fe_message = None\<rparr>, r)),
     flow_destroy = (\<lambda>_ _ r. (0, \<lparr>fe_type = 1, fe_message = None\<rparr>, r))\<rparr>"

lemma accounting_ok: "life_ok (accounting_setup bad) idle_flows accounting_life (\<lambda>r. r)"
  by (simp add: life_ok_def accounting_setup_def accounting_life_def idle_flows_def example_setup_def)

lemma accounting_calls [simp]:
  "ring_create (accounting_setup bad) = (\<lambda>name _ r. (0, add_mset (Ring name) r))"
  "rx_pool_create (accounting_setup bad) = (\<lambda>name _ r. (0, add_mset (Pool name) r))"
  "tx_queue_setup (accounting_setup bad) = (\<lambda>q _ _ r. (if q = bad then 1 else 0, r))"
  "rx_queue_setup (accounting_setup bad) = (\<lambda>q _ _ r. (0, r))" "timestamp_register (accounting_setup bad) = (\<lambda>r. (Some 1, r))"
  "dev_configure (accounting_setup bad) = (\<lambda>_ _ _ _ _ r. (0, r))" "adjust_nb_desc (accounting_setup bad) = (\<lambda>a b r. (Some (a, b), r))"
  "svc_mempool_found (accounting_setup bad) name"
  by (simp_all add: accounting_setup_def example_setup_def)

lemma accounting_construct:
  "\<exists>res r. construct (accounting_setup bad) accounting_life ([] :: nat list) example_device {#} = Some (res, r)
     \<and> (if bad < 4 then res = Inl (Tx_setup_failed bad) else (\<exists>dev. res = Inr dev))"
proof -
  have all: "each_queue (\<lambda>q r. (0, f q r)) qs r = (None, fold f qs r)" for f qs and r :: "resource multiset"
    by (induction qs arbitrary: r) simp_all
  have none: "each_queue (\<lambda>q r. (0, r)) qs r = (None, r)" for qs and r :: "resource multiset"
    by (induction qs) simp_all
  have bad: "each_queue (\<lambda>q r. (if q = bad then 1 else 0, r)) qs r = (if bad \<in> set qs then Some bad else None, r)"
    for qs and r :: "resource multiset"
    by (induction qs) auto
  have clock: "setup_clock (probe (accounting_setup bad)) example_device = Some (example_device, False)"
    by (simp add: setup_clock_def has_feature_def example_device_def)
  have tx: "unat (nb_tx (setup_bursts example_device)) = 4"
    by (simp add: setup_bursts_fields example_device_def default_device_def example_info_def example_port_def)
  show ?thesis
    by (cases "bad < 4") (simp_all add: construct_def make_device_def clock configure_port_def Let_def all none bad tx)
qed

theorem device_life_balanced_witness:
  "\<exists>e dev r. construct (accounting_setup 3) accounting_life ([] :: nat list) example_device {#} = Some (Inl e, {#})
     \<and> construct (accounting_setup 9) accounting_life ([] :: nat list) example_device {#} = Some (Inr dev, r)
     \<and> r = device_resources dev \<and> destroy (accounting_setup 9) idle_flows accounting_life dev r = {#}"
proof -
  obtain res r where c3: "construct (accounting_setup 3) accounting_life ([] :: nat list) example_device {#} = Some (res, r)"
    and e: "res = Inl (Tx_setup_failed 3)" using accounting_construct [of 3] by auto
  obtain res' r' where c9: "construct (accounting_setup 9) accounting_life ([] :: nat list) example_device {#} = Some (res', r')"
    and d: "\<exists>dev. res' = Inr dev" using accounting_construct [of 9] by auto
  have "r = {#}" using device_life_balanced [OF accounting_ok c3] e by simp
  moreover obtain dev where "res' = Inr dev" using d by blast
  ultimately show ?thesis using device_life_balanced [OF accounting_ok c9, of "{#}"] c3 c9 e by auto
qed

end
