(* ===== verification/Device_Time.thy ===== *)
theory Device_Time
  imports Device_Setup
begin

text \<open>
  Hardware time stamps of received packets: \<open>device::has_timestamp\<close>, \<open>device::buffer_timestamp\<close> and
  \<open>dpdkx::timestamp\<close> of \<open>dpdkx/device.hpp\<close>. The dynamic field of a buffer is the parameter \<open>dynfield\<close>, and
  \<open>now\<close> is what \<open>read_clock\<close> returns.
\<close>

definition has_timestamp :: "'b device \<Rightarrow> rte_mbuf \<Rightarrow> bool" where
  "has_timestamp dev mbuf \<longleftrightarrow> ol_flags mbuf AND dv_timestamp_flag dev \<noteq> 0"

definition buffer_timestamp :: "'b device \<Rightarrow> (rte_mbuf \<Rightarrow> u64) \<Rightarrow> rte_mbuf \<Rightarrow> u64 option" where
  "buffer_timestamp dev dynfield mbuf = (if has_timestamp dev mbuf then Some (dynfield mbuf) else None)"

definition timestamp :: "'b device \<Rightarrow> (rte_mbuf \<Rightarrow> u64) \<Rightarrow> u64 option \<Rightarrow> rte_mbuf \<Rightarrow> u64 option" where
  "timestamp dev dynfield now mbuf =
     (case buffer_timestamp dev dynfield mbuf of
        Some t \<Rightarrow> timestamp_fix (dc_clock_hz (dv_config dev)) t
      | None \<Rightarrow> now)"

text \<open>When the field could not be registered no packet has a hardware time stamp, whatever its flags are, and
  the clock is read instead; a packet without any flag has none either.\<close>

theorem unregistered_has_no_timestamp:
  assumes "dv_timestamp_flag dev = 0 \<or> ol_flags mbuf = 0"
  shows "buffer_timestamp dev dynfield mbuf = None \<and> timestamp dev dynfield now mbuf = now"
  using assms by (auto simp: buffer_timestamp_def timestamp_def has_timestamp_def)

text \<open>The time of a packet is always defined on a device whose clock is enabled or has a configured frequency:
  the conversion of a hardware time stamp never divides by zero, and it is exact for frequencies that count
  nanoseconds. Without either, a packet with a hardware time stamp divides by zero.\<close>

theorem timestamp_defined:
  assumes "make_device api junk c r = Some (Inr dev, r')"
  shows "timestamp dev dynfield (Some now) mbuf = None \<longleftrightarrow>
           has_timestamp dev mbuf \<and> \<not> has_feature c 2 \<and> dc_clock_hz c = 0"
    and "dc_clock_hz (dv_config dev) = NS_PER_S \<Longrightarrow> has_timestamp dev mbuf \<Longrightarrow>
           timestamp dev dynfield (Some now) mbuf = Some (dynfield mbuf)"
proof -
  show "timestamp dev dynfield (Some now) mbuf = None \<longleftrightarrow>
           has_timestamp dev mbuf \<and> \<not> has_feature c 2 \<and> dc_clock_hz c = 0"
    using clock_unset_lemma [OF assms] by (simp add: timestamp_def buffer_timestamp_def)
qed (simp add: timestamp_def buffer_timestamp_def timestamp_fix_ns)

end
