(* ===== verification/Described.thy ===== *)
theory Described
  imports Config
begin

text \<open>
  Structures described to the program by \<open>BOOST_DESCRIBE_STRUCT\<close> (\<open>dpdkx/config/io.hpp\<close>), the loader that
  reads their members from program options (\<open>load_value_as\<close> in \<open>dpdkx/config/program_options.cpp\<close>) and the
  printer (\<open>operator <<\<close> in \<open>dpdkx/config/io.cpp\<close>). A value is a tree of named members. The parser of a member
  is a parameter: it takes the present value, which fixes the type, and the text.
\<close>

section \<open>Trees of members\<close>

datatype 'v described = Leaf 'v | Struct "(string \<times> 'v described) list"

text \<open>The leaves with their keys, in the order of the members.\<close>

fun leaves :: "string \<Rightarrow> 'v described \<Rightarrow> (string \<times> 'v) list"
and member_leaves :: "string \<Rightarrow> (string \<times> 'v described) list \<Rightarrow> (string \<times> 'v) list" where
  "leaves path (Leaf v) = [(path, v)]"
| "leaves path (Struct ms) = member_leaves path ms"
| "member_leaves path [] = []"
| "member_leaves path ((name, d) # ms) = leaves (path @ ''.'' @ name) d @ member_leaves path ms"

section \<open>Loading\<close>

text \<open>\<open>options\<close> maps a key to its text; \<open>Inl\<close> is the exception, with the key in its message.\<close>

fun load_value_as ::
  "(string \<Rightarrow> string option) \<Rightarrow> ('v \<Rightarrow> string \<Rightarrow> 'v option) \<Rightarrow> string \<Rightarrow> 'v described \<Rightarrow> string + 'v described"
and load_members ::
  "(string \<Rightarrow> string option) \<Rightarrow> ('v \<Rightarrow> string \<Rightarrow> 'v option) \<Rightarrow> string \<Rightarrow> (string \<times> 'v described) list \<Rightarrow>
     string + (string \<times> 'v described) list" where
  "load_value_as options parse path (Leaf v) =
     (case options path of
        None \<Rightarrow> Inr (Leaf v)
      | Some txt \<Rightarrow> (case parse v txt of None \<Rightarrow> Inl path | Some v \<Rightarrow> Inr (Leaf v)))"
| "load_value_as options parse path (Struct ms) =
     (case load_members options parse path ms of Inl e \<Rightarrow> Inl e | Inr ms \<Rightarrow> Inr (Struct ms))"
| "load_members options parse path [] = Inr []"
| "load_members options parse path ((name, d) # ms) =
     (case load_value_as options parse (path @ ''.'' @ name) d of
        Inl e \<Rightarrow> Inl e
      | Inr d \<Rightarrow>
          (case load_members options parse path ms of Inl e \<Rightarrow> Inl e | Inr ms \<Rightarrow> Inr ((name, d) # ms)))"

section \<open>Printing\<close>

text \<open>A member is printed as an unsigned number or by the operator of its type.\<close>

datatype io_value = Io_uint u64 | Io_text string

definition hex_digit :: "nat \<Rightarrow> char" where
  "hex_digit k = ''0123456789abcdef'' ! k"

fun hex :: "nat \<Rightarrow> string" where
  "hex k = (if k < 16 then [hex_digit k] else hex (k div 16) @ [hex_digit (k mod 16)])"

declare hex.simps [simp del]

definition max_prefix :: nat where "max_prefix = 7"

definition prefix_at :: "nat \<Rightarrow> string" where
  "prefix_at p = replicate (max_prefix - p) (CHR 0x09)"

abbreviation newline :: string where "newline \<equiv> [CHR 0x0A]"

definition print_uint :: "u64 \<Rightarrow> string" where
  "print_uint v =
     (let w = (ucast v :: u32)
      in to_string (int (unat w)) @ (if v \<ge> 0xa then '' (0x'' @ hex (unat w) @ '')'' else ''''))"

fun print_described :: "nat \<Rightarrow> io_value described \<Rightarrow> string"
and print_members :: "nat \<Rightarrow> (string \<times> io_value described) list \<Rightarrow> string" where
  "print_described p (Leaf (Io_uint v)) = print_uint v"
| "print_described p (Leaf (Io_text t)) = t"
| "print_described p (Struct ms) =
     (if p \<noteq> 0 then ''{'' @ print_members (p - 1) ms @ newline @ prefix_at p @ ''}''
      else newline @ prefix_at p @ ''{...}'' @ newline)"
| "print_members p [] = ''''"
| "print_members p ((name, d) # ms) =
     newline @ prefix_at p @ name @ '' : '' @ print_described p d @ print_members p ms"

section \<open>The described structures\<close>

abbreviation leaf_names :: "string list \<Rightarrow> (string \<times> unit described) list" where
  "leaf_names \<equiv> map (\<lambda>n. (n, Leaf ()))"

definition portconf_schema :: "unit described" where
  "portconf_schema = Struct (leaf_names [''burst_size'', ''ring_size'', ''nb_queues''])"

definition thresh_schema :: "unit described" where
  "thresh_schema = Struct (leaf_names [''pthresh'', ''hthresh'', ''wthresh''])"

definition rxconf_schema :: "unit described" where
  "rxconf_schema = Struct ((''rx_thresh'', thresh_schema) # leaf_names [''rx_free_thresh'', ''rx_drop_en'',
     ''rx_deferred_start'', ''rx_nseg'', ''share_group'', ''share_qid'', ''offloads'', ''rx_nmempool''])"

definition txconf_schema :: "unit described" where
  "txconf_schema = Struct ((''tx_thresh'', thresh_schema) # leaf_names [''tx_rs_thresh'', ''tx_free_thresh'',
     ''tx_deferred_start'', ''offloads''])"

definition desc_lim_schema :: "unit described" where
  "desc_lim_schema = Struct (leaf_names [''nb_max'', ''nb_min'', ''nb_align'', ''nb_seg_max'', ''nb_mtu_seg_max''])"

definition dev_info_schema :: "unit described" where
  "dev_info_schema = Struct (leaf_names [''min_mtu'', ''max_mtu'', ''min_rx_bufsize'', ''max_rx_bufsize'',
       ''max_rx_pktlen'', ''max_lro_pkt_size'', ''max_rx_queues'', ''max_tx_queues'', ''max_mac_addrs'',
       ''max_hash_mac_addrs'', ''max_vfs'', ''max_vmdq_pools'', ''rx_offload_capa'', ''tx_offload_capa'',
       ''rx_queue_offload_capa'', ''tx_queue_offload_capa'', ''reta_size'', ''rss_algo_capa'', ''flow_type_rss_offloads'']
     @ [(''default_rxconf'', rxconf_schema), (''default_txconf'', txconf_schema)]
     @ leaf_names [''vmdq_queue_base'', ''vmdq_queue_num'', ''vmdq_pool_base'']
     @ [(''rx_desc_lim'', desc_lim_schema), (''tx_desc_lim'', desc_lim_schema)]
     @ leaf_names [''speed_capa'', ''nb_rx_queues'', ''nb_tx_queues'']
     @ [(''default_rxportconf'', portconf_schema), (''default_txportconf'', portconf_schema)]
     @ leaf_names [''dev_capa''])"

definition effective_offloads_schema :: "unit described" where
  "effective_offloads_schema = Struct (leaf_names [''rx'', ''tx''])"

definition device_schema :: "unit described" where
  "device_schema = Struct (leaf_names [''svc_tx_n'', ''rx_flow_queues'', ''next_src_port'', ''rx_reconfig_hint'', ''clock_hz'']
     @ [(''info'', dev_info_schema), (''effective_offload'', effective_offloads_schema)]
     @ leaf_names [''tx_rings'', ''rx_meta_features'', ''features''])"

lemmas schema_defs = portconf_schema_def thresh_schema_def rxconf_schema_def txconf_schema_def desc_lim_schema_def
  dev_info_schema_def effective_offloads_schema_def device_schema_def

section \<open>What loading does\<close>

definition loaded :: "(string \<Rightarrow> string option) \<Rightarrow> ('v \<Rightarrow> string \<Rightarrow> 'v option) \<Rightarrow> string \<times> 'v \<Rightarrow> 'v option" where
  "loaded options parse = (\<lambda>(key, v). case options key of None \<Rightarrow> Some v | Some txt \<Rightarrow> parse v txt)"

text \<open>The first leaf whose text does not parse has key \<open>e\<close>.\<close>

fun fails_at ::
  "(string \<Rightarrow> string option) \<Rightarrow> ('v \<Rightarrow> string \<Rightarrow> 'v option) \<Rightarrow> string \<Rightarrow> (string \<times> 'v) list \<Rightarrow> bool" where
  "fails_at options parse e [] = False"
| "fails_at options parse e (l # ls) =
     (if loaded options parse l = None then fst l = e else fails_at options parse e ls)"

definition all_loaded ::
  "(string \<Rightarrow> string option) \<Rightarrow> ('v \<Rightarrow> string \<Rightarrow> 'v option) \<Rightarrow> (string \<times> 'v) list \<Rightarrow> (string \<times> 'v) list \<Rightarrow> bool" where
  "all_loaded options parse xs xs' \<longleftrightarrow>
     list_all2 (\<lambda>l l'. fst l' = fst l \<and> loaded options parse l = Some (snd l')) xs xs'"

lemma fails_at_append:
  "fails_at options parse e xs \<Longrightarrow> fails_at options parse e (xs @ ys)"
  "all_loaded options parse xs xs' \<Longrightarrow> fails_at options parse e ys \<Longrightarrow> fails_at options parse e (xs @ ys)"
proof -
  show "fails_at options parse e xs \<Longrightarrow> fails_at options parse e (xs @ ys)"
    by (induction xs) auto
  show "all_loaded options parse xs xs' \<Longrightarrow> fails_at options parse e ys \<Longrightarrow> fails_at options parse e (xs @ ys)"
    unfolding all_loaded_def by (induction rule: list_all2_induct) auto
qed

lemma load_spec:
  "(case load_value_as options parse path d of
      Inl e \<Rightarrow> fails_at options parse e (leaves path d)
    | Inr d' \<Rightarrow> all_loaded options parse (leaves path d) (leaves path d'))"
  "(case load_members options parse path ms of
      Inl e \<Rightarrow> fails_at options parse e (member_leaves path ms)
    | Inr ms' \<Rightarrow> all_loaded options parse (member_leaves path ms) (member_leaves path ms'))"
proof (induction options parse path d and options parse path ms rule: load_value_as_load_members.induct)
  case (1 options parse path v)
  then show ?case by (auto simp: loaded_def all_loaded_def split: option.splits)
next
  case (2 options parse path ms)
  then show ?case by (simp split: sum.splits)
next
  case (3 options parse path)
  then show ?case by (simp add: all_loaded_def)
next
  case (4 options parse path name d ms)
  show ?case
  proof (cases "load_value_as options parse (path @ ''.'' @ name) d")
    case (Inl e)
    then show ?thesis using "4.IH"(1) by (simp add: fails_at_append(1))
  next
    case (Inr d')
    then have d': "all_loaded options parse (leaves (path @ ''.'' @ name) d) (leaves (path @ ''.'' @ name) d')"
      using "4.IH"(1) by simp
    from "4.IH"(2) [OF Inr] Inr show ?thesis
      using fails_at_append(2) [OF d'] d' by (auto simp: all_loaded_def intro: list_all2_appendI split: sum.splits)
  qed
qed

text \<open>Loading is exact: it either replaces every member whose key has an option by the parsed text and
  leaves every other member as it was, or it fails with the key of the first member, in the order of the
  description, whose text does not parse.\<close>

theorem load_value_exact:
  "case load_value_as options parse path d of
      Inl e \<Rightarrow> fails_at options parse e (leaves path d)
    | Inr d' \<Rightarrow> all_loaded options parse (leaves path d) (leaves path d')"
  by (rule load_spec(1))

section \<open>The keys of a device\<close>

lemma leaves_path:
  fixes d :: "'v described" and ms :: "(string \<times> 'v described) list"
  shows "leaves (p @ q) d = map (\<lambda>(k, v). (p @ k, v)) (leaves q d)"
  "member_leaves (p @ q) ms = map (\<lambda>(k, v). (p @ k, v)) (member_leaves q ms)"
  by (induction q d and q ms rule: leaves_member_leaves.induct) simp_all

lemma device_keys: "length (leaves [] device_schema) = 70 \<and> distinct (map fst (leaves [] device_schema))"
  by (simp add: schema_defs)

fun depth :: "'v described \<Rightarrow> nat"
and members_depth :: "(string \<times> 'v described) list \<Rightarrow> nat" where
  "depth (Leaf v) = 0"
| "depth (Struct ms) = Suc (members_depth ms)"
| "members_depth [] = 0"
| "members_depth ((name, d) # ms) = max (depth d) (members_depth ms)"


text \<open>Every member of a device has a key of its own: under whatever path a device is loaded, its 70 keys
  are different, so that one option never sets two members; and the description is flat enough for the
  printer, which has indentation for seven levels.\<close>

theorem device_keys_distinct:
  "distinct (map fst (leaves path device_schema)) \<and> length (leaves path device_schema) = 70 \<and> depth device_schema \<le> max_prefix"
proof -
  have "leaves path device_schema = map (\<lambda>(k, v). (path @ k, v)) (leaves [] device_schema)"
    using leaves_path(1) [of path "[]" device_schema] by simp
  moreover have "map fst (map (\<lambda>(k, v). (path @ k, v)) ls) = map ((@) path) (map fst ls)" for ls :: "(string \<times> unit) list"
    by (simp add: case_prod_beta comp_def)
  ultimately show ?thesis
    using device_keys by (simp add: distinct_map [of "(@) path"] inj_on_def) (simp add: schema_defs max_prefix_def)
qed

section \<open>What the printer shows\<close>

text \<open>The printer shows 64-bit members modulo \<open>2^32\<close>: two values above nine that agree in their lower half
  are printed alike, whatever their upper halves are.\<close>

theorem print_truncates:
  assumes "10 \<le> v" and "10 \<le> v'" and "ucast v = (ucast v' :: u32)"
  shows "print_described p (Leaf (Io_uint v)) = print_described p (Leaf (Io_uint v'))"
  using assms by (simp add: print_uint_def Let_def)

theorem print_truncates_witness:
  "print_described 7 (Leaf (Io_uint 10000000000)) = print_described 7 (Leaf (Io_uint 1410065408))
   \<and> print_described 7 (Leaf (Io_uint 10000000000)) = ''1410065408 (0x540be400)''"
  using print_truncates [of 10000000000 1410065408 7]
  by (simp add: print_uint_def to_string_def digits.simps digit_def hex.simps hex_digit_def char_of_def bit_0)

end
