(* ===== verification/Device_Io.thy ===== *)
theory Device_Io
  imports Described Device_Setup
begin

text \<open>
  Text output of the library: names of offloads and metadata features (\<open>dpdkx/io.hpp\<close>, \<open>dpdkx/io.cpp\<close>), the
  statistics of a port (\<open>operator <<\<close> for \<open>rte_eth_stats\<close> in \<open>dpdkx/io.cpp\<close>) and the description of a device
  (\<open>dpdkx/config/io.cpp\<close>). \<open>utils::flags::to_string\<close>, the formatting of addresses and of a \<open>double\<close> are
  parameters.
\<close>

section \<open>Names of flags\<close>

definition rx_offloads_names :: "string list" where
  "rx_offloads_names =
     [''RTE_ETH_RX_OFFLOAD_VLAN_STRIP'', ''RTE_ETH_RX_OFFLOAD_IPV4_CKSUM'', ''RTE_ETH_RX_OFFLOAD_UDP_CKSUM'',
      ''RTE_ETH_RX_OFFLOAD_TCP_CKSUM'', ''RTE_ETH_RX_OFFLOAD_TCP_LRO'', ''RTE_ETH_RX_OFFLOAD_QINQ_STRIP'',
      ''RTE_ETH_RX_OFFLOAD_OUTER_IPV4_CKSUM'', ''RTE_ETH_RX_OFFLOAD_MACSEC_STRIP'', ''0x00100'',
      ''RTE_ETH_RX_OFFLOAD_VLAN_FILTER'', ''RTE_ETH_RX_OFFLOAD_VLAN_EXTEND'', ''0x00800'', ''0x01000'',
      ''RTE_ETH_RX_OFFLOAD_SCATTER'', ''RTE_ETH_RX_OFFLOAD_TIMESTAMP'', ''RTE_ETH_RX_OFFLOAD_SECURITY'',
      ''RTE_ETH_RX_OFFLOAD_KEEP_CRC'', ''RTE_ETH_RX_OFFLOAD_SCTP_CKSUM'', ''RTE_ETH_RX_OFFLOAD_OUTER_UDP_CKSUM'',
      ''RTE_ETH_RX_OFFLOAD_RSS_HASH'', ''RTE_ETH_RX_OFFLOAD_BUFFER_SPLIT'']"

definition tx_offloads_names :: "string list" where
  "tx_offloads_names =
     [''RTE_ETH_TX_OFFLOAD_VLAN_INSERT'', ''RTE_ETH_TX_OFFLOAD_IPV4_CKSUM'', ''RTE_ETH_TX_OFFLOAD_UDP_CKSUM'',
      ''RTE_ETH_TX_OFFLOAD_TCP_CKSUM'', ''RTE_ETH_TX_OFFLOAD_SCTP_CKSUM'', ''RTE_ETH_TX_OFFLOAD_TCP_TSO'',
      ''RTE_ETH_TX_OFFLOAD_UDP_TSO'', ''RTE_ETH_TX_OFFLOAD_OUTER_IPV4_CKSUM'', ''RTE_ETH_TX_OFFLOAD_QINQ_INSERT'',
      ''RTE_ETH_TX_OFFLOAD_VXLAN_TNL_TSO'', ''RTE_ETH_TX_OFFLOAD_GRE_TNL_TSO'', ''RTE_ETH_TX_OFFLOAD_IPIP_TNL_TSO'',
      ''RTE_ETH_TX_OFFLOAD_GENEVE_TNL_TSO'', ''RTE_ETH_TX_OFFLOAD_MACSEC_INSERT'', ''RTE_ETH_TX_OFFLOAD_MT_LOCKFREE'',
      ''RTE_ETH_TX_OFFLOAD_MULTI_SEGS'', ''RTE_ETH_TX_OFFLOAD_MBUF_FAST_FREE'', ''RTE_ETH_TX_OFFLOAD_SECURITY'',
      ''RTE_ETH_TX_OFFLOAD_UDP_TNL_TSO'', ''RTE_ETH_TX_OFFLOAD_IP_TNL_TSO'', ''RTE_ETH_TX_OFFLOAD_OUTER_UDP_CKSUM'',
      ''RTE_ETH_TX_OFFLOAD_SEND_ON_TIMESTAMP'']"

definition rx_meta_features_names :: "string list" where
  "rx_meta_features_names =
     [''RTE_ETH_RX_METADATA_USER_FLAG'', ''RTE_ETH_RX_METADATA_USER_MARK'', ''RTE_ETH_RX_METADATA_TUNNEL_ID'']"

text \<open>\<open>operator <<\<close> of the three enumerations: the number in hexadecimal, and the names unless it is 0.\<close>

definition print_flags :: "(u64 \<Rightarrow> string list \<Rightarrow> string) \<Rightarrow> string list \<Rightarrow> u64 \<Rightarrow> string" where
  "print_flags flags_to_string names v =
     hex (unat v) @ (if v \<noteq> 0 then '':'' @ flags_to_string v names else '''')"

definition print_rx_offloads :: "(u64 \<Rightarrow> string list \<Rightarrow> string) \<Rightarrow> u64 \<Rightarrow> string" where
  "print_rx_offloads flags_to_string v = print_flags flags_to_string rx_offloads_names v"

definition print_tx_offloads :: "(u64 \<Rightarrow> string list \<Rightarrow> string) \<Rightarrow> u64 \<Rightarrow> string" where
  "print_tx_offloads flags_to_string v = print_flags flags_to_string tx_offloads_names v"

definition print_rx_meta_features :: "(u64 \<Rightarrow> string list \<Rightarrow> string) \<Rightarrow> u64 \<Rightarrow> string" where
  "print_rx_meta_features flags_to_string v = print_flags flags_to_string rx_meta_features_names v"

section \<open>Statistics of a port\<close>

definition RTE_ETHDEV_QUEUE_STAT_CNTRS :: nat where "RTE_ETHDEV_QUEUE_STAT_CNTRS = 16"

record rte_eth_stats =
  ipackets :: u64
  opackets :: u64
  ibytes :: u64
  obytes :: u64
  imissed :: u64
  ierrors :: u64
  oerrors :: u64
  rx_nombuf :: u64
  q_ipackets :: "u64 list"
  q_opackets :: "u64 list"
  q_ibytes :: "u64 list"
  q_obytes :: "u64 list"
  q_errors :: "u64 list"

abbreviation num :: "u64 \<Rightarrow> string" where "num v \<equiv> to_string (int (unat v))"

abbreviation tabbed :: "nat \<Rightarrow> string \<Rightarrow> string" where "tabbed k s \<equiv> newline @ replicate k (CHR 0x09) @ s"

text \<open>An element of a counter array; \<open>None\<close> outside it.\<close>

definition counter :: "u64 list \<Rightarrow> nat \<Rightarrow> string option" where
  "counter cs ix = (if ix < length cs then Some (num (cs ! ix)) else None)"

definition rx_queue_lines :: "rte_eth_stats \<Rightarrow> nat \<Rightarrow> string option" where
  "rx_queue_lines stats ix =
     (case (counter (q_ipackets stats) ix, counter (q_ibytes stats) ix, counter (q_errors stats) ix) of
        (Some p, Some b, Some e) \<Rightarrow>
          Some (tabbed 2 (to_string (int ix) @ '' Total number of queue Rx packets : '' @ p)
              @ tabbed 2 (to_string (int ix) @ '' Total number of successfully received queue bytes : '' @ b)
              @ tabbed 2 (to_string (int ix) @ '' Total number of queue packets received that are dropped : '' @ e))
      | _ \<Rightarrow> None)"

definition tx_queue_lines :: "rte_eth_stats \<Rightarrow> nat \<Rightarrow> string option" where
  "tx_queue_lines stats ix =
     (case (counter (q_opackets stats) ix, counter (q_obytes stats) ix) of
        (Some p, Some b) \<Rightarrow>
          Some (tabbed 2 (to_string (int ix) @ '' Total number of queue Tx packets : '' @ p)
              @ tabbed 2 (to_string (int ix) @ '' Total number of successfully transmitted queue bytes : '' @ b))
      | _ \<Rightarrow> None)"

fun all_lines :: "(nat \<Rightarrow> string option) \<Rightarrow> nat list \<Rightarrow> string option" where
  "all_lines f [] = Some ''''"
| "all_lines f (ix # ixs) =
     (case f ix of None \<Rightarrow> None | Some s \<Rightarrow> map_option ((@) s) (all_lines f ixs))"

text \<open>\<open>percent missed received\<close> is the printed \<open>double\<close>; it is not computed when nothing was received.\<close>

definition totals :: "(u64 \<Rightarrow> u64 \<Rightarrow> string) \<Rightarrow> rte_eth_stats \<Rightarrow> string" where
  "totals percent stats =
     (let rx_total = ipackets stats + imissed stats;
          rx_missed_pcnt = (if rx_total = 0 then ''0'' else percent (imissed stats) rx_total)
      in tabbed 1 (''Total number of successfully received packets: '' @ num (ipackets stats))
       @ tabbed 1 (''Total number of successfully transmitted packets: '' @ num (opackets stats))
       @ tabbed 1 (''Total number of successfully received bytes: '' @ num (ibytes stats))
       @ tabbed 1 (''Total number of successfully transmitted bytes: '' @ num (obytes stats))
       @ tabbed 1 (''missed : '' @ num (imissed stats) @ '' from : '' @ num rx_total @ '' - '' @ rx_missed_pcnt @ ''%'')
       @ tabbed 1 (''Total number of erroneous received packets: '' @ num (ierrors stats))
       @ tabbed 1 (''Total number of failed transmitted packets: '' @ num (oerrors stats))
       @ tabbed 1 (''Total number of Rx mbuf allocation failures: '' @ num (rx_nombuf stats)))"

definition print_stats :: "(u64 \<Rightarrow> u64 \<Rightarrow> string) \<Rightarrow> 'b device \<Rightarrow> rte_eth_stats \<Rightarrow> string option" where
  "print_stats percent dev stats =
     (case all_lines (rx_queue_lines stats) [0..<min RTE_ETHDEV_QUEUE_STAT_CNTRS (length (dv_rx_jobs dev))] of
        None \<Rightarrow> None
      | Some rx \<Rightarrow>
          (case all_lines (tx_queue_lines stats) [0..<min RTE_ETHDEV_QUEUE_STAT_CNTRS (length (dv_tx_jobs dev))] of
             None \<Rightarrow> None
           | Some sent \<Rightarrow> Some (totals percent stats @ rx @ sent)))"

section \<open>A configured device\<close>

text \<open>The members are printed by \<open>print_described\<close>; the tree of their values is an argument. \<open>ntoa\<close> is
  \<open>inet_ntoa\<close>.\<close>

definition print_device :: "(byte list \<Rightarrow> string) \<Rightarrow> (u32 \<Rightarrow> string) \<Rightarrow> device_config \<Rightarrow> io_value described \<Rightarrow> string" where
  "print_device format_addr ntoa dev tree =
     dc_id dev @ '' ('' @ di_driver_name (dc_info dev) @ '') port: '' @ to_string (int (unat (dc_port_id dev))) @ '' - ''
     @ format_addr (dc_mac_addr dev) @ ''['' @ (if dc_ip4_addr dev \<noteq> 0 then ntoa (dc_ip4_addr dev) else ''<not set>'') @ '']''
     @ newline @ print_described max_prefix tree"

text \<open>\<open>cores_to_string\<close> in \<open>run\<close> of \<open>sockperf_cli/sockperf.cpp\<close>.\<close>

definition cores_to_string :: "nat list \<Rightarrow> string" where
  "cores_to_string cores = concat (map (\<lambda>c. to_string (int c) @ '' '') cores)"

section \<open>Properties\<close>

text \<open>A name belongs to one bit, and every name has a bit of a 64-bit mask.\<close>

lemma flag_names_distinct:
  "\<forall>names \<in> {rx_offloads_names, tx_offloads_names, rx_meta_features_names}. distinct names \<and> length names \<le> 64"
  by (simp add: rx_offloads_names_def tx_offloads_names_def rx_meta_features_names_def)

lemma all_lines_some: "\<forall>ix \<in> set ixs. f ix \<noteq> None \<Longrightarrow> \<exists>s. all_lines f ixs = Some s"
  by (induction ixs) auto

definition stats_arrays_ok :: "rte_eth_stats \<Rightarrow> bool" where
  "stats_arrays_ok stats \<longleftrightarrow>
     (\<forall>cs \<in> {q_ipackets stats, q_opackets stats, q_ibytes stats, q_obytes stats, q_errors stats}.
        length cs = RTE_ETHDEV_QUEUE_STAT_CNTRS)"

lemma queue_lines_some:
  assumes "stats_arrays_ok stats" and "ix < RTE_ETHDEV_QUEUE_STAT_CNTRS"
  shows "rx_queue_lines stats ix \<noteq> None" and "tx_queue_lines stats ix \<noteq> None"
  using assms by (simp_all add: stats_arrays_ok_def rx_queue_lines_def tx_queue_lines_def counter_def)

text \<open>The statistics are printed for every device: with however many queues the counters of the port are read
  inside their arrays, and the text starts with the totals.\<close>

theorem print_stats_in_bounds:
  assumes "stats_arrays_ok stats"
  shows "\<exists>queues. print_stats percent dev stats = Some (totals percent stats @ queues)"
proof -
  obtain rx where "all_lines (rx_queue_lines stats) [0..<min RTE_ETHDEV_QUEUE_STAT_CNTRS (length (dv_rx_jobs dev))] = Some rx"
    using all_lines_some [of "[0..<min RTE_ETHDEV_QUEUE_STAT_CNTRS (length (dv_rx_jobs dev))]" "rx_queue_lines stats"]
      queue_lines_some(1) [OF assms] by auto
  moreover obtain sent where "all_lines (tx_queue_lines stats) [0..<min RTE_ETHDEV_QUEUE_STAT_CNTRS (length (dv_tx_jobs dev))] = Some sent"
    using all_lines_some [of "[0..<min RTE_ETHDEV_QUEUE_STAT_CNTRS (length (dv_tx_jobs dev))]" "tx_queue_lines stats"]
      queue_lines_some(2) [OF assms] by auto
  ultimately show ?thesis by (simp add: print_stats_def)
qed

text \<open>Hexadecimal digits determine the number: different flags are printed differently.\<close>

lemma hex_digit_inj: "hex_digit a = hex_digit b \<Longrightarrow> a < 16 \<Longrightarrow> b < 16 \<Longrightarrow> a = b"
  by (simp add: hex_digit_def nth_eq_iff_index_eq)

lemma hex_inj: "hex m = hex n \<Longrightarrow> m = n"
proof (induction m arbitrary: n rule: hex.induct)
  case (1 m)
  have ne: "hex k \<noteq> []" for k by (subst hex.simps) simp
  consider "m < 16" "n < 16" | "m < 16" "16 \<le> n" | "16 \<le> m" "n < 16" | "16 \<le> m" "16 \<le> n" by linarith
  then show ?case
  proof cases
    case 1
    then show ?thesis using "1.prems" by (subst (asm) (1 2) hex.simps) (simp add: hex_digit_inj)
  next
    case 2
    then show ?thesis using "1.prems" ne [of "n div 16"] by (subst (asm) (1 2) hex.simps) (simp add: Cons_eq_append_conv)
  next
    case 3
    then show ?thesis using "1.prems" ne [of "m div 16"] by (subst (asm) (1 2) hex.simps) (simp add: append_eq_Cons_conv)
  next
    case 4
    then have "hex (m div 16) = hex (n div 16)" "hex_digit (m mod 16) = hex_digit (n mod 16)"
      using "1.prems" by (subst (asm) (1 2) hex.simps, simp)+
    then have "m div 16 = n div 16" "m mod 16 = n mod 16" using "1.IH" [of "n div 16"] 4(1) hex_digit_inj by simp_all
    then show ?thesis by (metis div_mult_mod_eq)
  qed
qed

lemma hex_no_colon: "CHR '':'' \<notin> set (hex n)"
proof (induction n rule: hex.induct)
  case (1 n)
  have "CHR '':'' \<notin> set ''0123456789abcdef''" by simp
  moreover have "hex_digit k \<in> set ''0123456789abcdef''" if "k < 16" for k
    unfolding hex_digit_def by (rule nth_mem) (use that in simp)
  ultimately have "CHR '':'' \<noteq> hex_digit k" if "k < 16" for k using that by metis
  then show ?case using 1 by (subst hex.simps) auto
qed

text \<open>What is printed for a mask of flags determines the mask, whatever the names are.\<close>

theorem print_flags_inj:
  assumes "print_flags flags_to_string names v = print_flags flags_to_string names w"
  shows "v = w"
proof -
  have head: "takeWhile (\<lambda>c. c \<noteq> CHR '':'') (print_flags flags_to_string names x) = hex (unat x)" for x
  proof -
    have all: "\<forall>c \<in> set (hex (unat x)). c \<noteq> CHR '':''" using hex_no_colon [of "unat x"] by blast
    then have "takeWhile (\<lambda>c. c \<noteq> CHR '':'') (hex (unat x)) = hex (unat x)" by (simp add: takeWhile_eq_all_conv)
    with all show ?thesis by (simp add: print_flags_def takeWhile_append2)
  qed
  have "hex (unat v) = hex (unat w)" using head [of v] head [of w] assms by simp
  then show ?thesis by (simp add: hex_inj word_unat_eq_iff)
qed

end
