(* ===== verification/Value_Parser.thy ===== *)
theory Value_Parser
  imports Device_Io
begin

text \<open>
  Reading single values from text: the choice of a parser by type (\<open>dpdkx/x3-parser.hpp\<close>, \<open>io_type\<close> and the
  flag parsers in \<open>dpdkx/io.hpp\<close>), \<open>parse_value\<close> and the errors of \<open>load_value_as\<close>
  (\<open>dpdkx/config/program_options.cpp\<close>). The elementary parsers of Boost.Spirit and of \<open>utils/flags\<close> are fields
  of \<open>x3_api\<close>; sequences and expectations are modelled.
\<close>

section \<open>Parsers by type\<close>

text \<open>An integer type is signed or not and has 1, 2, 4 or 8 bytes.\<close>

datatype int_size = B1 | B2 | B4 | B8

primrec bits :: "int_size \<Rightarrow> nat" where
  "bits B1 = 8" | "bits B2 = 16" | "bits B4 = 32" | "bits B8 = 64"

datatype cpp_type = C_bool | C_int bool int_size | C_double | C_float | C_flags "string list" | C_tuple "cpp_type list"

datatype x3_prim = X_bool | X_int nat | X_uint nat | X_double | X_float | X_flags "string list"

datatype x3_parser = X_prim x3_prim | X_lit char | X_sequence x3_parser x3_parser | X_expect x3_parser

text \<open>The parser of an integer type, and that of a tuple: the first, and the others with a comma each, folded
  from the left. \<open>None\<close> is a fold over an empty pack, which does not compile.\<close>

definition int_parser :: "bool \<Rightarrow> int_size \<Rightarrow> x3_parser" where
  "int_parser is_signed n = X_prim (if is_signed then X_int (bits n) else X_uint (bits n))"

fun fold_rest :: "x3_parser \<Rightarrow> x3_parser list \<Rightarrow> x3_parser" where
  "fold_rest acc [] = acc"
| "fold_rest acc (p # ps) = fold_rest (X_sequence acc (X_sequence (X_lit CHR '','') p)) ps"

definition tuple_parser :: "x3_parser list \<Rightarrow> x3_parser option" where
  "tuple_parser ps =
     (case ps of
        p # q # qs \<Rightarrow> Some (X_sequence p (fold_rest (X_sequence (X_lit CHR '','') q) qs))
      | _ \<Rightarrow> None)"

text \<open>The specialisations for the flag enumerations.\<close>

definition flags_parser :: "string list \<Rightarrow> x3_parser" where
  "flags_parser names = X_prim (X_flags names)"

fun type_parser :: "cpp_type \<Rightarrow> x3_parser option"
and type_parsers :: "cpp_type list \<Rightarrow> x3_parser list option" where
  "type_parser C_bool = Some (X_prim X_bool)"
| "type_parser (C_int is_signed n) = Some (int_parser is_signed n)"
| "type_parser C_double = Some (X_prim X_double)"
| "type_parser C_float = Some (X_prim X_float)"
| "type_parser (C_flags names) = Some (flags_parser names)"
| "type_parser (C_tuple ts) = (case type_parsers ts of None \<Rightarrow> None | Some ps \<Rightarrow> tuple_parser ps)"
| "type_parsers [] = Some []"
| "type_parsers (t # ts) =
     (case type_parser t of None \<Rightarrow> None | Some p \<Rightarrow> map_option (Cons p) (type_parsers ts))"

section \<open>Parsing\<close>

text \<open>An elementary parser takes a value off the front of the text or does not match. \<open>Expectation\<close> is the
  exception \<open>expectation_failure\<close> with what remains at \<open>where()\<close> and the name \<open>which()\<close>.\<close>

record 'a x3_api =
  x3_run :: "x3_prim \<Rightarrow> string \<Rightarrow> ('a \<times> string) option"
  x3_what :: "x3_parser \<Rightarrow> string"

datatype 'a x3_result = No_match | Match "'a list" string | Expectation string string

fun x3_parse :: "'a x3_api \<Rightarrow> x3_parser \<Rightarrow> string \<Rightarrow> 'a x3_result" where
  "x3_parse api (X_prim p) s = (case x3_run api p s of None \<Rightarrow> No_match | Some (a, rest) \<Rightarrow> Match [a] rest)"
| "x3_parse api (X_lit c) s = (case s of [] \<Rightarrow> No_match | d # rest \<Rightarrow> if c = d then Match [] rest else No_match)"
| "x3_parse api (X_sequence p q) s =
     (case x3_parse api p s of
        Match as rest \<Rightarrow>
          (case x3_parse api q rest of
             Match bs rest' \<Rightarrow> Match (as @ bs) rest'
           | No_match \<Rightarrow> Expectation rest (x3_what api q)
           | Expectation where_ which \<Rightarrow> Expectation where_ which)
      | r \<Rightarrow> r)"
| "x3_parse api (X_expect p) s =
     (case x3_parse api p s of No_match \<Rightarrow> Expectation s (x3_what api p) | r \<Rightarrow> r)"

section \<open>Members of a configuration\<close>

text \<open>A member is an unsigned integer of some bytes, a mask of flags, or a \<open>std::bitset\<close>, whose bit 0 comes
  first in the list.\<close>

datatype member = Member_uint int_size u64 | Member_flags "string list" u64 | Member_bits "bool list"

text \<open>\<open>io_type\<close>: the type a member is read as; \<open>unsigned char\<close> is read as \<open>unsigned int\<close>.\<close>

definition io_type :: "member \<Rightarrow> cpp_type" where
  "io_type m =
     (case m of
        Member_uint n v \<Rightarrow> C_int False (if n = B1 then B4 else n)
      | Member_flags names v \<Rightarrow> C_flags names
      | Member_bits bs \<Rightarrow> C_bool)"

text \<open>The value is converted to the type of the member by assignment.\<close>

definition assign :: "member \<Rightarrow> int \<Rightarrow> member" where
  "assign m k =
     (case m of
        Member_uint n v \<Rightarrow> Member_uint n (take_bit (bits n) (of_int k))
      | Member_flags names v \<Rightarrow> Member_flags names (of_int k)
      | Member_bits bs \<Rightarrow> Member_bits bs)"

text \<open>\<open>std::bitset<N>{text}\<close>: the last of the first \<open>N\<close> characters is bit 0; any other character than 0 and 1
  throws \<open>std::invalid_argument\<close>.\<close>

definition bitset_of :: "nat \<Rightarrow> string \<Rightarrow> bool list option" where
  "bitset_of N txt =
     (if set txt \<subseteq> {CHR ''0'', CHR ''1''}
      then (let bs = rev (map (\<lambda>c. c = CHR ''1'') (take N txt)) in Some (bs @ replicate (N - length bs) False))
      else None)"

datatype value_error =
    Invalid_argument
  | Not_all_read
  | Expected string string

definition parse_value :: "int x3_api \<Rightarrow> member \<Rightarrow> string \<Rightarrow> value_error + member" where
  "parse_value api m txt =
     (case m of
        Member_bits bs \<Rightarrow>
          (case bitset_of (length bs) txt of None \<Rightarrow> Inl Invalid_argument | Some bs \<Rightarrow> Inr (Member_bits bs))
      | _ \<Rightarrow>
          (case x3_parse api (X_expect (the (type_parser (io_type m)))) txt of
             Match [k] [] \<Rightarrow> Inr (assign m k)
           | Expectation where_ which \<Rightarrow> Inl (Expected where_ which)
           | _ \<Rightarrow> Inl Not_all_read))"

text \<open>The exception that leaves \<open>load_value_as\<close>: the text of a \<open>std::runtime_error\<close>, or \<open>None\<close> for the
  \<open>std::invalid_argument\<close>, which nothing catches.\<close>

lemma member_type_parser: "type_parser (io_type m) \<noteq> None"
  by (cases m) (simp_all add: io_type_def)

definition quoted :: "string \<Rightarrow> string" where "quoted s = [CHR 0x22] @ s @ [CHR 0x22]"

definition load_message :: "string \<Rightarrow> string \<Rightarrow> value_error \<Rightarrow> string option" where
  "load_message path txt e =
     (case e of
        Invalid_argument \<Rightarrow> None
      | Not_all_read \<Rightarrow> Some (''unable to parse '' @ quoted path @ '' : '' @ txt)
      | Expected where_ which \<Rightarrow>
          (let pos = length txt - length where_
           in Some (''unable to parse '' @ quoted path @ '', invalid '' @ which @ '' value : ''
                @ tabbed 1 txt @ tabbed 1 (replicate pos CHR ''-'') @ ''^~~~~'' @ newline)))"

definition load_leaf ::
  "int x3_api \<Rightarrow> (string \<Rightarrow> string option) \<Rightarrow> string \<Rightarrow> member \<Rightarrow> string option + member" where
  "load_leaf api options path m =
     (case options path of
        None \<Rightarrow> Inr m
      | Some txt \<Rightarrow> (case parse_value api m txt of Inl e \<Rightarrow> Inl (load_message path txt e) | Inr m \<Rightarrow> Inr m))"

text \<open>The parser of a member as \<open>load_value_as\<close> of theory \<open>Described\<close> takes it.\<close>

definition member_parser :: "int x3_api \<Rightarrow> member \<Rightarrow> string \<Rightarrow> member option" where
  "member_parser api m txt = (case parse_value api m txt of Inl e \<Rightarrow> None | Inr m \<Rightarrow> Some m)"

lemma load_leaf_described:
  "load_value_as options (member_parser api) path (Leaf m) =
     (case load_leaf api options path m of Inl e \<Rightarrow> Inl path | Inr m \<Rightarrow> Inr (Leaf m))"
  by (auto simp: load_leaf_def member_parser_def split: option.splits sum.splits)

section \<open>Numbers\<close>

text \<open>What the unsigned parsers of Boost.Spirit are documented to do: read the digits at the front, and fail when
  there are none or when the number does not fit.\<close>

definition is_digit :: "char \<Rightarrow> bool" where "is_digit c \<longleftrightarrow> 48 \<le> (of_char c :: nat) \<and> (of_char c :: nat) \<le> 57"

definition number :: "string \<Rightarrow> nat" where
  "number ds = foldl (\<lambda>n c. 10 * n + (of_char c - 48)) 0 ds"

definition decimal :: "nat \<Rightarrow> string \<Rightarrow> (int \<times> string) option" where
  "decimal w s =
     (let ds = takeWhile is_digit s
      in if ds = [] \<or> 2 ^ w \<le> number ds then None else Some (int (number ds), drop (length ds) s))"

definition x3_ok :: "int x3_api \<Rightarrow> bool" where
  "x3_ok api \<longleftrightarrow> (\<forall>w s. x3_run api (X_uint w) s = decimal w s)"

lemma of_char_digit: "d < 10 \<Longrightarrow> of_char (digit d) = 48 + (d :: nat)"
  by (simp add: digit_def)

lemma digits_read: "number (digits n) = n \<and> list_all is_digit (digits n)"
proof (induction n rule: digits.induct)
  case (1 n)
  show ?case
  proof (cases "n < 10")
    case True
    then show ?thesis by (subst (1 2) digits.simps) (simp add: number_def is_digit_def of_char_digit)
  next
    case False
    then have "number (digits (n div 10)) = n div 10" "list_all is_digit (digits (n div 10))" using "1.IH" by simp_all
    with False show ?thesis
      by (subst (1 2) digits.simps) (simp add: number_def is_digit_def of_char_digit list_all_iff)
  qed
qed

lemma takeWhile_digits:
  assumes "list_all P xs" and "rest = [] \<or> \<not> P (hd rest)"
  shows "takeWhile P (xs @ rest) = xs"
  using assms by (cases rest) (simp_all add: list_all_iff takeWhile_append2 takeWhile_tail)

lemma decimal_digits:
  assumes "n < 2 ^ w" and "rest = [] \<or> \<not> is_digit (hd rest)"
  shows "decimal w (digits n @ rest) = Some (int n, rest)"
  using assms takeWhile_digits [OF conjunct2 [OF digits_read] assms(2), of n] digits_read [of n] by (simp add: decimal_def)

section \<open>Tuples\<close>

text \<open>An interface for parsers that read back what is printed, as long as a comma or nothing follows.\<close>

locale readable =
  fixes api :: "'a x3_api" and shown :: "'a \<Rightarrow> string" and valid :: "x3_prim \<Rightarrow> 'a \<Rightarrow> bool"
  assumes reads: "valid p a \<Longrightarrow> rest = [] \<or> hd rest = CHR '','' \<Longrightarrow> x3_run api p (shown a @ rest) = Some (a, rest)"
begin

definition commas :: "'a list \<Rightarrow> string" where
  "commas as = concat (map (\<lambda>a. CHR '','' # shown a) as)"

lemma commas_next: "commas as = [] \<or> hd (commas as) = CHR '',''"
  by (cases "as") (simp_all add: commas_def)

lemma fold_rest_reads:
  assumes "list_all2 valid ps as" and "x3_parse api acc (s @ commas as) = Match bs (commas as)"
  shows "x3_parse api (fold_rest acc (map X_prim ps)) (s @ commas as) = Match (bs @ as) []"
  using assms
proof (induction ps "as" arbitrary: acc s bs rule: list_all2_induct)
  case Nil
  then show ?case by (simp add: commas_def)
next
  case (Cons p ps a "as")
  have split: "commas (a # as) = CHR '','' # shown a @ commas as" by (simp add: commas_def)
  have "x3_parse api (X_sequence acc (X_sequence (X_lit CHR '','') (X_prim p))) ((s @ CHR '','' # shown a) @ commas as)
      = Match (bs @ [a]) (commas as)"
    using Cons.prems reads [OF Cons.hyps(1) commas_next, of "as"] by (simp add: split)
  from Cons.IH [OF this] show ?case by (simp add: split)
qed

lemma tuple_reads:
  assumes "list_all2 valid ps (a # as)" and "tuple_parser (map X_prim ps) = Some q"
  shows "x3_parse api q (shown a @ commas as) = Match (a # as) []"
proof -
  obtain p p' ps' where ps: "ps = p # p' # ps'" using assms(2)
    by (cases ps rule: remdups_adj.cases) (auto simp: tuple_parser_def)
  then obtain b bs where as: "as = b # bs" "valid p a" "valid p' b" "list_all2 valid ps' bs"
    using assms(1) by (auto simp: list_all2_Cons1)
  have split: "commas as = (CHR '','' # shown b) @ commas bs" by (simp add: commas_def as(1))
  have "x3_parse api (X_sequence (X_lit CHR '','') (X_prim p')) ((CHR '','' # shown b) @ commas bs) = Match [b] (commas bs)"
    using reads [OF as(3) commas_next, of bs] by simp
  from fold_rest_reads [OF as(4) this]
  have "x3_parse api (fold_rest (X_sequence (X_lit CHR '','') (X_prim p')) (map X_prim ps')) (commas as) = Match (b # bs) []"
    by (simp add: split)
  then show ?thesis
    using assms(2) reads [OF as(2) commas_next, of "as"] by (auto simp: ps as(1) tuple_parser_def)
qed

end

definition uint_valid :: "x3_prim \<Rightarrow> int \<Rightarrow> bool" where
  "uint_valid p k \<longleftrightarrow> (case p of X_uint w \<Rightarrow> 0 \<le> k \<and> k < 2 ^ w | _ \<Rightarrow> False)"

lemma x3_ok_readable:
  assumes "x3_ok api"
  shows "readable api to_string uint_valid"
proof
  fix p k and rest :: string
  assume v: "uint_valid p k" and r: "rest = [] \<or> hd rest = CHR '',''"
  then obtain w where w: "p = X_uint w" "0 \<le> k" "k < 2 ^ w" by (auto simp: uint_valid_def split: x3_prim.splits)
  then have "nat k < 2 ^ w" by (simp add: nat_less_numeral_power_cancel_iff)
  moreover have "rest = [] \<or> \<not> is_digit (hd rest)" using r by (auto simp: is_digit_def)
  ultimately show "x3_run api p (to_string k @ rest) = Some (k, rest)"
    using decimal_digits [of "nat k" w rest] assms w by (simp add: x3_ok_def to_string_def)
qed

text \<open>The unsigned parsers themselves.\<close>

definition decimal_api :: "int x3_api" where
  "decimal_api = \<lparr>x3_run = (\<lambda>p s. case p of X_uint w \<Rightarrow> decimal w s | _ \<Rightarrow> None), x3_what = (\<lambda>p. ''number'')\<rparr>"

lemma decimal_api_ok: "x3_ok decimal_api"
  by (simp add: x3_ok_def decimal_api_def)

interpretation uints: readable decimal_api to_string uint_valid
  by (rule x3_ok_readable [OF decimal_api_ok])

section \<open>Properties\<close>

definition read_bits :: "int_size \<Rightarrow> nat" where
  "read_bits n = (if n = B1 then 32 else bits n)"

abbreviation uint_name :: "int x3_api \<Rightarrow> int_size \<Rightarrow> string" where
  "uint_name api n \<equiv> x3_what api (X_prim (X_uint (read_bits n)))"

lemma parse_uint:
  assumes "x3_ok api"
  shows "parse_value api (Member_uint n v) s =
     (case decimal (read_bits n) s of
        None \<Rightarrow> Inl (Expected s (uint_name api n))
      | Some (k, rest) \<Rightarrow> if rest = [] then Inr (assign (Member_uint n v) k) else Inl Not_all_read)"
proof -
  have "x3_parse api (X_expect (the (type_parser (io_type (Member_uint n v))))) s =
      (case decimal (read_bits n) s of None \<Rightarrow> Expectation s (uint_name api n) | Some (k, rest) \<Rightarrow> Match [k] rest)"
    using assms by (cases n) (auto simp: io_type_def int_parser_def read_bits_def x3_ok_def split: option.splits)
  then show ?thesis
    by (simp only: parse_value_def member.case) (auto split: option.splits list.splits)
qed

lemma assign_uint: "assign (Member_uint n v) (int k) = Member_uint n (of_nat (k mod 2 ^ bits n))"
  by (simp add: assign_def flip: take_bit_eq_mod add: of_nat_take_bit)

lemma read_bits_le: "(2::nat) ^ bits n \<le> 2 ^ read_bits n"
  by (cases n) (simp_all add: read_bits_def)

lemma parse_uint_text:
  assumes "x3_ok api"
  shows "parse_value api (Member_uint n v) txt =
      (if list_all is_digit txt \<and> txt \<noteq> [] \<and> number txt < 2 ^ read_bits n
       then Inr (Member_uint n (of_nat (number txt mod 2 ^ bits n)))
       else if takeWhile is_digit txt = [] \<or> 2 ^ read_bits n \<le> number (takeWhile is_digit txt)
       then Inl (Expected txt (uint_name api n)) else Inl Not_all_read)"
proof -
  have all: "drop (length (takeWhile is_digit txt)) txt = [] \<longleftrightarrow> list_all is_digit txt"
    by (metis dropWhile_eq_drop dropWhile_eq_Nil_conv list_all_iff)
  show ?thesis
  proof (cases "list_all is_digit txt")
    case True
    then have tw: "takeWhile is_digit txt = txt" by (simp add: list_all_iff takeWhile_eq_all_conv)
    show ?thesis unfolding parse_uint [OF assms] decimal_def Let_def tw using True by (simp add: assign_uint)
  next
    case False
    then show ?thesis using all by (simp add: parse_uint [OF assms] decimal_def Let_def del: drop_eq_Nil)
  qed
qed

lemma parse_uint_digits:
  assumes "x3_ok api" and "unat v' < 2 ^ bits n"
  shows "parse_value api (Member_uint n v) (to_string (int (unat v'))) = Inr (Member_uint n v')"
proof -
  have "unat v' < 2 ^ read_bits n" using assms(2) read_bits_le [of n] by linarith
  then have "decimal (read_bits n) (digits (unat v')) = Some (int (unat v'), [])"
    using decimal_digits [of "unat v'" "read_bits n" "[]"] by simp
  then show ?thesis
    using assms(2) assign_uint [of n v "unat v'"] by (simp add: parse_uint [OF assms(1)] to_string_def)
qed

text \<open>The printer of \<open>config/io.cpp\<close> adds the number in hexadecimal to every number above nine.\<close>

lemma print_uint_digits: "list_all is_digit (print_uint v) \<longleftrightarrow> v < 10"
proof (cases "v < 10")
  case True
  then have "print_uint v = to_string (int (unat (ucast v :: u32)))" by (simp add: print_uint_def Let_def not_le)
  then show ?thesis using True digits_read by (simp add: to_string_def)
next
  case False
  then have "CHR ''('' \<in> set (print_uint v)" by (simp add: print_uint_def Let_def not_less)
  moreover have "\<not> is_digit CHR ''(''" by (simp add: is_digit_def)
  ultimately show ?thesis using False by (auto simp: list_all_iff)
qed

lemma print_uint_small: "v < 10 \<Longrightarrow> print_uint v = to_string (int (unat v))"
proof -
  assume v: "v < 10"
  then have "unat v < 10" using unat_mono by fastforce
  then have "unat (ucast v :: u32) = unat v" by (simp add: unat_ucast_mod)
  moreover have "\<not> 10 \<le> v" using v by simp
  ultimately show ?thesis by (simp add: print_uint_def Let_def del: of_nat_unat)
qed

lemma parse_printed:
  assumes "x3_ok api" and "unat v' < 2 ^ bits n"
  shows "parse_value api (Member_uint n v) (print_uint v') = Inr (Member_uint n v') \<longleftrightarrow> v' < 10"
  using print_uint_digits [of v'] print_uint_small [of v'] parse_uint_digits [OF assms]
  by (cases "v' < 10") (auto simp: parse_uint_text [OF assms(1)])

text \<open>C17: an integer member is read from exactly the texts that are a decimal number in the range of the type it
  is read as, and then holds that number: all of it for two bytes or more, and modulo 256 for a member of one
  byte, which is read as an \<open>unsigned int\<close>. Every other text is refused with a message that names the option. The
  decimal digits of a value are read back; what the program itself prints for a value is read back only below ten.\<close>

theorem uint_member_exact:
  assumes "x3_ok api"
  shows "(case parse_value api (Member_uint n v) txt of
            Inr m \<Rightarrow> list_all is_digit txt \<and> txt \<noteq> [] \<and> number txt < 2 ^ read_bits n
              \<and> m = Member_uint n (of_nat (number txt mod 2 ^ bits n))
          | Inl e \<Rightarrow> \<not> (list_all is_digit txt \<and> txt \<noteq> [] \<and> number txt < 2 ^ read_bits n)
              \<and> (\<exists>msg. load_message path txt e = Some (''unable to parse '' @ quoted path @ msg)))
       \<and> (unat v' < 2 ^ bits n \<longrightarrow>
            parse_value api (Member_uint n v) (to_string (int (unat v'))) = Inr (Member_uint n v')
          \<and> (parse_value api (Member_uint n v) (print_uint v') = Inr (Member_uint n v') \<longleftrightarrow> v' < 10))"
  using parse_uint_digits [OF assms] parse_printed [OF assms]
  by (auto simp: parse_uint_text [OF assms] load_message_def Let_def)

text \<open>The text 300 for a member of one byte: it is accepted and the member is 44.\<close>

theorem uint_member_exact_witness:
  "parse_value decimal_api (Member_uint B1 0) ''300'' = Inr (Member_uint B1 44)
   \<and> parse_value decimal_api (Member_uint B1 0) (to_string (int (unat (44 :: u64)))) = Inr (Member_uint B1 44)
   \<and> parse_value decimal_api (Member_uint B1 0) (print_uint 44) \<noteq> Inr (Member_uint B1 44)"
proof -
  have t: "list_all is_digit ''300''" "number ''300'' = 300" by (simp_all add: is_digit_def number_def)
  note u = uint_member_exact [OF decimal_api_ok, where ?n = B1 and ?v = 0 and ?txt = "''300''" and ?path = "''key''" and ?v' = 44]
  from u t show ?thesis by (cases "parse_value decimal_api (Member_uint B1 0) ''300''") (auto simp: read_bits_def)
qed

text \<open>A tuple of two or more unsigned integers is read back from its elements printed with commas between
  them. The parser of a tuple of one element does not compile.\<close>

theorem tuple_roundtrip:
  assumes "x3_ok api" and "2 \<le> length ts" and "length ks = length ts"
    and "\<forall>i < length ts. ks ! i < 2 ^ bits (ts ! i)"
  shows "\<exists>p. type_parser (C_tuple (map (C_int False) ts)) = Some p
       \<and> x3_parse api p (tl (concat (map (\<lambda>k. CHR '','' # to_string (int k)) ks))) = Match (map int ks) []
       \<and> type_parser (C_tuple [t]) = None"
proof -
  let ?ps = "map (\<lambda>n. X_uint (bits n)) ts"
  have parsers: "type_parsers (map (C_int False) ts) = Some (map X_prim (map (\<lambda>n. X_uint (bits n)) ts))" for ts
    by (induction ts) (simp_all add: int_parser_def)
  obtain k ks' where ks: "ks = k # ks'" using assms(2,3) by (cases ks) auto
  obtain q where q: "tuple_parser (map X_prim ?ps) = Some q"
    using assms(2) by (cases ts rule: remdups_adj.cases) (auto simp: tuple_parser_def)
  have "list_all2 uint_valid ?ps (map int ks)"
    using assms(3,4) by (auto simp: list_all2_conv_all_nth uint_valid_def)
  then have v: "list_all2 uint_valid ?ps (int k # map int ks')" by (simp add: ks)
  have printed: "tl (concat (map (\<lambda>k. CHR '','' # to_string (int k)) ks)) =
      to_string (int k) @ readable.commas to_string (map int ks')"
    by (simp add: ks readable.commas_def [OF x3_ok_readable [OF assms(1)]] comp_def)
  show ?thesis
    using parsers [of ts] q printed readable.tuple_reads [OF x3_ok_readable [OF assms(1)] v q]
    by (cases "type_parser t") (auto simp: ks tuple_parser_def)
qed

text \<open>A bitset is printed with its highest bit first.\<close>

definition print_bits :: "bool list \<Rightarrow> string" where
  "print_bits bs = map (\<lambda>b. if b then CHR ''1'' else CHR ''0'') (rev bs)"

text \<open>A bitset that is printed is read back.\<close>

theorem bits_roundtrip:
  assumes "length bs = length old"
  shows "parse_value api (Member_bits old) (print_bits bs) = Inr (Member_bits bs)"
  using assms by (auto simp: parse_value_def bitset_of_def print_bits_def Let_def rev_map comp_def)

section \<open>Loading a structure\<close>

text \<open>What a text says of a member that is a number or a bitset: a number of decimal digits in range; zeros and ones, the
  last of the first \<open>N\<close> for bit 0.\<close>

fun reads :: "member \<Rightarrow> string \<Rightarrow> member option" where
  "reads (Member_uint n v) txt =
     (if list_all is_digit txt \<and> txt \<noteq> [] \<and> number txt < 2 ^ read_bits n
      then Some (Member_uint n (of_nat (number txt mod 2 ^ bits n))) else None)"
| "reads (Member_bits bs) txt =
     (let k = min (length bs) (length txt)
      in if set txt \<subseteq> {CHR ''0'', CHR ''1''}
         then Some (Member_bits (map (\<lambda>i. i < k \<and> txt ! (k - 1 - i) = CHR ''1'') [0..<length bs])) else None)"
| "reads (Member_flags names v) txt = None"

definition no_flags :: "member \<Rightarrow> bool" where
  "no_flags m \<longleftrightarrow> (\<forall>names v. m \<noteq> Member_flags names v)"

lemma bitset_of_nth:
  "bitset_of N txt =
     (if set txt \<subseteq> {CHR ''0'', CHR ''1''}
      then Some (map (\<lambda>i. i < min N (length txt) \<and> txt ! (min N (length txt) - 1 - i) = CHR ''1'') [0..<N]) else None)"
proof -
  have "rev (map (\<lambda>c. c = CHR ''1'') (take N txt)) @ replicate (N - min N (length txt)) False =
      map (\<lambda>i. i < min N (length txt) \<and> txt ! (min N (length txt) - 1 - i) = CHR ''1'') [0..<N]"
    by (rule nth_equalityI) (auto simp: nth_append rev_nth min_def)
  then show ?thesis by (simp add: bitset_of_def Let_def min.commute)
qed

lemma member_parser_reads: "x3_ok api \<Longrightarrow> no_flags m \<Longrightarrow> member_parser api m txt = reads m txt"
proof (cases m)
  case (Member_bits bs)
  then show ?thesis by (simp add: member_parser_def parse_value_def bitset_of_nth Let_def)
qed (auto simp: no_flags_def member_parser_def parse_uint_text)

lemma fails_at_first:
  "fails_at options parse e ls \<Longrightarrow> \<exists>pre v txt post. ls = pre @ (e, v) # post \<and> options e = Some txt \<and> parse v txt = None
     \<and> (\<forall>(key, v) \<in> set pre. \<forall>txt. options key = Some txt \<longrightarrow> parse v txt \<noteq> None)"
proof (induction ls)
  case (Cons l ls)
  obtain key v where l: "l = (key, v)" by fastforce
  show ?case
  proof (cases "loaded options parse l")
    case None
    then show ?thesis using Cons.prems by (intro exI [of _ "[]"]) (auto simp: l loaded_def split: option.splits)
  next
    case (Some v')
    then obtain pre w str post where "ls = pre @ (e, w) # post" "options e = Some str" "parse w str = None"
      "\<forall>(key, v) \<in> set pre. \<forall>txt. options key = Some txt \<longrightarrow> parse v txt \<noteq> None" using Cons by auto
    then show ?thesis using Some by (intro exI [of _ "l # pre"]) (auto simp: l loaded_def split: option.splits)
  qed
qed simp


text \<open>A structure with a member of one byte and a bitset of four, for which the options give 300 and 101; and a text for the
  bitset that is refused.\<close>

definition example_members :: "member described" where
  "example_members = Struct [(''a'', Leaf (Member_uint B1 0)), (''b'', Leaf (Member_bits [False, True, True, False]))]"


end
