(* ===== verification/Logging.thy ===== *)
theory Logging
  imports Errors
begin

text \<open>
  Log output: \<open>rtexx::log\<close>, \<open>rte_logger_ex\<close>, the table of loggers by type and their creation at first use
  (\<open>dpdkx/log.hpp\<close>, \<open>dpdkx/log.cpp\<close>, \<open>dpdkx/loggers.{hpp,cpp}\<close>), and the filter of the console in
  \<open>sockperf_cli/loggers.cpp\<close>. DPDK's log types and the formatting library are fields of \<open>log_api\<close>.
\<close>

section \<open>Levels\<close>

datatype log_level = Emergancy | Alert | Critical | Error | Warning | Notice | Info | Debug

primrec level_nr :: "log_level \<Rightarrow> nat" where
  "level_nr Emergancy = 1" | "level_nr Alert = 2" | "level_nr Critical = 3" | "level_nr Error = 4"
| "level_nr Warning = 5" | "level_nr Notice = 6" | "level_nr Info = 7" | "level_nr Debug = 8"

instantiation log_level :: linorder
begin

definition less_eq_log_level :: "log_level \<Rightarrow> log_level \<Rightarrow> bool" where
  "l \<le> l' \<longleftrightarrow> level_nr l \<le> level_nr l'"

definition less_log_level :: "log_level \<Rightarrow> log_level \<Rightarrow> bool" where
  "l < l' \<longleftrightarrow> level_nr l < level_nr l'"

instance
proof
  fix l l' l'' :: log_level
  show "l < l' \<longleftrightarrow> l \<le> l' \<and> \<not> l' \<le> l" by (auto simp: less_eq_log_level_def less_log_level_def)
  show "l \<le> l" by (simp add: less_eq_log_level_def)
  show "l \<le> l' \<Longrightarrow> l' \<le> l'' \<Longrightarrow> l \<le> l''" by (simp add: less_eq_log_level_def)
  show "l \<le> l' \<Longrightarrow> l' \<le> l \<Longrightarrow> l = l'" by (cases l; cases l') (simp_all add: less_eq_log_level_def)
  show "l \<le> l' \<or> l' \<le> l" by (auto simp: less_eq_log_level_def)
qed

end

section \<open>Writing\<close>

text \<open>\<open>can_log\<close> is \<open>rte_log_can_log\<close>, \<open>register_type\<close> is \<open>rte_log_register_type_and_pick_level\<close>; \<open>format\<close> returns
  the text or, as \<open>Inl\<close>, what its exception says.\<close>

record 'a log_api =
  can_log :: "int \<Rightarrow> log_level \<Rightarrow> bool"
  register_type :: "string \<Rightarrow> log_level \<Rightarrow> int"
  format :: "string \<Rightarrow> 'a \<Rightarrow> string + string"

datatype stream_call = Write string | Flush

definition entry :: "'a log_api \<Rightarrow> string \<Rightarrow> 'a \<Rightarrow> string" where
  "entry api fmt args =
     (case format api fmt args of
        Inr txt \<Rightarrow> txt @ [CHR 0x0A]
      | Inl what \<Rightarrow> ''unable format log entry : '' @ what)"

definition log_entry :: "'a log_api \<Rightarrow> int \<Rightarrow> log_level \<Rightarrow> string \<Rightarrow> 'a \<Rightarrow> stream_call list" where
  "log_entry api logtype level fmt args =
     (if \<not> can_log api logtype level then [] else [Write (entry api fmt args), Flush])"

text \<open>\<open>rte_logger_ex<MaxLogLevel>::log<LogLevel>\<close>, and the level each of its methods has.\<close>

definition log_at :: "'a log_api \<Rightarrow> log_level \<Rightarrow> int \<Rightarrow> log_level \<Rightarrow> string \<Rightarrow> 'a \<Rightarrow> stream_call list" where
  "log_at api max_level logtype level fmt args = (if level \<le> max_level then log_entry api logtype level fmt args else [])"

datatype log_method = M_trace | M_debug | M_info | M_warn | M_error | M_critical | M_alert | M_emergency

primrec method_level :: "log_method \<Rightarrow> log_level" where
  "method_level M_trace = Debug" | "method_level M_debug = Debug" | "method_level M_info = Info"
| "method_level M_warn = Warning" | "method_level M_error = Error" | "method_level M_critical = Critical"
| "method_level M_alert = Alert" | "method_level M_emergency = Emergancy"

section \<open>Loggers by type\<close>

datatype log_tag = Config_log | Job_log | Device_log | Sink_log | Other_log string

text \<open>\<open>traits<T>::type\<close> as the highest level that is compiled in; \<open>None\<close> is the \<open>null_logger\<close>. \<open>ndebug\<close> holds in a
  release build.\<close>

definition logger_traits :: "bool \<Rightarrow> log_tag \<Rightarrow> log_level option" where
  "logger_traits ndebug tag =
     (case tag of
        Config_log \<Rightarrow> Some Debug
      | Job_log \<Rightarrow> Some Debug
      | Device_log \<Rightarrow> Some (if ndebug then Warning else Debug)
      | Sink_log \<Rightarrow> if ndebug then None else Some Debug
      | Other_log name \<Rightarrow> None)"

definition logger_name :: "log_tag \<Rightarrow> string" where
  "logger_name tag =
     (case tag of Config_log \<Rightarrow> ''dpdkx::device'' | Job_log \<Rightarrow> ''dpdkx::job'' | Device_log \<Rightarrow> ''dpdkx::device''
      | Sink_log \<Rightarrow> ''dpdkx::sink'' | Other_log name \<Rightarrow> name)"

text \<open>The loggers that exist with their log types, and what was written.\<close>

record log_state =
  lg_types :: "log_tag \<Rightarrow> int option"
  lg_registered :: "log_tag list"
  lg_out :: "stream_call list"

definition no_loggers :: log_state where
  "no_loggers = \<lparr>lg_types = (\<lambda>_. None), lg_registered = [], lg_out = []\<rparr>"

definition register_log_type :: "'a log_api \<Rightarrow> string \<Rightarrow> log_level \<Rightarrow> string + int" where
  "register_log_type api name level =
     (let t = register_type api name level in if t < 0 then Inl (''unable register log : '' @ name) else Inr t)"

text \<open>\<open>logger<T>()\<close> creates its logger at the first call; a creation that throws is tried again by the next.\<close>

definition logger :: "'a log_api \<Rightarrow> log_tag \<Rightarrow> log_state \<Rightarrow> (string + int) \<times> log_state" where
  "logger api tag st =
     (case lg_types st tag of
        Some t \<Rightarrow> (Inr t, st)
      | None \<Rightarrow>
          (case register_log_type api (logger_name tag) Info of
             Inl e \<Rightarrow> (Inl e, st)
           | Inr t \<Rightarrow> (Inr t, st\<lparr>lg_types := (lg_types st)(tag := Some t), lg_registered := lg_registered st @ [tag]\<rparr>)))"

text \<open>A statement \<open>logger<T>().method(fmt, args...)\<close>; \<open>Some\<close> is the text of an exception.\<close>

record 'a log_stmt =
  lc_tag :: log_tag
  lc_method :: log_method
  lc_fmt :: string
  lc_args :: 'a

definition log_stmt_run :: "'a log_api \<Rightarrow> bool \<Rightarrow> 'a log_stmt \<Rightarrow> log_state \<Rightarrow> string option \<times> log_state" where
  "log_stmt_run api ndebug c st =
     (case logger_traits ndebug (lc_tag c) of
        None \<Rightarrow> (None, st)
      | Some max_level \<Rightarrow>
          (case logger api (lc_tag c) st of
             (Inl e, st) \<Rightarrow> (Some e, st)
           | (Inr t, st) \<Rightarrow>
               (None, st\<lparr>lg_out := lg_out st @ log_at api max_level t (method_level (lc_method c)) (lc_fmt c) (lc_args c)\<rparr>)))"

definition log_all :: "'a log_api \<Rightarrow> bool \<Rightarrow> 'a log_stmt list \<Rightarrow> log_state \<Rightarrow> log_state" where
  "log_all api ndebug cs st = fold (\<lambda>c st. snd (log_stmt_run api ndebug c st)) cs st"

section \<open>The console of the benchmark\<close>

datatype severity = Sev_trace | Sev_debug | Sev_info | Sev_warning | Sev_error | Sev_fatal

primrec severity_nr :: "severity \<Rightarrow> nat" where
  "severity_nr Sev_trace = 0" | "severity_nr Sev_debug = 1" | "severity_nr Sev_info = 2"
| "severity_nr Sev_warning = 3" | "severity_nr Sev_error = 4" | "severity_nr Sev_fatal = 5"

text \<open>\<open>configure_default_logger\<close>: whether a record of a channel is shown.\<close>

definition console_shows :: "bool \<Rightarrow> string \<Rightarrow> severity \<Rightarrow> bool" where
  "console_shows verbose channel sev \<longleftrightarrow>
     (if verbose
      then severity_nr Sev_info \<le> severity_nr sev \<or> (channel \<noteq> ''stats'' \<and> severity_nr Sev_trace \<le> severity_nr sev)
      else severity_nr Sev_info \<le> severity_nr sev)"

section \<open>Properties\<close>

text \<open>What a sequence of statements writes: one entry for every statement whose level is compiled in and enabled.\<close>

definition shown :: "'a log_api \<Rightarrow> bool \<Rightarrow> (log_tag \<Rightarrow> int option) \<Rightarrow> 'a log_stmt \<Rightarrow> string option" where
  "shown api ndebug types c =
     (case (logger_traits ndebug (lc_tag c), types (lc_tag c)) of
        (Some max_level, Some t) \<Rightarrow>
          if method_level (lc_method c) \<le> max_level \<and> can_log api t (method_level (lc_method c))
          then Some (entry api (lc_fmt c) (lc_args c)) else None
      | _ \<Rightarrow> None)"

definition log_wf :: "'a log_api \<Rightarrow> log_state \<Rightarrow> bool" where
  "log_wf api st \<longleftrightarrow> distinct (lg_registered st) \<and> set (lg_registered st) = {tag. lg_types st tag \<noteq> None}
     \<and> (\<forall>tag t. lg_types st tag = Some t \<longrightarrow> t = register_type api (logger_name tag) Info \<and> 0 \<le> t)"

definition log_types :: "'a log_api \<Rightarrow> log_tag \<Rightarrow> int option" where
  "log_types api tag = (let t = register_type api (logger_name tag) Info in if t < 0 then None else Some t)"

lemma log_stmt_run_spec:
  assumes "log_wf api st" and "log_stmt_run api ndebug c st = (e, st')"
  shows "log_wf api st' \<and> (\<exists>tags. lg_registered st' = lg_registered st @ tags)
     \<and> lg_out st' = lg_out st @ (case shown api ndebug (log_types api) c of None \<Rightarrow> [] | Some s \<Rightarrow> [Write s, Flush])"
proof (cases "logger_traits ndebug (lc_tag c)")
  case None
  then show ?thesis using assms by (simp add: log_stmt_run_def shown_def)
next
  case (Some max_level)
  show ?thesis
  proof (cases "lg_types st (lc_tag c)")
    case None
    then have "lc_tag c \<notin> set (lg_registered st)" using assms(1) by (simp add: log_wf_def)
    with None Some assms show ?thesis
      by (auto simp: log_stmt_run_def logger_def register_log_type_def log_wf_def shown_def log_types_def log_at_def log_entry_def Let_def split: if_splits)
  next
    case (Some t)
    then have t: "t = register_type api (logger_name (lc_tag c)) Info" "0 \<le> t" using assms(1) unfolding log_wf_def by blast+
    then have "log_types api (lc_tag c) = Some t" by (simp add: log_types_def Let_def)
    with Some \<open>logger_traits ndebug (lc_tag c) = Some max_level\<close> assms show ?thesis
      by (auto simp: log_stmt_run_def logger_def log_wf_def shown_def log_at_def log_entry_def)
  qed
qed

lemma log_all_spec:
  "log_wf api st \<Longrightarrow> log_wf api (log_all api ndebug cs st)
     \<and> lg_out (log_all api ndebug cs st) = lg_out st
         @ concat (map (\<lambda>s. [Write s, Flush]) (List.map_filter (shown api ndebug (log_types api)) cs))"
proof (induction cs arbitrary: st)
  case Nil
  then show ?case by (simp add: log_all_def map_filter_simps)
next
  case (Cons c cs)
  obtain e st1 where st1: "log_stmt_run api ndebug c st = (e, st1)" by fastforce
  note step = log_stmt_run_spec [OF Cons.prems st1]
  have "log_all api ndebug (c # cs) st = log_all api ndebug cs st1" by (simp add: log_all_def st1)
  then show ?case using Cons.IH [of st1] step by (auto simp: map_filter_simps split: option.splits)
qed

text \<open>The log writes, in order and each with one call that is flushed at once, exactly the entries whose level is
  compiled in, whose logger could be registered and whose level is enabled; every logger is registered once.\<close>

theorem log_output:
  "lg_out (log_all api ndebug cs no_loggers) =
     concat (map (\<lambda>s. [Write s, Flush]) (List.map_filter (shown api ndebug (log_types api)) cs))
   \<and> distinct (lg_registered (log_all api ndebug cs no_loggers))"
proof -
  have "log_wf api no_loggers" by (simp add: log_wf_def no_loggers_def)
  from log_all_spec [OF this, of ndebug cs] show ?thesis by (simp add: no_loggers_def log_wf_def)
qed

text \<open>An entry that cannot be formatted has no end of line: the next entry continues it.\<close>

theorem format_error_joins_lines:
  "format api fmt args = Inl what \<Longrightarrow> CHR 0x0A \<notin> set what \<Longrightarrow> CHR 0x0A \<notin> set (entry api fmt args)"
  by (simp add: entry_def)

text \<open>In a release build the information of a device is never written: its logger is compiled for warnings.\<close>

theorem release_device_silent:
  assumes "\<forall>c \<in> set cs. lc_tag c = Device_log \<and> lc_method c \<in> {M_trace, M_debug, M_info}"
  shows "lg_out (log_all api True cs no_loggers) = []"
proof -
  have "shown api True (log_types api) c = None" if "c \<in> set cs" for c
    using assms that by (fastforce simp: shown_def logger_traits_def less_eq_log_level_def split: option.splits)
  then have "List.map_filter (shown api True (log_types api)) cs = []" by (induction cs) (simp_all add: map_filter_simps)
  moreover have "log_wf api no_loggers" by (simp add: log_wf_def no_loggers_def)
  ultimately show ?thesis using log_all_spec [of api no_loggers True cs] by (simp add: no_loggers_def)
qed

text \<open>The option \<open>verbose\<close> shows every record but the details of the statistics, which nothing shows.\<close>

theorem console_filter:
  "console_shows True channel sev \<longleftrightarrow> \<not> (channel = ''stats'' \<and> sev \<in> {Sev_trace, Sev_debug})"
  "console_shows False channel sev \<longleftrightarrow> sev \<notin> {Sev_trace, Sev_debug}"
  by (cases sev; simp add: console_shows_def)+

end
