(* ===== verification/Resources.thy ===== *)
theory Resources
  imports Dpdk_Prelude
begin

text \<open>
  Small owners of external resources: \<open>allocate_memory\<close> (\<open>dpdkx/memory.hpp\<close>), \<open>make_scoped_mempool\<close>
  (\<open>dpdkx/mempool.cpp\<close>), the ring handle \<open>tx_ring\<close>
  (\<open>dpdkx/detail/tx_ring.{hpp,cpp}\<close>) with its moves and its destructor, the initialisation of DPDK
  (\<open>dpdkx/utils.{hpp,cpp}\<close>) and the member function proxy \<open>mem_fn\<close> (\<open>dpdkx/detail/proxy/mem_fn.hpp\<close>).
\<close>

section \<open>Memory\<close>

text \<open>\<open>rte_malloc\<close> gets the number of bytes, computed in 64 bits; \<open>None\<close> is \<open>std::bad_alloc\<close>.\<close>

definition allocate_memory :: "(string option \<Rightarrow> u64 \<Rightarrow> 'p option) \<Rightarrow> u64 \<Rightarrow> u64 \<Rightarrow> string option \<Rightarrow> 'p option" where
  "allocate_memory rte_malloc sizeof_T n name = rte_malloc name (n * sizeof_T)"

text \<open>\<open>make_scoped_mempool\<close>: \<open>rte_pktmbuf_pool_create\<close> returns the pool, or null with the value of \<open>rte_errno\<close>, which is
  thrown with a message that names the pool.\<close>

definition make_scoped_mempool ::
  "(string option \<Rightarrow> u32 \<Rightarrow> u32 \<Rightarrow> u16 \<Rightarrow> u16 \<Rightarrow> int \<Rightarrow> int + 'p) \<Rightarrow>
     string option \<Rightarrow> u32 \<Rightarrow> u32 \<Rightarrow> u16 \<Rightarrow> u16 \<Rightarrow> int \<Rightarrow> (int \<times> string) + 'p" where
  "make_scoped_mempool rte_pktmbuf_pool_create name n cache_size priv_size data_room_size socket_id =
     (case rte_pktmbuf_pool_create name n cache_size priv_size data_room_size socket_id of
        Inl err \<Rightarrow> Inl (err, ''unable to allocate : '' @ (case name of Some s \<Rightarrow> s | None \<Rightarrow> ''pktmbuf pool''))
      | Inr pool \<Rightarrow> Inr pool)"

section \<open>Rings\<close>

text \<open>Variables of class \<open>tx_ring\<close>: \<open>None\<close> is a variable that does not exist, \<open>Some None\<close> one whose ring was moved
  away. Rings are numbered in the order of their creation; \<open>rs_freed\<close> lists what was given to
  \<open>rte_ring_free\<close>.\<close>

record ring_store =
  rs_vars :: "nat \<Rightarrow> nat option option"
  rs_created :: nat
  rs_freed :: "nat list"

definition no_rings :: ring_store where
  "no_rings = \<lparr>rs_vars = (\<lambda>_. None), rs_created = 0, rs_freed = []\<rparr>"

text \<open>The constructor throws when \<open>rte_ring_create\<close> fails, and the variable does not come to exist.\<close>

definition tx_ring_create :: "bool \<Rightarrow> nat \<Rightarrow> ring_store \<Rightarrow> ring_store" where
  "tx_ring_create ok v st =
     (if ok then st\<lparr>rs_vars := (rs_vars st)(v := Some (Some (rs_created st))), rs_created := rs_created st + 1\<rparr> else st)"

text \<open>\<open>std::exchange(other.ring_, nullptr)\<close>.\<close>

definition exchange_ring :: "nat \<Rightarrow> ring_store \<Rightarrow> nat option \<times> ring_store" where
  "exchange_ring w st =
     ((case rs_vars st w of None \<Rightarrow> None | Some r \<Rightarrow> r), st\<lparr>rs_vars := (rs_vars st)(w := Some None)\<rparr>)"

definition tx_ring_move :: "nat \<Rightarrow> nat \<Rightarrow> ring_store \<Rightarrow> ring_store" where
  "tx_ring_move v w st = (let (r, st) = exchange_ring w st in st\<lparr>rs_vars := (rs_vars st)(v := Some r)\<rparr>)"

definition tx_ring_assign :: "nat \<Rightarrow> nat \<Rightarrow> ring_store \<Rightarrow> ring_store" where
  "tx_ring_assign v w st = (let (r, st) = exchange_ring w st in st\<lparr>rs_vars := (rs_vars st)(v := Some r)\<rparr>)"

definition tx_ring_destroy :: "nat \<Rightarrow> ring_store \<Rightarrow> ring_store" where
  "tx_ring_destroy v st =
     st\<lparr>rs_vars := (rs_vars st)(v := None),
        rs_freed := rs_freed st @ (case rs_vars st v of Some (Some r) \<Rightarrow> [r] | _ \<Rightarrow> [])\<rparr>"

text \<open>The program's use of such variables, step by step: a new variable is created or moved into, an existing one
  is assigned to or destroyed.\<close>

inductive ring_step :: "ring_store \<Rightarrow> ring_store \<Rightarrow> bool" where
  create: "rs_vars st v = None \<Longrightarrow> ring_step st (tx_ring_create ok v st)"
| move: "rs_vars st v = None \<Longrightarrow> rs_vars st w \<noteq> None \<Longrightarrow> ring_step st (tx_ring_move v w st)"
| assign: "rs_vars st v \<noteq> None \<Longrightarrow> rs_vars st w \<noteq> None \<Longrightarrow> ring_step st (tx_ring_assign v w st)"
| destroy: "rs_vars st v \<noteq> None \<Longrightarrow> ring_step st (tx_ring_destroy v st)"

inductive_cases ring_stepE: "ring_step st st'"

inductive ring_reach :: "ring_store \<Rightarrow> bool" where
  start: "ring_reach no_rings"
| step: "ring_reach st \<Longrightarrow> ring_step st st' \<Longrightarrow> ring_reach st'"

section \<open>The run-time environment\<close>

text \<open>\<open>eal_init\<close>: the exception, or a guard whose destructor calls \<open>rte_eal_cleanup\<close>.\<close>

definition eal_init :: "(string list \<Rightarrow> int) \<Rightarrow> (int \<Rightarrow> string) \<Rightarrow> string list \<Rightarrow> string + unit" where
  "eal_init rte_eal_init dec eal_strings =
     (let err = rte_eal_init eal_strings in if err < 0 then Inl (''rte_eal_init failed : '' @ dec err) else Inr ())"

section \<open>Proxies of member functions\<close>

text \<open>An object by its address, and the dispatcher of a member function by its identity.\<close>

record mem_fn =
  mf_obj :: "nat option"
  mf_dispatcher :: "nat option"

definition mem_fn_default :: mem_fn where
  "mem_fn_default = \<lparr>mf_obj = None, mf_dispatcher = None\<rparr>"

definition make_proxy :: "nat \<Rightarrow> nat option \<Rightarrow> mem_fn" where
  "make_proxy f obj = \<lparr>mf_obj = obj, mf_dispatcher = Some f\<rparr>"

text \<open>The call; \<open>None\<close> is a null pointer.\<close>

definition mem_fn_call :: "(nat \<Rightarrow> nat \<Rightarrow> 'a \<Rightarrow> 'b) \<Rightarrow> mem_fn \<Rightarrow> 'a \<Rightarrow> 'b option" where
  "mem_fn_call method p args =
     (case (mf_dispatcher p, mf_obj p) of (Some f, Some obj) \<Rightarrow> Some (method f obj args) | _ \<Rightarrow> None)"

definition mem_fn_eq :: "mem_fn \<Rightarrow> mem_fn \<Rightarrow> bool" where
  "mem_fn_eq p q \<longleftrightarrow> mf_obj p = mf_obj q \<and> mf_dispatcher p = mf_dispatcher q"

definition mem_fn_not :: "mem_fn \<Rightarrow> bool" where
  "mem_fn_not p \<longleftrightarrow> mf_obj p \<noteq> None"

section \<open>Properties\<close>

text \<open>The number of bytes is that of the elements as long as it fits into 64 bits; a larger number of elements gets a
  block that is too small, and no exception.\<close>

theorem allocate_memory_size:
  assumes "0 < unat sizeof_T"
  shows "(allocate_memory (\<lambda>name bytes. Some (unat bytes)) sizeof_T n name = Some (unat n * unat sizeof_T))
     \<longleftrightarrow> unat n * unat sizeof_T < 2 ^ 64"
proof -
  have "unat (n * sizeof_T) = unat n * unat sizeof_T mod 2 ^ 64" by (simp add: unat_word_ariths)
  moreover have "x mod 2 ^ 64 = x \<longleftrightarrow> x < 2 ^ 64" for x :: nat by (metis mod_less mod_less_divisor zero_less_numeral zero_less_power)
  ultimately show ?thesis by (simp add: allocate_memory_def)
qed

definition rings_ok :: "ring_store \<Rightarrow> bool" where
  "rings_ok st \<longleftrightarrow> distinct (rs_freed st) \<and> (\<forall>r \<in> set (rs_freed st). r < rs_created st)
     \<and> (\<forall>v r. rs_vars st v = Some (Some r) \<longrightarrow> r < rs_created st \<and> r \<notin> set (rs_freed st))
     \<and> (\<forall>v v' r. rs_vars st v = Some (Some r) \<longrightarrow> rs_vars st v' = Some (Some r) \<longrightarrow> v = v')"

lemma rings_okI:
  assumes "distinct (rs_freed st)" and "\<And>r. r \<in> set (rs_freed st) \<Longrightarrow> r < rs_created st"
    and "\<And>v r. rs_vars st v = Some (Some r) \<Longrightarrow> r < rs_created st \<and> r \<notin> set (rs_freed st)"
    and "\<And>v v' r. rs_vars st v = Some (Some r) \<Longrightarrow> rs_vars st v' = Some (Some r) \<Longrightarrow> v = v'"
  shows "rings_ok st"
  unfolding rings_ok_def using assms by blast

lemma rings_okD:
  assumes "rings_ok st"
  shows "distinct (rs_freed st)" "r \<in> set (rs_freed st) \<Longrightarrow> r < rs_created st"
    "rs_vars st v = Some (Some r) \<Longrightarrow> r < rs_created st" "rs_vars st v = Some (Some r) \<Longrightarrow> r \<notin> set (rs_freed st)"
    "rs_vars st v = Some (Some r) \<Longrightarrow> rs_vars st v' = Some (Some r) \<Longrightarrow> v = v'"
  using assms unfolding rings_ok_def by blast+

lemma rings_ok_create:
  assumes "rings_ok st"
  shows "rings_ok (tx_ring_create ok v st)"
proof (cases ok)
  case True
  have fresh: "rs_vars st u \<noteq> Some (Some (rs_created st))" "rs_created st \<notin> set (rs_freed st)" for u
    using rings_okD(2,3) [OF assms] by blast+
  have vars: "rs_vars (tx_ring_create ok v st) u = (if u = v then Some (Some (rs_created st)) else rs_vars st u)" for u
    using True by (simp add: tx_ring_create_def)
  have rest: "rs_freed (tx_ring_create ok v st) = rs_freed st" "rs_created (tx_ring_create ok v st) = Suc (rs_created st)"
    using True by (simp_all add: tx_ring_create_def)
  show ?thesis
  proof (rule rings_okI)
    fix u u' r
    assume "rs_vars (tx_ring_create ok v st) u = Some (Some r)" "rs_vars (tx_ring_create ok v st) u' = Some (Some r)"
    then show "u = u'" using fresh(1) rings_okD(5) [OF assms] by (metis vars option.inject)
  qed (use fresh rings_okD(1-4) [OF assms] in \<open>auto simp: vars rest less_Suc_eq split: if_splits\<close>)
qed (use assms in \<open>simp add: tx_ring_create_def\<close>)

text \<open>A handle names after an assignment what the source or itself named before.\<close>

lemma assign_vars:
  assumes "rs_vars (tx_ring_assign v w st) u = Some (Some r)"
  shows "rs_vars st (if u = v then w else u) = Some (Some r)" and "u = w \<Longrightarrow> v = w"
  using assms by (auto simp: tx_ring_assign_def exchange_ring_def split: option.splits if_splits)

lemma assign_rest: "rs_created (tx_ring_assign v w st) = rs_created st" "rs_freed (tx_ring_assign v w st) = rs_freed st"
  by (simp_all add: tx_ring_assign_def exchange_ring_def)

lemma rings_ok_assign:
  assumes "rings_ok st"
  shows "rings_ok (tx_ring_assign v w st)"
proof (rule rings_okI)
  fix u u' r
  assume u: "rs_vars (tx_ring_assign v w st) u = Some (Some r)" and u': "rs_vars (tx_ring_assign v w st) u' = Some (Some r)"
  then show "u = u'"
    using rings_okD(5) [OF assms assign_vars(1) [OF u] assign_vars(1) [OF u']] assign_vars(2) [OF u] assign_vars(2) [OF u']
    by (auto split: if_splits)
next
  fix u r
  assume u: "rs_vars (tx_ring_assign v w st) u = Some (Some r)"
  show "r < rs_created (tx_ring_assign v w st) \<and> r \<notin> set (rs_freed (tx_ring_assign v w st))"
    using rings_okD(3,4) [OF assms assign_vars(1) [OF u]] by (simp add: assign_rest)
qed (use rings_okD(1,2) [OF assms] in \<open>simp_all add: assign_rest\<close>)

lemma rings_ok_destroy:
  assumes "rings_ok st"
  shows "rings_ok (tx_ring_destroy v st)"
proof (rule rings_okI)
  fix u u' r
  assume "rs_vars (tx_ring_destroy v st) u = Some (Some r)" "rs_vars (tx_ring_destroy v st) u' = Some (Some r)"
  then have "rs_vars st u = Some (Some r)" "rs_vars st u' = Some (Some r)" by (simp_all add: tx_ring_destroy_def split: if_splits)
  then show "u = u'" by (rule rings_okD(5) [OF assms])
next
  fix u r
  assume u: "rs_vars (tx_ring_destroy v st) u = Some (Some r)"
  then have "u \<noteq> v" "rs_vars st u = Some (Some r)" by (auto simp: tx_ring_destroy_def split: if_splits)
  then show "r < rs_created (tx_ring_destroy v st) \<and> r \<notin> set (rs_freed (tx_ring_destroy v st))"
    using rings_okD(3,4) [OF assms, of u r] rings_okD(5) [OF assms, of u r v]
    by (auto simp: tx_ring_destroy_def split: option.splits)
next
  show "distinct (rs_freed (tx_ring_destroy v st))"
    using rings_okD(1) [OF assms] rings_okD(4) [OF assms, of v] by (auto simp: tx_ring_destroy_def split: option.splits)
  show "r \<in> set (rs_freed (tx_ring_destroy v st)) \<Longrightarrow> r < rs_created (tx_ring_destroy v st)" for r
    using rings_okD(2) [OF assms] rings_okD(3) [OF assms, of v] by (auto simp: tx_ring_destroy_def split: option.splits)
qed

lemma ring_step_ok: "ring_step st st' \<Longrightarrow> rings_ok st \<Longrightarrow> rings_ok st'"
proof (erule ring_stepE)
  fix v w
  assume "rings_ok st" "st' = tx_ring_move v w st"
  then show "rings_ok st'" using rings_ok_assign [of st v w] by (simp only: tx_ring_move_def tx_ring_assign_def)
qed (simp_all only: rings_ok_create rings_ok_destroy rings_ok_assign)

text \<open>However ring handles are created, moved, assigned and destroyed, no ring is freed twice, no handle names a
  ring that was freed, and no two handles name the same ring.\<close>

theorem rings_never_freed_twice:
  assumes "ring_reach st"
  shows "distinct (rs_freed st)
     \<and> (\<forall>v r. rs_vars st v = Some (Some r) \<longrightarrow> r \<notin> set (rs_freed st))
     \<and> (\<forall>v v' r. rs_vars st v = Some (Some r) \<and> rs_vars st v' = Some (Some r) \<longrightarrow> v = v')"
proof -
  from assms have "rings_ok st"
    by induction (simp_all add: ring_step_ok, simp add: rings_ok_def no_rings_def)
  then show ?thesis unfolding rings_ok_def by blast
qed

text \<open>A ring is moved into a second variable, and both variables are destroyed: it is freed once.\<close>

lemma example_ring_reach: "ring_reach (tx_ring_destroy 0 (tx_ring_destroy 1 (tx_ring_move 1 0 (tx_ring_create True 0 no_rings))))"
proof -
  let ?a = "tx_ring_create True 0 no_rings" let ?b = "tx_ring_move 1 0 ?a" let ?c = "tx_ring_destroy 1 ?b"
  note defs = tx_ring_create_def tx_ring_move_def tx_ring_destroy_def exchange_ring_def no_rings_def
  have "ring_reach ?a" by (rule ring_reach.step [OF ring_reach.start ring_step.create]) (simp add: no_rings_def)
  then have "ring_reach ?b" by (rule ring_reach.step) (intro ring_step.move; simp add: defs)
  then have "ring_reach ?c" by (rule ring_reach.step) (intro ring_step.destroy; simp add: defs)
  then show ?thesis by (rule ring_reach.step) (intro ring_step.destroy; simp add: defs)
qed

theorem rings_never_freed_twice_witness:
  "distinct (rs_freed (tx_ring_destroy 0 (tx_ring_destroy 1 (tx_ring_move 1 0 (tx_ring_create True 0 no_rings)))))
   \<and> rs_freed (tx_ring_destroy 0 (tx_ring_destroy 1 (tx_ring_move 1 0 (tx_ring_create True 0 no_rings)))) = [0]"
  using rings_never_freed_twice [OF example_ring_reach]
  by (simp add: tx_ring_create_def tx_ring_move_def tx_ring_destroy_def exchange_ring_def no_rings_def)

text \<open>Assigning to a variable that has a ring loses that ring: it is neither freed nor named by any variable
  afterwards, whatever follows.\<close>

definition lost :: "nat \<Rightarrow> ring_store \<Rightarrow> bool" where
  "lost r st \<longleftrightarrow> r < rs_created st \<and> r \<notin> set (rs_freed st) \<and> (\<forall>v. rs_vars st v \<noteq> Some (Some r))"

lemma ring_step_lost: "ring_step st st' \<Longrightarrow> lost r st \<Longrightarrow> lost r st'"
  by (induction rule: ring_step.induct)
    (auto simp: lost_def tx_ring_create_def tx_ring_move_def tx_ring_assign_def tx_ring_destroy_def exchange_ring_def
      split: option.splits if_splits)

theorem assign_loses_ring:
  assumes "rings_ok st" and "rs_vars st v = Some (Some r)" and "rs_vars st w \<noteq> None" and "v \<noteq> w"
    and "ring_step\<^sup>*\<^sup>* (tx_ring_assign v w st) st'"
  shows "r \<notin> set (rs_freed st') \<and> (\<forall>u. rs_vars st' u \<noteq> Some (Some r))"
proof -
  have "lost r (tx_ring_assign v w st)"
    using assms(1-4) unfolding rings_ok_def lost_def tx_ring_assign_def exchange_ring_def
    by (auto split: option.splits if_splits)
  with assms(5) have "lost r st'" by (induction rule: rtranclp_induct) (auto intro: ring_step_lost)
  then show ?thesis by (simp add: lost_def)
qed

text \<open>A proxy with a target is called, and one that was only declared is not; the test \<open>!p\<close> says the opposite.\<close>

theorem mem_fn_not_inverted:
  "mem_fn_call method (make_proxy f (Some obj)) args = Some (method f obj args) \<and> mem_fn_not (make_proxy f (Some obj))
   \<and> mem_fn_call method mem_fn_default args = None \<and> \<not> mem_fn_not mem_fn_default"
  by (simp add: mem_fn_call_def make_proxy_def mem_fn_not_def mem_fn_default_def)

end
