(* ===== verification/Sockets.thy ===== *)
theory Sockets
  imports Dpdk_Prelude
begin

text \<open>
  Placement on cores: \<open>dpdkx/config/socket.{hpp,cpp}\<close> (\<open>socket_configuration\<close>, \<open>adjust_to_socket\<close>)
  and the part of \<open>run\<close> in \<open>sockperf_cli/sockperf.cpp\<close> that chooses the number of queues and launches
  the jobs. Cores and sockets are numbers; \<open>rte_lcore_to_socket_id\<close>, the enumeration of the cores and
  the main core are parameters. A \<open>std::span\<close> into the vector of cores is an offset and a length.
\<close>

section \<open>Grouping the cores\<close>

record core_config =
  cc_socket_id :: nat
  cc_cores_n :: nat

text \<open>The inner loop over the sockets seen so far; \<open>pos\<close> is the iterator \<open>core\<close>.\<close>

fun place_core :: "nat \<Rightarrow> nat \<Rightarrow> core_config list \<Rightarrow> nat \<Rightarrow> nat list \<Rightarrow> core_config list \<times> nat list" where
  "place_core lcore_id socket_id [] pos cores =
     ([\<lparr>cc_socket_id = socket_id, cc_cores_n = 1\<rparr>], cores @ [lcore_id])"
| "place_core lcore_id socket_id (s # sockets) pos cores =
     (let pos = pos + cc_cores_n s
      in if cc_socket_id s = socket_id
         then (s\<lparr>cc_cores_n := cc_cores_n s + 1\<rparr> # sockets, take pos cores @ lcore_id # drop pos cores)
         else (let (sockets, cores) = place_core lcore_id socket_id sockets pos cores in (s # sockets, cores)))"

fun place_cores :: "(nat \<Rightarrow> nat) \<Rightarrow> nat list \<Rightarrow> core_config list \<times> nat list \<Rightarrow> core_config list \<times> nat list" where
  "place_cores to_socket [] acc = acc"
| "place_cores to_socket (l # ls) (sockets, cores) =
     place_cores to_socket ls (place_core l (to_socket l) sockets 0 cores)"

section \<open>The main core goes last\<close>

record socket =
  sk_socket_id :: nat
  sk_offset :: nat
  sk_size :: nat

definition span_of :: "nat list \<Rightarrow> socket \<Rightarrow> nat list" where
  "span_of cores s = take (sk_size s) (drop (sk_offset s) cores)"

definition move_main :: "nat \<Rightarrow> nat \<Rightarrow> nat \<Rightarrow> nat list \<Rightarrow> nat list" where
  "move_main main_core offset n cores =
     (let end_socket = offset + (n - 1);
          i = offset + length (takeWhile (\<lambda>c. c \<noteq> main_core) (take (n - 1) (drop offset cores)))
      in if i \<noteq> end_socket then cores[i := cores ! end_socket, end_socket := cores ! i] else cores)"

fun group_sockets :: "nat \<Rightarrow> nat \<Rightarrow> nat \<Rightarrow> core_config list \<Rightarrow> nat list \<Rightarrow> socket list \<times> nat list" where
  "group_sockets main_core main_socket offset [] cores = ([], cores)"
| "group_sockets main_core main_socket offset (s # sockets) cores =
     (let cores = (if cc_socket_id s = main_socket then move_main main_core offset (cc_cores_n s) cores else cores);
          (res, cores) = group_sockets main_core main_socket (offset + cc_cores_n s) sockets cores
      in (\<lparr>sk_socket_id = cc_socket_id s, sk_offset = offset, sk_size = cc_cores_n s\<rparr> # res, cores))"

definition socket_configuration :: "(nat \<Rightarrow> nat) \<Rightarrow> nat \<Rightarrow> nat list \<Rightarrow> socket list \<times> nat list" where
  "socket_configuration to_socket main_core lcores =
     (let (sockets, cores) = place_cores to_socket lcores ([], [])
      in group_sockets main_core (to_socket main_core) 0 sockets cores)"

section \<open>Queues and launches\<close>

text \<open>The assertions in lines 52, 60 and 61, which a build without \<open>NDEBUG\<close> checks; \<open>None\<close> is the abort.\<close>

definition config_asserts :: "nat \<Rightarrow> nat \<Rightarrow> socket list \<Rightarrow> nat list \<Rightarrow> bool" where
  "config_asserts main_core main_socket sockets cores \<longleftrightarrow>
     (\<forall>s \<in> set sockets. sk_socket_id s = main_socket \<longrightarrow> last (span_of cores s) = main_core)
   \<and> sum_list (map sk_size sockets) = length cores
   \<and> sorted_wrt (\<ge>) (map (\<lambda>s. length (span_of cores s)) sockets)"

definition socket_configuration_debug :: "(nat \<Rightarrow> nat) \<Rightarrow> nat \<Rightarrow> nat list \<Rightarrow> (socket list \<times> nat list) option" where
  "socket_configuration_debug to_socket main_core lcores =
     (let (sockets, cores) = socket_configuration to_socket main_core lcores
      in if config_asserts main_core (to_socket main_core) sockets cores then Some (sockets, cores) else None)"

record dev_queues =
  dq_rx :: u16
  dq_tx :: u16
  dq_socket_id :: nat

definition adjust_to_socket :: "nat list \<Rightarrow> socket \<Rightarrow> dev_queues \<Rightarrow> dev_queues" where
  "adjust_to_socket cores s q =
     (let cores_n = of_nat (length (span_of cores s)) :: u16;
          q = (if dq_rx q > cores_n then q\<lparr>dq_rx := cores_n\<rparr> else q);
          q = (if dq_tx q > cores_n then q\<lparr>dq_tx := cores_n\<rparr> else q)
      in q\<lparr>dq_socket_id := sk_socket_id s\<rparr>)"

text \<open>Lines 67-74 of \<open>sockperf.cpp\<close>: the socket of the device, else the first one; \<open>None\<close> when there is
  no socket and \<open>run\<close> throws.\<close>

definition choose_socket :: "nat \<Rightarrow> socket list \<Rightarrow> socket option" where
  "choose_socket socket_id sockets =
     (if sockets = [] then None
      else Some (case find (\<lambda>s. sk_socket_id s = socket_id) sockets of Some s \<Rightarrow> s | None \<Rightarrow> hd sockets))"

text \<open>Lines 78-96: one receive queue, the requested transmit queues as far as cores are left for them;
  \<open>None\<close> is the early return for too few cores.\<close>

definition plan_queues :: "nat \<Rightarrow> u16 \<Rightarrow> dev_queues \<Rightarrow> dev_queues option" where
  "plan_queues cores_size txq q =
     (let q = (if dq_rx q > 1 then q\<lparr>dq_rx := 1\<rparr> else q);
          q = q\<lparr>dq_tx := if txq = 0 then 1 else txq\<rparr>;
          n = cores_size - unat (dq_rx q)
      in if cores_size < unat (dq_rx q) + 1 then None
         else Some (if n < unat (dq_tx q) then q\<lparr>dq_tx := of_nat n\<rparr> else q))"

text \<open>Lines 168-170 and 245-253: which job is launched on which core. The last component is the sender
  that runs on the main core itself.\<close>

definition rx_launches :: "nat list \<Rightarrow> nat \<Rightarrow> (nat \<times> nat) list" where
  "rx_launches cores n_rx = zip [0..<n_rx] cores"

definition send_launches :: "nat \<Rightarrow> nat list \<Rightarrow> nat \<Rightarrow> nat \<Rightarrow> (nat \<times> nat) list \<times> nat option" where
  "send_launches main_core cores n_rx n_send =
     (let k = (if last cores = main_core then n_send - 1 else n_send);
          send_cores = take k (drop n_rx cores)
      in (zip [0..<k] send_cores, if k \<noteq> n_send then Some k else None))"

section \<open>Grouping is by socket, in the order of appearance\<close>

text \<open>The abstract result: sockets in the order in which they are first seen, each with its cores in
  the order of enumeration.\<close>

definition firsts :: "'a list \<Rightarrow> 'a list" where
  "firsts xs = rev (remdups (rev xs))"

definition groups :: "(nat \<Rightarrow> nat) \<Rightarrow> nat list \<Rightarrow> (nat \<times> nat list) list" where
  "groups to_socket ls = map (\<lambda>s. (s, filter (\<lambda>l. to_socket l = s) ls)) (firsts (map to_socket ls))"

definition as_configs :: "(nat \<times> nat list) list \<Rightarrow> core_config list" where
  "as_configs gs = map (\<lambda>g. \<lparr>cc_socket_id = fst g, cc_cores_n = length (snd g)\<rparr>) gs"

lemma firsts_simps [simp]:
  "firsts [] = []" "firsts (xs @ [x]) = (if x \<in> set xs then firsts xs else firsts xs @ [x])"
  "set (firsts xs) = set xs" "distinct (firsts xs)"
  by (simp_all add: firsts_def)

text \<open>One core, added to the groups.\<close>

fun add_core :: "nat \<Rightarrow> nat \<Rightarrow> (nat \<times> nat list) list \<Rightarrow> (nat \<times> nat list) list" where
  "add_core l s [] = [(s, [l])]"
| "add_core l s (g # gs) = (if fst g = s then (s, snd g @ [l]) # gs else g # add_core l s gs)"

lemma place_core_groups:
  "place_core l s (as_configs gs) (length pre) (pre @ concat (map snd gs)) =
     (as_configs (add_core l s gs), pre @ concat (map snd (add_core l s gs)))"
proof (induction gs arbitrary: pre)
  case (Cons g gs)
  show ?case
  proof (cases "fst g = s")
    case False
    with Cons [of "pre @ snd g"] show ?thesis by (simp add: as_configs_def Let_def)
  qed (simp add: as_configs_def Let_def)
qed (simp add: as_configs_def)

lemma add_core_map:
  "add_core l s (map (\<lambda>x. (x, f x)) xs) =
     (if s \<in> set xs then map (\<lambda>x. (x, f x)) (takeWhile (\<lambda>x. x \<noteq> s) xs) @ (s, f s @ [l]) #
          map (\<lambda>x. (x, f x)) (tl (dropWhile (\<lambda>x. x \<noteq> s) xs))
      else map (\<lambda>x. (x, f x)) xs @ [(s, [l])])"
  by (induction xs) auto

lemma add_core_groups: "add_core l (to_socket l) (groups to_socket ls) = groups to_socket (ls @ [l])"
proof -
  let ?s = "to_socket l"
  let ?f = "\<lambda>s. filter (\<lambda>l. to_socket l = s) ls"
  let ?g = "\<lambda>s. filter (\<lambda>l. to_socket l = s) (ls @ [l])"
  let ?xs = "firsts (map to_socket ls)"
  have upd: "map (\<lambda>x. (x, ?g x)) ys = map (\<lambda>x. (x, ?f x)) ys" if "?s \<notin> set ys" for ys
    using that by (auto intro!: map_cong)
  show ?thesis
  proof (cases "?s \<in> set ?xs")
    case True
    define pre suf where "pre = takeWhile (\<lambda>x. x \<noteq> ?s) ?xs" and "suf = tl (dropWhile (\<lambda>x. x \<noteq> ?s) ?xs)"
    have xs: "?xs = pre @ ?s # suf"
      using True unfolding pre_def suf_def
      by (metis (mono_tags, lifting) dropWhile_eq_Nil_conv hd_dropWhile list.collapse takeWhile_dropWhile_id)
    then have "?s \<notin> set pre" "?s \<notin> set suf" using firsts_simps(4) [of "map to_socket ls"] by auto
    then have "add_core l ?s (groups to_socket ls) = map (\<lambda>x. (x, ?g x)) pre @ (?s, ?g ?s) # map (\<lambda>x. (x, ?g x)) suf"
      using True upd by (simp add: groups_def add_core_map pre_def [symmetric] suf_def [symmetric])
    also have "firsts (map to_socket (ls @ [l])) = ?xs" using True by simp
    with xs have "map (\<lambda>x. (x, ?g x)) pre @ (?s, ?g ?s) # map (\<lambda>x. (x, ?g x)) suf = groups to_socket (ls @ [l])"
      unfolding groups_def by simp
    finally show ?thesis .
  next
    case False
    then have "filter (\<lambda>l'. to_socket l' = ?s) ls = []" by (simp add: filter_empty_conv) (metis image_eqI)
    with False upd [OF False] show ?thesis by (simp add: groups_def add_core_map)
  qed
qed

lemma place_cores_groups:
  "place_cores to_socket ls (as_configs (groups to_socket seen), concat (map snd (groups to_socket seen))) =
     (as_configs (groups to_socket (seen @ ls)), concat (map snd (groups to_socket (seen @ ls))))"
proof (induction ls arbitrary: seen)
  case (Cons l ls)
  from place_core_groups [of l "to_socket l" "groups to_socket seen" "[]"] Cons [of "seen @ [l]"]
  show ?case by (simp add: add_core_groups)
qed simp

section \<open>Moving the main core\<close>

definition main_last :: "nat \<Rightarrow> nat list \<Rightarrow> nat list" where
  "main_last main_core g = move_main main_core 0 (length g) g"

lemma move_main_inside:
  assumes "g \<noteq> []"
  shows "move_main main_core (length pre) (length g) (pre @ g @ post) = pre @ main_last main_core g @ post"
proof -
  let ?i = "length (takeWhile (\<lambda>c. c \<noteq> main_core) (take (length g - 1) g))"
  let ?e = "length g - 1"
  have i: "?i \<le> ?e" by (metis length_take length_takeWhile_le min.cobounded2 order_trans)
  have e: "?e < length g" using assms by (simp add: Suc_le_eq)
  have "takeWhile (\<lambda>c. c \<noteq> main_core) (take ?e (drop (length pre) (pre @ g @ post))) =
      takeWhile (\<lambda>c. c \<noteq> main_core) (take ?e g)" using e by simp
  then show ?thesis
    using i e by (simp add: main_last_def move_main_def Let_def nth_append list_update_append)
qed

lemma length_move_main [simp]: "length (move_main m off n cores) = length cores"
  by (simp add: move_main_def Let_def)

lemma mset_main_last [simp]: "mset (main_last m g) = mset g"
proof -
  let ?i = "length (takeWhile (\<lambda>c. c \<noteq> m) (take (length g - 1) g))"
  have "?i \<le> length g - 1" by (metis length_take length_takeWhile_le min.cobounded2 order_trans)
  then show ?thesis
    by (cases "g = []") (simp_all add: main_last_def move_main_def Let_def mset_swap Suc_le_eq)
qed

lemma last_main_last:
  assumes "m \<in> set g"
  shows "last (main_last m g) = m"
proof -
  let ?e = "length g - 1"
  let ?i = "length (takeWhile (\<lambda>c. c \<noteq> m) (take ?e g))"
  have e: "?e < length g" using assms by (cases g) auto
  have l: "last (main_last m g) = main_last m g ! ?e"
    using e by (metis One_nat_def last_conv_nth length_move_main length_0_conv main_last_def not_less_zero)
  show ?thesis
  proof (cases "m \<in> set (take ?e g)")
    case True
    then have "takeWhile (\<lambda>c. c \<noteq> m) (take ?e g) \<noteq> take ?e g" by (auto simp: takeWhile_eq_all_conv)
    then have i: "?i < length (take ?e g)" by (metis length_takeWhile_le nat_less_le takeWhile_eq_take take_all order_refl)
    then have "take ?e g ! ?i = m" using nth_length_takeWhile [OF i] by simp
    with i e have "g ! ?i = m" "?i < ?e" by simp_all
    with e l show ?thesis by (simp add: main_last_def move_main_def Let_def)
  next
    case False
    then have t: "takeWhile (\<lambda>c. c \<noteq> m) (take ?e g) = take ?e g" by (auto simp: takeWhile_eq_all_conv)
    have "g = take ?e g @ [g ! ?e]" using e by (metis Suc_pred' length_greater_0_conv length_pos_if_in_set assms take_Suc_conv_app_nth take_all_iff order_refl Suc_diff_1)
    with False assms have "g ! ?e = m" by (metis UnE empty_iff empty_set insertE list.set(2) set_append)
    moreover have "?i = ?e" unfolding t using e by simp
    then have "main_last m g = g" by (simp add: main_last_def move_main_def Let_def)
    ultimately show ?thesis using l by simp
  qed
qed

section \<open>The result\<close>

definition arranged :: "nat \<Rightarrow> nat \<Rightarrow> (nat \<times> nat list) list \<Rightarrow> (nat \<times> nat list) list" where
  "arranged m ms gs = map (\<lambda>g. (fst g, if fst g = ms then main_last m (snd g) else snd g)) gs"

fun spans :: "nat \<Rightarrow> (nat \<times> nat list) list \<Rightarrow> socket list" where
  "spans off [] = []"
| "spans off (g # gs) =
     \<lparr>sk_socket_id = fst g, sk_offset = off, sk_size = length (snd g)\<rparr> # spans (off + length (snd g)) gs"

lemma length_main_last [simp]: "length (main_last m g) = length g"
  by (simp add: main_last_def)

lemma group_sockets_groups:
  assumes "\<forall>g\<in>set gs. snd g \<noteq> []"
  shows "group_sockets m ms (length pre) (as_configs gs) (pre @ concat (map snd gs)) =
      (spans (length pre) (arranged m ms gs), pre @ concat (map snd (arranged m ms gs)))"
  using assms
proof (induction gs arbitrary: pre)
  case (Cons g gs)
  let ?h = "if fst g = ms then main_last m (snd g) else snd g"
  have "group_sockets m ms (length (pre @ ?h)) (as_configs gs) ((pre @ ?h) @ concat (map snd gs)) =
      (spans (length (pre @ ?h)) (arranged m ms gs), (pre @ ?h) @ concat (map snd (arranged m ms gs)))"
    using Cons by (intro Cons.IH) simp
  moreover have "(if fst g = ms then move_main m (length pre) (length (snd g)) (pre @ snd g @ concat (map snd gs))
      else pre @ snd g @ concat (map snd gs)) = pre @ ?h @ concat (map snd gs)"
    using Cons.prems by (simp add: move_main_inside)
  ultimately show ?case
    by (simp add: as_configs_def arranged_def Let_def split: if_splits)
qed (simp add: as_configs_def arranged_def)

lemma spans_views:
  "map (\<lambda>s. (sk_socket_id s, span_of (pre @ concat (map snd gs)) s)) (spans (length pre) gs) = gs"
proof (induction gs arbitrary: pre)
  case (Cons g gs)
  from Cons [of "pre @ snd g"] show ?case by (simp add: span_of_def)
qed simp

lemma groups_nonempty: "g \<in> set (groups to_socket ls) \<Longrightarrow> snd g \<noteq> []"
  by (auto simp: groups_def filter_empty_conv)

text \<open>The configuration is exactly the abstract grouping, with the main core last in its group.\<close>

lemma socket_configuration_groups:
  assumes "socket_configuration to_socket m lcores = (socks, cores)"
  shows "cores = concat (map snd (arranged m (to_socket m) (groups to_socket lcores)))"
    and "map (\<lambda>s. (sk_socket_id s, span_of cores s)) socks = arranged m (to_socket m) (groups to_socket lcores)"
proof -
  have "place_cores to_socket lcores ([], []) =
      (as_configs (groups to_socket lcores), concat (map snd (groups to_socket lcores)))"
    using place_cores_groups [of to_socket lcores "[]"] by (simp add: groups_def as_configs_def)
  with assms group_sockets_groups [of "groups to_socket lcores" m "to_socket m" "[]"] groups_nonempty
  have "socks = spans 0 (arranged m (to_socket m) (groups to_socket lcores)) \<and>
      cores = concat (map snd (arranged m (to_socket m) (groups to_socket lcores)))"
    by (simp add: socket_configuration_def)
  then show "cores = concat (map snd (arranged m (to_socket m) (groups to_socket lcores)))"
    and "map (\<lambda>s. (sk_socket_id s, span_of cores s)) socks = arranged m (to_socket m) (groups to_socket lcores)"
    using spans_views [of "[]" "arranged m (to_socket m) (groups to_socket lcores)"] by simp_all
qed

lemma socket_span:
  assumes "socket_configuration to_socket m lcores = (socks, cores)" and "s \<in> set socks"
  shows "mset (span_of cores s) = mset (filter (\<lambda>l. to_socket l = sk_socket_id s) lcores)"
    and "m \<in> set lcores \<Longrightarrow> sk_socket_id s = to_socket m \<Longrightarrow> last (span_of cores s) = m"
proof -
  have "(sk_socket_id s, span_of cores s) \<in> set (arranged m (to_socket m) (groups to_socket lcores))"
    using assms(2) socket_configuration_groups(2) [OF assms(1), symmetric] by force
  then have sp: "span_of cores s = (if sk_socket_id s = to_socket m
      then main_last m (filter (\<lambda>l. to_socket l = sk_socket_id s) lcores)
      else filter (\<lambda>l. to_socket l = sk_socket_id s) lcores)"
    by (auto simp: arranged_def groups_def)
  show "mset (span_of cores s) = mset (filter (\<lambda>l. to_socket l = sk_socket_id s) lcores)"
    using sp by simp
  show "last (span_of cores s) = m" if "m \<in> set lcores" "sk_socket_id s = to_socket m"
    using sp that by (simp add: last_main_last)
qed

lemma sum_filter_keys:
  assumes "distinct ks" and "f ` set_mset M \<subseteq> set ks"
  shows "sum_list (map (\<lambda>k. filter_mset (\<lambda>l. f l = k) M) ks) = M"
proof -
  have "sum_list (map (\<lambda>k. filter_mset (\<lambda>l. f l = k) M) ks) = filter_mset (\<lambda>l. f l \<in> set ks) M"
    using assms(1)
  proof (induction ks)
    case (Cons k ks)
    then have "filter_mset (\<lambda>l. f l = k) M + filter_mset (\<lambda>l. f l \<in> set ks) M = filter_mset (\<lambda>l. f l = k \<or> f l \<in> set ks) M"
      by (intro multiset_eqI) (auto simp: count_filter_mset)
    with Cons show ?case by simp
  qed simp
  also have "\<dots> = M" using assms(2) by (auto simp: filter_mset_eq_conv image_subset_iff)
  finally show ?thesis .
qed

lemma spans_sizes: "map sk_size (spans off gs) = map (length \<circ> snd) gs"
  by (induction gs arbitrary: off) auto

lemma socket_ids:
  assumes "socket_configuration to_socket m lcores = (socks, cores)"
  shows "map sk_socket_id socks = firsts (map to_socket lcores)"
  using arg_cong [OF socket_configuration_groups(2) [OF assms], of "map fst"] by (simp add: arranged_def groups_def o_def)

lemma socket_sizes_sum:
  assumes "socket_configuration to_socket m lcores = (socks, cores)"
  shows "sum_list (map sk_size socks) = length cores"
proof -
  have "place_cores to_socket lcores ([], []) =
      (as_configs (groups to_socket lcores), concat (map snd (groups to_socket lcores)))"
    using place_cores_groups [of to_socket lcores "[]"] by (simp add: groups_def as_configs_def)
  with assms group_sockets_groups [of "groups to_socket lcores" m "to_socket m" "[]"] groups_nonempty
  have "socks = spans 0 (arranged m (to_socket m) (groups to_socket lcores))"
    by (simp add: socket_configuration_def)
  then show ?thesis using socket_configuration_groups(1) [OF assms] by (simp add: spans_sizes length_concat o_def)
qed

text \<open>C28: \<open>socket_configuration\<close> lists every core once, the sockets in the order in which the
  enumeration first meets them, the cores of each socket together as its span, and the main core at
  the end of its span. A build with assertions returns the same when the sockets in that order have decreasing
  numbers of cores, and aborts at the last assertion when they have not.\<close>

theorem socket_configuration_correct:
  assumes "socket_configuration to_socket main_core lcores = (sockets, cores)" and "main_core \<in> set lcores"
  shows "mset cores = mset lcores \<and> map sk_socket_id sockets = firsts (map to_socket lcores)
       \<and> cores = concat (map (span_of cores) sockets)
       \<and> (\<forall>s\<in>set sockets. mset (span_of cores s) = mset (filter (\<lambda>l. to_socket l = sk_socket_id s) lcores)
            \<and> (sk_socket_id s = to_socket main_core \<longrightarrow> last (span_of cores s) = main_core))
       \<and> socket_configuration_debug to_socket main_core lcores =
           (if sorted_wrt (\<ge>) (map (\<lambda>k. length (filter (\<lambda>l. to_socket l = k) lcores)) (firsts (map to_socket lcores)))
            then Some (sockets, cores) else None)"
proof -
  note cfg = socket_configuration_groups [OF assms(1)] and ids = socket_ids [OF assms(1)]
  have spans: "map (span_of cores) sockets = map snd (arranged main_core (to_socket main_core) (groups to_socket lcores))"
    using arg_cong [OF cfg(2), of "map snd"] by (simp add: o_def)
  then have conc: "cores = concat (map (span_of cores) sockets)" using cfg(1) by simp
  have "mset cores = sum_list (map (\<lambda>s. mset (span_of cores s)) sockets)"
    by (subst conc) (simp add: mset_concat o_def)
  also have "\<dots> = sum_list (map (\<lambda>s. mset (filter (\<lambda>l. to_socket l = sk_socket_id s) lcores)) sockets)"
    using socket_span(1) [OF assms(1)] by (intro arg_cong [where f = sum_list] map_cong) simp_all
  also have "\<dots> = sum_list (map (\<lambda>k. filter_mset (\<lambda>l. to_socket l = k) (mset lcores)) (firsts (map to_socket lcores)))"
    by (simp add: ids [symmetric] o_def)
  also have "\<dots> = mset lcores"
    by (rule sum_filter_keys) simp_all
  finally have all: "mset cores = mset lcores" .
  have "map (\<lambda>s. length (span_of cores s)) sockets = map (\<lambda>s. length (filter (\<lambda>l. to_socket l = sk_socket_id s) lcores)) sockets"
    using mset_eq_length [OF socket_span(1) [OF assms(1)]] by (intro map_cong) simp_all
  also have "\<dots> = map (\<lambda>k. length (filter (\<lambda>l. to_socket l = k) lcores)) (firsts (map to_socket lcores))"
    by (simp add: ids [symmetric] o_def)
  finally have "socket_configuration_debug to_socket main_core lcores =
           (if sorted_wrt (\<ge>) (map (\<lambda>k. length (filter (\<lambda>l. to_socket l = k) lcores)) (firsts (map to_socket lcores)))
            then Some (sockets, cores) else None)"
    using socket_span(2) [OF assms(1) _ assms(2)] socket_sizes_sum [OF assms(1)]
    by (auto simp: socket_configuration_debug_def config_asserts_def assms(1))
  with all show ?thesis using ids conc socket_span [OF assms(1)] assms(2) by simp
qed

text \<open>Four cores on two sockets that alternate; core 0 is the main core.\<close>

theorem socket_configuration_correct_witness:
  "mset [2, 0, 1, 3 :: nat] = mset [0, 1, 2, 3 :: nat]
   \<and> socket_configuration_debug (\<lambda>l. l mod 2) 0 [0, 1, 2, 3] =
       Some ([\<lparr>sk_socket_id = 0, sk_offset = 0, sk_size = 2\<rparr>, \<lparr>sk_socket_id = 1, sk_offset = 2, sk_size = 2\<rparr>], [2, 0, 1, 3])"
proof -
  have c: "socket_configuration (\<lambda>l. l mod 2) 0 [0, 1, 2, 3] =
      ([\<lparr>sk_socket_id = 0, sk_offset = 0, sk_size = 2\<rparr>, \<lparr>sk_socket_id = 1, sk_offset = 2, sk_size = 2\<rparr>], [2, 0, 1, 3])"
    by code_simp
  show ?thesis using socket_configuration_correct [OF c] by (simp add: firsts_def)
qed

text \<open>The final assertion of \<open>socket_configuration\<close>, sizes in decreasing order, depends on the order of
  enumeration: with a smaller socket first it does not hold.\<close>

lemma socket_sizes_increase:
  "map sk_size (fst (socket_configuration (\<lambda>l. if l = 0 then 0 else 1) 0 [0, 1, 2])) = [1, 2]"
  by code_simp

lemma find_mem: "find P xs = Some x \<Longrightarrow> x \<in> set xs"
  by (induction xs) (auto split: if_splits)

text \<open>The socket \<open>run\<close> works on: that of the device if a core belongs to it, else that of the first core.\<close>

definition run_socket :: "(nat \<Rightarrow> nat) \<Rightarrow> nat list \<Rightarrow> nat \<Rightarrow> nat" where
  "run_socket to_socket lcores socket_id =
     (if socket_id \<in> to_socket ` set lcores then socket_id else to_socket (hd lcores))"

lemma hd_firsts: "xs \<noteq> [] \<Longrightarrow> hd (firsts xs) = hd xs"
proof (induction xs rule: rev_induct)
  case (snoc x xs)
  moreover have "firsts xs = [] \<longleftrightarrow> xs = []" by (metis firsts_simps(3) set_empty)
  ultimately show ?case by (auto simp: hd_append)
qed simp

lemma choose_socket_id:
  assumes "socket_configuration to_socket m lcores = (socks, cores)" and "choose_socket i socks = Some s"
  shows "sk_socket_id s = run_socket to_socket lcores i"
proof -
  have ids: "map sk_socket_id socks = firsts (map to_socket lcores)" by (rule socket_ids [OF assms(1)])
  then have set_ids: "sk_socket_id ` set socks = to_socket ` set lcores" by (metis firsts_simps(3) list.set_map)
  have ne: "socks \<noteq> []" using assms(2) by (auto simp: choose_socket_def)
  then have hd: "sk_socket_id (hd socks) = to_socket (hd lcores)"
    using ids hd_firsts [of "map to_socket lcores"] by (cases lcores) (auto simp: hd_map [symmetric])
  show ?thesis
  proof (cases "find (\<lambda>s. sk_socket_id s = i) socks")
    case None
    then have "i \<notin> to_socket ` set lcores" unfolding set_ids [symmetric] by (auto simp: find_None_iff)
    with None assms(2) ne hd show ?thesis by (simp add: choose_socket_def run_socket_def)
  next
    case (Some x)
    then have "sk_socket_id x = i" "x \<in> set socks" by (auto simp: find_Some_iff)
    with Some assms(2) ne set_ids show ?thesis by (auto simp: choose_socket_def run_socket_def)
  qed
qed

lemma choose_socket_mem: "choose_socket i sockets = Some s \<Longrightarrow> s \<in> set sockets"
  by (auto simp: choose_socket_def split: if_splits option.splits dest: find_mem)

lemma plan_queues_fits:
  assumes "plan_queues n txq q = Some q'"
  shows "unat (dq_rx q') + unat (dq_tx q') \<le> n \<and> 0 < unat (dq_tx q') \<and> unat (dq_rx q') \<le> 1"
proof -
  let ?rx = "if dq_rx q > 1 then 1 else dq_rx q"
  let ?tx = "if txq = 0 then 1 else txq"
  have rx: "unat ?rx \<le> 1" by (auto simp: word_less_nat_alt not_less)
  have tx: "0 < unat ?tx" "unat ?tx < 65536"
    using unsigned_less [of txq, where 'a = nat] by (auto simp: unat_gt_0)
  have q': "dq_rx q' = ?rx" "dq_tx q' = (if n - unat ?rx < unat ?tx then of_nat (n - unat ?rx) else ?tx)"
    and n: "unat ?rx + 1 \<le> n"
    using assms by (auto simp: plan_queues_def Let_def split: if_splits)
  have "unat (of_nat (n - unat ?rx) :: u16) = n - unat ?rx" if "n - unat ?rx < unat ?tx"
    using that tx(2) by (simp add: unat_of_nat)
  with q' n rx tx(1) show ?thesis by (cases "n - unat ?rx < unat ?tx") simp_all
qed

text \<open>Whatever the machine and the options, the benchmark launches its jobs on different cores of
  the chosen socket, never remotely on the main core, and every sender runs exactly once, the last one
  on the main core when that belongs to the socket.\<close>

theorem launches_sound:
  assumes "socket_configuration to_socket main_core lcores = (sockets, cores)"
    and "distinct lcores" and "main_core \<in> set lcores"
    and "choose_socket socket_id sockets = Some s"
    and "plan_queues (length (span_of cores s)) txq q = Some q'"
    and "rx = rx_launches (span_of cores s) (unat (dq_rx q'))"
    and "send_launches main_core (span_of cores s) (unat (dq_rx q')) (unat (dq_tx q')) = (send, self)"
  shows "distinct (map snd rx @ map snd send) \<and> set (map snd rx @ map snd send) \<subseteq> set (span_of cores s) - {main_core}
       \<and> map fst rx = [0..<unat (dq_rx q')] \<and> map fst send @ (case self of Some k \<Rightarrow> [k] | None \<Rightarrow> []) = [0..<unat (dq_tx q')]"
proof -
  let ?c = "span_of cores s"
  let ?rx = "unat (dq_rx q')" and ?tx = "unat (dq_tx q')"
  let ?k = "if last ?c = main_core then ?tx - 1 else ?tx"
  have fits: "?rx + ?tx \<le> length ?c" "0 < ?tx" using plan_queues_fits [OF assms(5)] by simp_all
  have s: "s \<in> set sockets" using choose_socket_mem assms(4) .
  have mset: "mset ?c = mset (filter (\<lambda>l. to_socket l = sk_socket_id s) lcores)"
    using socket_span(1) [OF assms(1) s] .
  then have dist: "distinct ?c" using assms(2) by (metis distinct_filter mset_eq_imp_distinct_iff)
  have main: "last ?c = main_core" if "main_core \<in> set ?c"
  proof -
    have "sk_socket_id s = to_socket main_core" using that mset_eq_setD [OF mset] by auto
    then show ?thesis using socket_span(2) [OF assms(1) s assms(3)] by simp
  qed
  have send: "send = zip [0..<?k] (take ?k (drop ?rx ?c))" "self = (if ?k \<noteq> ?tx then Some ?k else None)"
    using assms(7) by (simp_all add: send_launches_def Let_def split: if_splits)
  have snds: "map snd rx @ map snd send = take (?rx + ?k) ?c"
    using fits assms(6) by (simp add: rx_launches_def send take_add map_snd_zip_take min_def)
  have "main_core \<notin> set (take (?rx + ?k) ?c)"
  proof (cases "main_core \<in> set ?c")
    case True
    then obtain b where b: "?c = b @ [main_core]" using main by (metis append_butlast_last_id empty_iff list.set(1))
    moreover have "main_core \<notin> set b" using dist unfolding b by simp
    moreover have "?rx + ?k \<le> length b" using fits main [OF True] unfolding b by simp
    ultimately show ?thesis by (auto dest: in_set_takeD)
  qed (auto dest: in_set_takeD)
  moreover have "distinct (take (?rx + ?k) ?c)" using dist by simp
  moreover have "map fst rx = [0..<?rx]" using fits assms(6) by (simp add: rx_launches_def map_fst_zip_take min_def)
  moreover have "map fst send = [0..<?k]" using fits by (simp add: send map_fst_zip_take min_def)
  moreover have "[0..<?k] @ (if ?k \<noteq> ?tx then [?k] else []) = [0..<?tx]"
    using fits(2) by (cases ?tx) simp_all
  then have "[0..<?k] @ (case self of Some k \<Rightarrow> [k] | None \<Rightarrow> []) = [0..<?tx]"
    unfolding send(2) by (simp split: if_splits)
  ultimately show ?thesis unfolding snds by (simp del: set_append) (auto dest: in_set_takeD)
qed

text \<open>Three cores on one socket, two senders requested.\<close>

theorem launches_sound_witness:
  "distinct (map snd (rx_launches [2, 1, 0] 1) @ map snd (fst (send_launches 0 [2, 1, 0] 1 2)))
   \<and> rx_launches [2, 1, 0] 1 = [(0, 2)] \<and> send_launches 0 [2, 1, 0] 1 2 = ([(0, 1)], Some 1)"
proof -
  let ?s = "\<lparr>sk_socket_id = 0, sk_offset = 0, sk_size = 3\<rparr>"
  let ?q = "\<lparr>dq_rx = 1, dq_tx = 4, dq_socket_id = 0\<rparr> :: dev_queues"
  have c: "socket_configuration (\<lambda>_. 0) 0 [0, 1, 2] = ([?s], [2, 1, 0])" by code_simp
  have sp: "span_of [2, 1, 0] ?s = [2, 1, 0]" by (simp add: span_of_def)
  have p: "plan_queues (length (span_of [2, 1, 0] ?s)) 2 ?q = Some (?q\<lparr>dq_tx := 2\<rparr>)"
    unfolding sp by (simp add: plan_queues_def Let_def)
  have l: "rx_launches [2, 1, 0] 1 = [(0, 2)]" "send_launches 0 [2, 1, 0] 1 2 = ([(0, 1)], Some 1)" by code_simp+
  show ?thesis
    using launches_sound [OF c _ _ _ p, of 0 "[(0, 2)]" "[(0, 1)]" "Some 1"] l
    by (simp add: sp choose_socket_def)
qed

end
