(* ===== verification/Udp_Tx.thy ===== *)
theory Udp_Tx
  imports Device_Net
begin

text \<open>
  Sending datagrams: class \<open>updtx_channel\<close> of \<open>dpdkx/udptx_channel.{hpp,cpp}\<close>. A packet is a chain of
  buffers linked by \<open>next\<close>, here a list with the head first. Pools, checksum functions and offload flags
  are fields of \<open>udptx_api\<close> over an unknown state \<open>'r\<close>; freeing the head frees the chain. \<open>None\<close> stands
  for the missing ring of \<open>tx_ring\<close>, or for fuel that does not cover the loop over the segments.
\<close>

section \<open>The channel\<close>

record 'r udptx_api =
  ring_api :: "(rte_mbuf list, 'r) tx_api"
  pool_create :: "string \<Rightarrow> u16 \<Rightarrow> u16 \<Rightarrow> 'r \<Rightarrow> (int + u16) \<times> 'r"
  header_alloc :: "'r \<Rightarrow> rte_mbuf option \<times> 'r"
  packet_alloc :: "'r \<Rightarrow> rte_mbuf option \<times> 'r"
  chain_free :: "rte_mbuf list \<Rightarrow> 'r \<Rightarrow> 'r"
  udp_ipv4_cksum :: "memory \<Rightarrow> nat \<Rightarrow> u16"
  udp_phdr_cksum :: "memory \<Rightarrow> nat \<Rightarrow> u64 \<Rightarrow> u16"
  udp_mbuf_cksum :: "rte_mbuf list \<Rightarrow> nat \<Rightarrow> nat \<Rightarrow> u16"
  offload_ipv4_cksum :: u64
  offload_udp_cksum :: u64
  flag_tx_ipv4 :: u64
  flag_tx_ip_cksum :: u64
  flag_tx_udp_cksum :: u64

record udptx_channel =
  ux_src_port :: u16
  ux_packet_buf_size :: u16
  ux_packet_id :: u16

abbreviation RTE_PKTMBUF_HEADROOM :: u16 where "RTE_PKTMBUF_HEADROOM \<equiv> 128"

text \<open>\<open>pool_create\<close> returns the data room of the new pool, or the number of the error for which the
  constructor throws.\<close>

definition make_udptx_channel ::
  "'r udptx_api \<Rightarrow> u16 \<Rightarrow> u16 \<Rightarrow> u16 \<Rightarrow> u16 \<Rightarrow> 'r \<Rightarrow> (int + udptx_channel) \<times> 'r" where
  "make_udptx_channel api port_id port n_packets packet_buf_size r =
     (let src_port = bswap port;
          name = to_string (int (unat port_id)) @ '':'' @ to_string (int (unat src_port))
      in case pool_create api (''packet_pool_'' @ name) n_packets packet_buf_size r of
           (Inl e, r) \<Rightarrow> (Inl e, r)
         | (Inr room, r) \<Rightarrow>
             (case pool_create api (''header_pool_'' @ name) n_packets (2 * RTE_PKTMBUF_HEADROOM) r of
                (Inl e, r) \<Rightarrow> (Inl e, r)
              | (Inr _, r) \<Rightarrow>
                  (Inr \<lparr>ux_src_port = src_port, ux_packet_buf_size = room - RTE_PKTMBUF_HEADROOM,
                        ux_packet_id = 0\<rparr>, r)))"

section \<open>Buffers of a packet\<close>

abbreviation headers_size :: nat where "headers_size \<equiv> 42"

text \<open>The \<open>do\<close> loop: the segments filled, and whether the pool lasted.\<close>

primrec fill_segments ::
  "nat \<Rightarrow> 'r udptx_api \<Rightarrow> nat \<Rightarrow> byte list \<Rightarrow> 'r \<Rightarrow> (bool \<times> rte_mbuf list \<times> 'r) option" where
  "fill_segments 0 api packet_buf_size payload r = None"
| "fill_segments (Suc fuel) api packet_buf_size payload r =
     (case packet_alloc api r of
        (None, r) \<Rightarrow> Some (False, [], r)
      | (Some b, r) \<Rightarrow>
          (let k = (if length payload > packet_buf_size then packet_buf_size else length payload);
               b = b\<lparr>data_len := of_nat k, mem := store (mem b) 0 (take k payload)\<rparr>;
               rest = drop k payload
           in if rest = [] then Some (True, [b], r)
              else map_option (\<lambda>(ok, segs, r). (ok, b # segs, r)) (fill_segments fuel api packet_buf_size rest r)))"

text \<open>Lines 47-79: the chain, or no chain after everything allocated was freed.\<close>

definition alloc_packet ::
  "nat \<Rightarrow> 'r udptx_api \<Rightarrow> udptx_channel \<Rightarrow> byte list \<Rightarrow> 'r \<Rightarrow> (rte_mbuf list option \<times> 'r) option" where
  "alloc_packet fuel api ch payload r =
     (if unat (ux_packet_buf_size ch) < headers_size + length payload then
        (case header_alloc api r of
           (None, r) \<Rightarrow> Some (None, r)
         | (Some head, r) \<Rightarrow>
             (case fill_segments fuel api (unat (ux_packet_buf_size ch)) payload r of
                None \<Rightarrow> None
              | Some (ok, segs, r) \<Rightarrow>
                  (let head = head\<lparr>data_len := of_nat headers_size, nb_segs := 1 + of_nat (length segs)\<rparr>
                   in if ok then Some (Some (head # segs), r)
                      else Some (None, chain_free api (head # segs) r))))
      else
        (case packet_alloc api r of
           (None, r) \<Rightarrow> Some (None, r)
         | (Some head, r) \<Rightarrow>
             Some (Some [head\<lparr>nb_segs := 1, mem := store (mem head) headers_size payload,
                              data_len := of_nat (headers_size + length payload)\<rparr>], r)))"

section \<open>Headers\<close>

text \<open>Lines 80-108; \<open>dst\<close> is MAC address, IP address and port.\<close>

definition write_headers ::
  "dev_cfg \<Rightarrow> udptx_channel \<Rightarrow> byte list \<times> u32 \<times> u16 \<Rightarrow> nat \<Rightarrow> memory \<Rightarrow> memory" where
  "write_headers cfg ch dst payload_size m =
     (let dgram_len = of_nat (8 + payload_size) :: u16;
          m = store m 6 (mac_addr cfg);
          m = store m 0 (fst dst);
          m = stw m 12 (bswap RTE_ETHER_TYPE_IPV4);
          m = stw m 14 (0x45 :: u8);
          m = stw m 15 (0 :: u8);
          m = stw m 16 (bswap (20 + dgram_len));
          m = stw m 18 (bswap (ux_packet_id ch));
          m = stw m 20 (0 :: u16);
          m = stw m 22 (64 :: u8);
          m = stw m 23 IPPROTO_UDP;
          m = stw m 24 (0 :: u16);
          m = stw m 26 (ip4_addr cfg);
          m = stw m 30 (fst (snd dst));
          m = stw m 36 (snd (snd dst));
          m = stw m 34 (ux_src_port ch);
          m = stw m 38 (bswap dgram_len)
      in stw m 40 (0 :: u16))"

text \<open>Lines 110-130: lengths, flags and checksums of the head.\<close>

definition finish_packet :: "'r udptx_api \<Rightarrow> dev_cfg \<Rightarrow> nat \<Rightarrow> rte_mbuf list \<Rightarrow> rte_mbuf list" where
  "finish_packet api cfg payload_size chain =
     (let head = (hd chain)\<lparr>l2_len := 14, l3_len := 20, l4_len := 8,
                             pkt_len := of_nat (14 + 20 + 8 + payload_size), ol_flags := 0\<rparr>;
          ip_off = tx_offloads cfg AND offload_ipv4_cksum api \<noteq> 0;
          udp_off = tx_offloads cfg AND offload_udp_cksum api \<noteq> 0;
          flags = (if ip_off then flag_tx_ipv4 api OR flag_tx_ip_cksum api else 0);
          m = (if ip_off then mem head else stw (mem head) 24 (udp_ipv4_cksum api (mem head) 14));
          flags = (if udp_off then flags OR (flag_tx_ipv4 api OR flag_tx_udp_cksum api) else flags);
          m = stw m 40 (if udp_off then udp_phdr_cksum api m 14 flags
                        else udp_mbuf_cksum api (head\<lparr>mem := m\<rparr> # tl chain) 14 34)
      in head\<lparr>mem := m, ol_flags := flags\<rparr> # tl chain)"

definition make_datagram ::
  "'r udptx_api \<Rightarrow> dev_cfg \<Rightarrow> udptx_channel \<Rightarrow> byte list \<times> u32 \<times> u16 \<Rightarrow> nat \<Rightarrow> rte_mbuf list \<Rightarrow> rte_mbuf list" where
  "make_datagram api cfg ch dst payload_size chain =
     finish_packet api cfg payload_size
       ((hd chain)\<lparr>mem := write_headers cfg ch dst payload_size (mem (hd chain))\<rparr> # tl chain)"

definition udptx_send ::
  "nat \<Rightarrow> 'r udptx_api \<Rightarrow> dev_cfg \<Rightarrow> tx_side \<Rightarrow> udptx_channel \<Rightarrow> byte list \<times> u32 \<times> u16 \<Rightarrow> byte list \<Rightarrow> 'r \<Rightarrow>
     (bool \<times> 'r) option" where
  "udptx_send fuel api cfg side ch dst payload r =
     (case alloc_packet fuel api ch payload r of
        None \<Rightarrow> None
      | Some (None, r) \<Rightarrow> Some (False, r)
      | Some (Some chain, r) \<Rightarrow>
          (case tx_ring side 0 of
             None \<Rightarrow> None
           | Some ring \<Rightarrow>
               (let chain = make_datagram api cfg ch dst (length payload) chain;
                    (res, r) = tx_ring_enque1 (ring_api api) ring chain r
                in Some (res, if res then r else chain_free api chain r))))"

section \<open>The data of a chain\<close>

definition chain_data :: "rte_mbuf list \<Rightarrow> byte list" where
  "chain_data chain = concat (map (\<lambda>b. fetch (mem b) 0 (unat (data_len b))) chain)"

lemma chain_data_Cons [simp]: "chain_data (b # bs) = fetch (mem b) 0 (unat (data_len b)) @ chain_data bs"
  and chain_data_Nil [simp]: "chain_data [] = []"
  by (simp_all add: chain_data_def)

text \<open>With a buffer size that is not 0, a fuel above the payload size covers the loop, and a complete
  chain holds the payload.\<close>

definition filled :: "byte list \<Rightarrow> bool \<Rightarrow> rte_mbuf list \<Rightarrow> bool" where
  "filled payload ok segs \<longleftrightarrow>
     (ok \<longrightarrow> chain_data segs = payload \<and> length segs \<le> max 1 (length payload))"

lemma fill_segments_total:
  assumes "0 < n" and "n < 65536"
  shows "length payload < fuel \<Longrightarrow>
    \<exists>ok segs r'. fill_segments fuel api n payload r = Some (ok, segs, r') \<and> filled payload ok segs"
proof (induction fuel arbitrary: payload r)
  case (Suc fuel)
  let ?k = "if length payload > n then n else length payload"
  have k: "unat (of_nat ?k :: u16) = ?k" using assms(2) by (simp add: unat_of_nat_mod)
  obtain b r1 where a: "packet_alloc api r = (b, r1)" by fastforce
  show ?case
  proof (cases b)
    case (Some b)
    show ?thesis
    proof (cases "length payload > n")
      case True
      with Suc.prems assms(1) have "length (drop n payload) < fuel" by simp
      then obtain ok segs r' where
        f: "fill_segments fuel api n (drop n payload) r1 = Some (ok, segs, r')" "filled (drop n payload) ok segs"
        using Suc.IH by blast
      then have "length segs \<le> length payload - n" if ok using that True by (simp add: filled_def)
      with f True a Some k assms(1) show ?thesis by (auto simp: Let_def fetch_store_same filled_def)
    next
      case False
      with a Some k show ?thesis by (auto simp: Let_def fetch_store_same filled_def)
    qed
  qed (use a in \<open>auto simp: filled_def\<close>)
qed simp

section \<open>Headers stay in front\<close>

lemma write_headers_beyond:
  "length (mac_addr cfg) = 6 \<Longrightarrow> length (fst dst) = 6 \<Longrightarrow> 42 \<le> i \<Longrightarrow> write_headers cfg ch dst n m i = m i"
  by (simp add: write_headers_def Let_def store_apply stw_apply)

lemma make_datagram_hd:
  "hd (make_datagram api cfg ch dst n (b # bs)) =
     (b\<lparr>l2_len := 14, l3_len := 20, l4_len := 8, pkt_len := of_nat (42 + n),
        ol_flags := ol_flags (hd (make_datagram api cfg ch dst n (b # bs))),
        mem := mem (hd (make_datagram api cfg ch dst n (b # bs)))\<rparr>)"
  "tl (make_datagram api cfg ch dst n (b # bs)) = bs"
  "42 \<le> i \<Longrightarrow> mem (hd (make_datagram api cfg ch dst n (b # bs))) i = write_headers cfg ch dst n (mem b) i"
  by (simp_all add: make_datagram_def finish_packet_def Let_def stw_apply)

lemma make_datagram_ids [simp]:
  "chain \<noteq> [] \<Longrightarrow> map buf_id (make_datagram api cfg ch dst n chain) = map buf_id chain"
  by (cases chain) (simp_all add: make_datagram_def finish_packet_def Let_def)

lemma alloc_packet_filled:
  assumes "0 < unat (ux_packet_buf_size ch)" and "length payload < fuel"
  shows "alloc_packet fuel api ch payload r \<noteq> None"
    and "alloc_packet fuel api ch payload r = Some (Some chain, r') \<Longrightarrow> length payload \<le> 65493 \<Longrightarrow>
      \<exists>head segs. chain = head # segs \<and> unat (nb_segs head) = length chain
        \<and> (unat (data_len head) = 42 \<and> chain_data segs = payload
           \<or> segs = [] \<and> unat (data_len head) = 42 + length payload \<and> fetch (mem head) 42 (length payload) = payload)"
proof -
  let ?n = "unat (ux_packet_buf_size ch)"
  have n: "?n < 65536" using unsigned_less [of "ux_packet_buf_size ch", where 'a = nat] by simp
  obtain h r1 q r2 where a: "header_alloc api r = (h, r1)" "packet_alloc api r = (q, r2)" by fastforce
  obtain ok segs r3 where f: "fill_segments fuel api ?n payload r1 = Some (ok, segs, r3)"
    using fill_segments_total [OF assms(1) n assms(2), of api r1] by blast
  show "alloc_packet fuel api ch payload r \<noteq> None"
    using a f by (cases h; cases q) (simp_all add: alloc_packet_def Let_def)
  assume c: "alloc_packet fuel api ch payload r = Some (Some chain, r')" and len: "length payload \<le> 65493"
  show "\<exists>head segs. chain = head # segs \<and> unat (nb_segs head) = length chain
        \<and> (unat (data_len head) = 42 \<and> chain_data segs = payload
           \<or> segs = [] \<and> unat (data_len head) = 42 + length payload \<and> fetch (mem head) 42 (length payload) = payload)"
  proof (cases "?n < headers_size + length payload")
    case True
    then obtain h r1 ok segs where h: "header_alloc api r = (Some h, r1)"
      and f: "fill_segments fuel api ?n payload r1 = Some (True, segs, r')"
      and ch: "chain = h\<lparr>data_len := 42, nb_segs := 1 + of_nat (length segs)\<rparr> # segs"
      using c by (auto simp: alloc_packet_def Let_def split: prod.splits option.splits if_splits)
    have "filled payload True segs" using fill_segments_total [OF assms(1) n assms(2), of api r1] f by auto
    moreover from this have "length segs < 65535" using len by (simp add: filled_def max_def split: if_splits)
    then have "unat (1 + of_nat (length segs) :: u16) = Suc (length segs)"
      using unat_of_nat_mod [of "Suc (length segs)", where 'a = 16] by simp
    ultimately show ?thesis unfolding ch by (simp add: filled_def)
  next
    case False
    have "unat (42 + of_nat (length payload) :: u16) = 42 + length payload"
      using len unat_of_nat_mod [of "42 + length payload", where 'a = 16] by simp
    with False c show ?thesis
      by (auto simp: alloc_packet_def fetch_store_same split: prod.splits option.splits)
  qed
qed

section \<open>Properties\<close>

text \<open>C12: the packet that \<open>send\<close> hands to the ring, in one buffer or in as many segments as the
  buffer size makes necessary, carries exactly the payload behind 42 bytes of headers; the segment
  count and the packet length of its head are those of the chain.\<close>

theorem datagram_carries_payload:
  assumes "alloc_packet fuel api ch payload r = Some (Some chain, r')"
    and "0 < unat (ux_packet_buf_size ch)" and "length payload < fuel" and "length payload \<le> 65493"
    and "length (mac_addr cfg) = 6" and "length (fst dst) = 6"
    and "packet = make_datagram api cfg ch dst (length payload) chain"
  shows "drop 42 (chain_data packet) = payload \<and> length (chain_data packet) = unat (pkt_len (hd packet))
       \<and> unat (nb_segs (hd packet)) = length packet"
proof -
  obtain head segs where c: "chain = head # segs" and nb: "unat (nb_segs head) = length chain"
    and d: "unat (data_len head) = 42 \<and> chain_data segs = payload
       \<or> segs = [] \<and> unat (data_len head) = 42 + length payload \<and> fetch (mem head) 42 (length payload) = payload"
    using alloc_packet_filled(2) [OF assms(2,3,1,4)] by blast
  let ?h = "hd packet"
  note hd = make_datagram_hd [where api = api and cfg = cfg and ch = ch and dst = dst and n = "length payload"
    and b = head and bs = segs, folded c, folded assms(7)]
  have p: "packet = ?h # segs" using hd(2) by (simp add: assms(7) make_datagram_def finish_packet_def Let_def)
  have len: "data_len ?h = data_len head" "nb_segs ?h = nb_segs head" "pkt_len ?h = of_nat (42 + length payload)"
    using arg_cong [OF hd(1), of data_len] arg_cong [OF hd(1), of nb_segs] arg_cong [OF hd(1), of pkt_len] by simp_all
  have "fetch (mem ?h) 42 (length payload) = fetch (mem head) 42 (length payload)"
    using hd(3) write_headers_beyond [OF assms(5,6)] by (intro nth_equalityI) simp_all
  with d have data: "drop 42 (chain_data packet) = payload \<and> length (chain_data packet) = 42 + length payload"
    by (subst (1 2) p) (auto simp: len fetch_append)
  moreover have "unat (pkt_len ?h) = 42 + length payload" using assms(4) unat_of_nat_mod [of "42 + length payload", where 'a = 32] unfolding len by simp
  moreover have "unat (nb_segs ?h) = length packet" unfolding len nb c by (subst p) simp
  ultimately show ?thesis by simp
qed

text \<open>What a pool and a ring do with buffers: \<open>held\<close> counts the buffers in the hands of the program.\<close>

definition owner_ok :: "'r udptx_api \<Rightarrow> ('r \<Rightarrow> nat multiset) \<Rightarrow> bool" where
  "owner_ok api held \<longleftrightarrow>
     (\<forall>r b r'. header_alloc api r = (b, r') \<longrightarrow> held r' = held r + mset (map buf_id (case b of None \<Rightarrow> [] | Some b \<Rightarrow> [b])))
   \<and> (\<forall>r b r'. packet_alloc api r = (b, r') \<longrightarrow> held r' = held r + mset (map buf_id (case b of None \<Rightarrow> [] | Some b \<Rightarrow> [b])))
   \<and> (\<forall>c r. held (chain_free api c r) = held r - mset (map buf_id c))
   \<and> (\<forall>ring c r k r'. ring_mp_enqueue_burst (ring_api api) ring [c] r = (k, r') \<longrightarrow>
        held r' = (if k = 0 then held r else held r - mset (map buf_id c)))"

lemma fill_segments_held:
  assumes "owner_ok api held"
  shows "fill_segments fuel api n payload r = Some (ok, segs, r') \<Longrightarrow> held r' = held r + mset (map buf_id segs)"
proof (induction fuel arbitrary: payload r ok segs)
  case (Suc fuel)
  obtain b r1 where a: "packet_alloc api r = (b, r1)" by fastforce
  have h: "held r1 = held r + mset (map buf_id (case b of None \<Rightarrow> [] | Some b \<Rightarrow> [b]))"
    using assms a unfolding owner_ok_def by blast
  show ?case
  proof (cases b)
    case None
    with Suc.prems a h show ?thesis by simp
  next
    case (Some b)
    let ?k = "if length payload > n then n else length payload"
    from Suc.prems a Some consider (full) "drop ?k payload = []" "r' = r1" "map buf_id segs = [buf_id b]"
      | (more) segs' where "fill_segments fuel api n (drop ?k payload) r1 = Some (ok, segs', r')"
          "map buf_id segs = buf_id b # map buf_id segs'"
      by (auto simp: Let_def split: if_splits)
    then show ?thesis
    proof cases
      case full
      with h Some show ?thesis by simp
    next
      case more
      with Suc.IH [OF more(1)] h Some show ?thesis by simp
    qed
  qed
qed simp

lemma alloc_packet_held:
  assumes "owner_ok api held" and "alloc_packet fuel api ch payload r = Some (res, r')"
  shows "held r' = held r + mset (map buf_id (case res of None \<Rightarrow> [] | Some c \<Rightarrow> c)) \<and> (\<forall>c. res = Some c \<longrightarrow> c \<noteq> [])"
proof -
  have alloc: "held r' = held r + mset (map buf_id (case b of None \<Rightarrow> [] | Some b \<Rightarrow> [b]))"
    if "header_alloc api r = (b, r') \<or> packet_alloc api r = (b, r')" for b r r'
    using assms(1) that unfolding owner_ok_def by blast
  have free: "held (chain_free api c r) = held r - mset (map buf_id c)" for c r
    using assms(1) unfolding owner_ok_def by blast
  obtain h r1 q r2 where a: "header_alloc api r = (h, r1)" "packet_alloc api r = (q, r2)" by fastforce
  note held = alloc [OF disjI1 [OF a(1)]] alloc [OF disjI2 [OF a(2)]]
  show ?thesis
  proof (cases "unat (ux_packet_buf_size ch) < headers_size + length payload")
    case True
    show ?thesis
    proof (cases h)
      case (Some hd)
      with True assms(2) a obtain ok segs r3 where
        f: "fill_segments fuel api (unat (ux_packet_buf_size ch)) payload r1 = Some (ok, segs, r3)"
        by (auto simp: alloc_packet_def split: option.splits)
      with True Some assms(2) a free held fill_segments_held [OF assms(1) f] show ?thesis
        by (auto simp: alloc_packet_def Let_def split: if_splits)
    qed (use True assms(2) a held in \<open>simp add: alloc_packet_def\<close>)
  next
    case False
    with assms(2) a held show ?thesis by (auto simp: alloc_packet_def split: option.splits)
  qed
qed

text \<open>C11: \<open>send\<close> leaks nothing and frees nothing twice: whether the pool runs dry in the middle of a
  packet, the ring is full or the packet is accepted, afterwards the program holds the buffers it held
  before. It returns whenever there is a ring and the buffers have room.\<close>

theorem udptx_send_conserves:
  assumes "owner_ok api held" and "0 < unat (ux_packet_buf_size ch)" and "length payload < fuel"
    and "tx_ring side 0 = Some ring"
  shows "\<exists>ok r'. udptx_send fuel api cfg side ch dst payload r = Some (ok, r') \<and> held r' = held r"
proof -
  obtain res r1 where a: "alloc_packet fuel api ch payload r = Some (res, r1)"
    using alloc_packet_filled(1) [OF assms(2,3)] by fastforce
  have h: "held r1 = held r + mset (map buf_id (case res of None \<Rightarrow> [] | Some c \<Rightarrow> c))"
    and ne: "res = Some c \<Longrightarrow> c \<noteq> []" for c
    using alloc_packet_held [OF assms(1) a] by simp_all
  show ?thesis
  proof (cases res)
    case None
    with a h show ?thesis by (auto simp: udptx_send_def)
  next
    case (Some c)
    let ?p = "make_datagram api cfg ch dst (length payload) c"
    obtain k r2 where e: "ring_mp_enqueue_burst (ring_api api) ring [?p] r1 = (k, r2)" by fastforce
    have "held r2 = (if k = 0 then held r1 else held r1 - mset (map buf_id ?p))"
      using assms(1) e unfolding owner_ok_def by blast
    moreover have "held (chain_free api ?p r2) = held r2 - mset (map buf_id ?p)"
      using assms(1) unfolding owner_ok_def by blast
    ultimately show ?thesis
      using a h ne [OF Some] e Some assms(4) by (auto simp: udptx_send_def tx_ring_enque1_def tx_ring_enque_def)
  qed
qed

section \<open>Examples\<close>

text \<open>A pool that hands out numbered buffers and records which are in use, and a ring that takes them.\<close>

definition numbered_alloc :: "nat \<times> nat multiset \<Rightarrow> rte_mbuf option \<times> nat \<times> nat multiset" where
  "numbered_alloc r = (Some ((example_frame (\<lambda>_. 0) 0)\<lparr>buf_id := fst r\<rparr>), fst r + 1, add_mset (fst r) (snd r))"

definition example_udp :: "(nat \<times> nat multiset) udptx_api" where
  "example_udp = \<lparr>ring_api = \<lparr>ring_sc_dequeue_burst = (\<lambda>_ _ r. ([], r)),
       ring_mp_enqueue_burst = (\<lambda>_ cs r. (length cs, fst r, snd r - mset (map buf_id (concat cs)))),
       eth_tx_burst = (\<lambda>_ bs r. (length bs, r))\<rparr>,
     pool_create = (\<lambda>_ _ n r. (Inr n, r)), header_alloc = numbered_alloc, packet_alloc = numbered_alloc,
     chain_free = (\<lambda>c r. (fst r, snd r - mset (map buf_id c))),
     udp_ipv4_cksum = (\<lambda>_ _. 0), udp_phdr_cksum = (\<lambda>_ _ _. 0), udp_mbuf_cksum = (\<lambda>_ _ _. 0),
     offload_ipv4_cksum = 2, offload_udp_cksum = 4, flag_tx_ipv4 = 1, flag_tx_ip_cksum = 2, flag_tx_udp_cksum = 4\<rparr>"

definition example_channel :: udptx_channel where
  "example_channel = \<lparr>ux_src_port = 7, ux_packet_buf_size = 2, ux_packet_id = 0\<rparr>"

lemma example_owner: "owner_ok example_udp snd"
  by (auto simp: owner_ok_def example_udp_def numbered_alloc_def)

theorem udptx_send_conserves_witness:
  "\<exists>ok r'. udptx_send 4 example_udp example_cfg example_side example_channel ([2, 0, 0, 0, 0, 2], 0x0200000a, 9) [1, 2, 3] (0, {#7#})
     = Some (ok, r') \<and> snd r' = {#7#}"
  using udptx_send_conserves [OF example_owner, of example_channel "[1, 2, 3]" 4 example_side 0 example_cfg
      "([2, 0, 0, 0, 0, 2], 0x0200000a, 9)" "(0, {#7#})"]
  by (simp add: example_channel_def example_side_def tx_ring_def)

text \<open>Three bytes in buffers of two bytes: a head and two segments.\<close>

theorem datagram_carries_payload_witness:
  "\<exists>chain r'. alloc_packet (Suc (Suc (Suc (Suc 0)))) example_udp example_channel [1, 2, 3] (0, {#}) = Some (Some chain, r')
     \<and> length chain = 3
     \<and> drop 42 (chain_data (make_datagram example_udp example_cfg example_channel ([2, 0, 0, 0, 0, 2], 0x0200000a, 9) 3 chain))
         = [1, 2, 3]"
proof -
  have "header_alloc example_udp = numbered_alloc" "packet_alloc example_udp = numbered_alloc"
    by (simp_all add: example_udp_def)
  then have "\<exists>chain r'. alloc_packet (Suc (Suc (Suc (Suc 0)))) example_udp example_channel [1, 2, 3] (0, {#}) = Some (Some chain, r')
      \<and> length chain = 3"
    by (simp add: alloc_packet_def example_channel_def numbered_alloc_def Let_def)
  then obtain chain r' where
    a: "alloc_packet (Suc (Suc (Suc (Suc 0)))) example_udp example_channel [1, 2, 3] (0, {#}) = Some (Some chain, r')"
    and l: "length chain = 3" by blast
  have "drop 42 (chain_data (make_datagram example_udp example_cfg example_channel ([2, 0, 0, 0, 0, 2], 0x0200000a, 9)
      (length [1, 2, 3 :: byte]) chain)) = [1, 2, 3]"
    by (rule conjunct1 [OF datagram_carries_payload [OF a]]) (simp_all add: example_channel_def example_cfg_def)
  with a l show ?thesis by (auto simp: numeral_3_eq_3)
qed

end
