(* ===== verification/Udp_Delivery.thy ===== *)
theory Udp_Delivery
  imports Udp_Tx Device_Rx
begin

text \<open>
  From \<open>udptx_channel::send\<close> of one process to \<open>rx_channel::enqueue\<close> of another one: the packets that \<open>Udp_Tx\<close>
  builds, a network that brings each of them into one buffer, and the receive job of \<open>Device_Rx\<close>, which finds
  the channel of their destination port.
\<close>

section \<open>The two ends\<close>

text \<open>A packet that \<open>send\<close> of some channel hands to the ring for \<open>payload\<close> and the port \<open>port\<close>.\<close>

definition sent_to :: "'r udptx_api \<Rightarrow> dev_cfg \<Rightarrow> u16 \<Rightarrow> byte list \<Rightarrow> rte_mbuf list \<Rightarrow> bool" where
  "sent_to api cfg port payload packet \<longleftrightarrow>
     (\<exists>ch mac ip fuel r chain r'. alloc_packet fuel api ch payload r = Some (Some chain, r')
        \<and> packet = make_datagram api cfg ch (mac, ip, port) (length payload) chain
        \<and> 0 < unat (ux_packet_buf_size ch) \<and> length payload < fuel \<and> length payload \<le> 65493
        \<and> length (mac_addr cfg) = 6 \<and> length mac = 6)"

text \<open>The buffer in which the frame arrives: it may be longer, since short frames are padded.\<close>

definition arrives :: "rte_mbuf list \<Rightarrow> rte_mbuf \<Rightarrow> bool" where
  "arrives packet b \<longleftrightarrow> length (chain_data packet) \<le> unat (data_len b)
     \<and> fetch (mem b) 0 (length (chain_data packet)) = chain_data packet"

text \<open>What the receiving channel reads with the header lengths of the buffer.\<close>

definition udp_payload :: "rte_mbuf \<Rightarrow> byte list" where
  "udp_payload b =
     (let udphdr = unat (l2_len b) + unat (l3_len b)
      in fetch (mem b) (udphdr + unat (l4_len b)) (unat (bswap (ldw (mem b) (udphdr + 4) :: u16)) - 8))"

section \<open>Headers\<close>

lemma write_headers_fields:
  "ldw (write_headers cfg ch dst n m) 12 = bswap RTE_ETHER_TYPE_IPV4"
  "write_headers cfg ch dst n m 14 = 0x45"
  "write_headers cfg ch dst n m 23 = IPPROTO_UDP"
  "ldw (write_headers cfg ch dst n m) 36 = snd (snd dst)"
  "ldw (write_headers cfg ch dst n m) 38 = bswap (of_nat (8 + n) :: u16)"
  by (simp_all add: write_headers_def Let_def mem_simps)

text \<open>The checksums are written to the bytes 24, 25, 40 and 41 only.\<close>

lemma make_datagram_mem:
  "i < 24 \<or> 26 \<le> i \<and> i < 40 \<Longrightarrow>
     mem (hd (make_datagram api cfg ch dst n (b # bs))) i = write_headers cfg ch dst n (mem b) i"
  by (auto simp: make_datagram_def finish_packet_def Let_def stw_apply)

text \<open>What the receiver reads in the headers of such a frame.\<close>

definition udp_frame :: "u16 \<Rightarrow> byte list \<Rightarrow> rte_mbuf \<Rightarrow> bool" where
  "udp_frame port payload b \<longleftrightarrow> 42 + length payload \<le> unat (data_len b)
     \<and> ldw (mem b) 12 = bswap RTE_ETHER_TYPE_IPV4 \<and> mem b 14 = 0x45 \<and> mem b 23 = IPPROTO_UDP
     \<and> ldw (mem b) 36 = port \<and> ldw (mem b) 38 = bswap (of_nat (8 + length payload) :: u16)
     \<and> length payload \<le> 65493 \<and> fetch (mem b) 42 (length payload) = payload"

lemma sent_to_data:
  assumes "sent_to api cfg port payload packet"
  obtains ch dst m where "chain_data packet = fetch (mem (hd packet)) 0 42 @ payload" "snd (snd dst) = port"
    "\<forall>i. i < 24 \<or> 26 \<le> i \<and> i < 40 \<longrightarrow> mem (hd packet) i = write_headers cfg ch dst (length payload) m i"
    "length payload \<le> 65493"
proof -
  obtain ch mac ip fuel r chain r' where a: "alloc_packet fuel api ch payload r = Some (Some chain, r')"
    "packet = make_datagram api cfg ch (mac, ip, port) (length payload) chain"
    "0 < unat (ux_packet_buf_size ch)" "length payload < fuel" and len: "length payload \<le> 65493"
    and mac: "length (mac_addr cfg) = 6" "length mac = 6"
    using assms by (auto simp: sent_to_def)
  obtain head segs where c: "chain = head # segs"
    and d: "unat (data_len head) = 42 \<and> chain_data segs = payload
       \<or> segs = [] \<and> unat (data_len head) = 42 + length payload \<and> fetch (mem head) 42 (length payload) = payload"
    using alloc_packet_filled(2) [OF a(3,4,1) len] by blast
  let ?dst = "(mac, ip, port)" and ?n = "length payload" and ?h = "hd packet"
  note hd = make_datagram_hd [where api = api and cfg = cfg and ch = ch and dst = ?dst and n = ?n
    and b = head and bs = segs, folded c, folded a(2)]
  have p: "packet = ?h # segs" using hd(2) by (simp add: a(2) make_datagram_def finish_packet_def Let_def)
  have l: "data_len ?h = data_len head" using arg_cong [OF hd(1), of data_len] by simp
  have "fetch (mem ?h) 42 ?n = fetch (mem head) 42 ?n"
    using hd(3) write_headers_beyond [OF mac(1)] mac(2) by (intro nth_equalityI) simp_all
  with d have data: "chain_data packet = fetch (mem ?h) 0 42 @ payload"
    by (subst p) (auto simp: l fetch_append)
  show thesis
    by (rule that [where ch = ch and dst = ?dst and m = "mem head", OF data _ _ len])
      (simp_all add: make_datagram_mem [of _ api cfg ch ?dst ?n head segs, folded c, folded a(2)])
qed

lemma sent_to_frame:
  assumes "sent_to api cfg port payload packet" and "arrives packet b"
  shows "udp_frame port payload b"
proof -
  obtain ch dst m where s: "chain_data packet = fetch (mem (hd packet)) 0 42 @ payload" "snd (snd dst) = port"
    and m: "\<forall>i. i < 24 \<or> 26 \<le> i \<and> i < 40 \<longrightarrow> mem (hd packet) i = write_headers cfg ch dst (length payload) m i"
    and len: "length payload \<le> 65493"
    using sent_to_data [OF assms(1)] by blast
  let ?w = "write_headers cfg ch dst (length payload) m"
  have f: "42 + length payload \<le> unat (data_len b)" "fetch (mem b) 0 42 = fetch (mem (hd packet)) 0 42"
    "fetch (mem b) 42 (length payload) = payload"
    using assms(2) s(1) by (simp_all add: arrives_def fetch_append)
  have eq: "mem b i = ?w i" if "i < 24 \<or> 26 \<le> i \<and> i < 40" for i
    using arg_cong [OF f(2), of "\<lambda>xs. xs ! i"] that m by auto
  have "(ldw (mem b) i :: u16) = ldw ?w i" if "i = 12 \<or> i = 36 \<or> i = 38" for i
    using that by (intro ldw_cong) (auto intro!: eq)
  then show ?thesis
    using f(1,3) len s(2) write_headers_fields [of cfg ch dst "length payload" m] eq [of 14] eq [of 23]
    by (simp add: udp_frame_def del: be_ether_types)
qed

section \<open>The receive job\<close>

text \<open>A frame after \<open>update_l2size\<close>, and after the job has found its channel.\<close>

abbreviation parsed :: "rte_mbuf \<Rightarrow> rte_mbuf" where "parsed b \<equiv> b\<lparr>l2_len := 14\<rparr>"

definition measured :: "rte_mbuf \<Rightarrow> rte_mbuf" where
  "measured b = b\<lparr>l2_len := 14, l3_len := 20, l4_len := 8\<rparr>"

lemma unat_dgram_len: "length payload \<le> 65493 \<Longrightarrow> unat (of_nat (8 + length payload) :: u16) = 8 + length payload"
  by (subst unat_of_nat_mod) simp

lemma udp_frame_parsed:
  assumes "udp_frame port payload b"
  shows "update_l2size (Suc fuel) b = Some (bswap RTE_ETHER_TYPE_IPV4, parsed b)"
    and "eth_proto (parsed b) = bswap RTE_ETHER_TYPE_IPV4" and "is_udp (parsed b)"
    and "udp_at (parsed b) = 34" and "\<not> broken_udp (parsed b)" and "udp_dst_port (parsed b) = port"
    and "udp_payload (measured b) = payload"
proof -
  have hdr: "ipv4_hdr_len (mem b) 14 = 20" using assms by (simp add: udp_frame_def ipv4_hdr_len_def)
  show at: "udp_at (parsed b) = 34" using hdr by (simp add: udp_at_def)
  show "update_l2size (Suc fuel) b = Some (bswap RTE_ETHER_TYPE_IPV4, parsed b)"
    using assms update_l2size_to [of 0 b "Suc fuel"] by (simp add: udp_frame_def ether_type_at_def is_vlan_def)
  show "eth_proto (parsed b) = bswap RTE_ETHER_TYPE_IPV4" "is_udp (parsed b)"
    using assms by (simp_all add: udp_frame_def eth_proto_def is_udp_def)
  show "\<not> broken_udp (parsed b)" "udp_dst_port (parsed b) = port"
    using assms unat_dgram_len [of payload] by (simp_all add: broken_udp_def udp_dst_port_def at udp_frame_def)
  show "udp_payload (measured b) = payload"
    using assms unat_dgram_len [of payload] by (simp add: udp_payload_def measured_def udp_frame_def)
qed

text \<open>Every entry of the current table for the port belongs to the channel, and there is one.\<close>

definition serves :: "sink_dev \<Rightarrow> u16 \<Rightarrow> nat \<Rightarrow> bool" where
  "serves d port chan \<longleftrightarrow> port \<in> (snd \<circ> fst) ` set (sinks d)
     \<and> (\<forall>x \<in> set (sinks d). snd (fst x) = port \<longrightarrow> snd x = Some chan)"

text \<open>A job that reads the current table.\<close>

definition job_current :: "sink_dev \<Rightarrow> rx_job \<Rightarrow> bool" where
  "job_current d job \<longleftrightarrow> job_wf d job \<and> rj_sinks job = sinks_addr d"

lemma find_rx_channel_job:
  "find_rx_channel d port job = Some (c, job') \<Longrightarrow> rj_sinks job = sinks_addr d \<Longrightarrow>
     rj_sinks job' = sinks_addr d \<and> rj_queue job' = rj_queue job \<and> rj_burst job' = rj_burst job"
  by (auto simp: find_rx_channel_def try_reload_sinks_def Let_def split: if_splits prod.splits)

lemma find_rx_channel_serves:
  assumes "job_current d job" and "serves d port chan"
  obtains job' where "find_rx_channel d port job = Some (Some chan, job')" "job_current d job'"
    "rj_queue job' = rj_queue job" "rj_burst job' = rj_burst job"
proof -
  obtain c job' where f: "find_rx_channel d port job = Some (c, job')" "job_wf d job'"
    and c: "\<forall>x. c = Some x \<longrightarrow> (\<exists>ip. ((ip, port), Some x) \<in> set (vectors d (rj_sinks job')))"
      "c = None \<longrightarrow> port \<notin> (snd \<circ> fst) ` set (vectors d (rj_sinks job'))
            \<or> (\<exists>ip. ((ip, port), None) \<in> set (vectors d (rj_sinks job')))"
    using find_rx_channel_correct_lemma [of d job port] assms(1) unfolding job_current_def by blast
  have j: "rj_sinks job' = sinks_addr d" "rj_queue job' = rj_queue job" "rj_burst job' = rj_burst job"
    using find_rx_channel_job [OF f(1)] assms(1) by (simp_all add: job_current_def)
  have "c = Some chan"
    using c assms(2) unfolding j sinks_def [symmetric] serves_def by (cases c) fastforce+
  with f j that [of job'] show thesis by (simp add: job_current_def)
qed

text \<open>The state of the scan after the frames \<open>past\<close> for the channel, with \<open>todo\<close> ahead.\<close>

definition scan_at ::
  "sink_dev \<Rightarrow> nat \<Rightarrow> nat \<Rightarrow> rte_mbuf list \<Rightarrow> rte_mbuf list \<Rightarrow> rte_mbuf list \<Rightarrow> nat \<Rightarrow> 'r \<Rightarrow> 'r scan \<Rightarrow> bool" where
  "scan_at d chan q past todo junk n r s \<longleftrightarrow>
     sc_arr s = map measured past @ map parsed todo @ junk \<and> sc_ready s = length past
     \<and> sc_channel s = (if past = [] then None else Some chan) \<and> sc_post s = n \<and> sc_log s = []
     \<and> job_current d (sc_job s) \<and> rj_queue (sc_job s) = q \<and> sc_env s = r"

lemma scan_packet_at:
  assumes "scan_at d chan q past (b # todo) junk n r s" and "udp_frame port payload b" and "serves d port chan"
  shows "\<exists>s'. scan_packet api d (length past) s = Some s' \<and> scan_at d chan q (past @ [b]) todo junk n r s'"
proof -
  have b: "sc_arr s ! length past = parsed b" using assms(1) by (simp add: scan_at_def nth_append)
  have "job_current d (sc_job s)" using assms(1) by (simp add: scan_at_def)
  then obtain job where job: "find_rx_channel d port (sc_job s) = Some (Some chan, job)" "job_current d job"
    "rj_queue job = rj_queue (sc_job s)"
    using find_rx_channel_serves [OF _ assms(3)] by metis
  let ?s' = "deliver_packet api (length past) (parsed b) chan (s\<lparr>sc_job := job\<rparr>)"
  have "scan_packet api d (length past) s = Some ?s'"
    using udp_frame_parsed [OF assms(2)] job(1) by (simp add: scan_packet_def Let_def b del: be_ether_types) simp
  moreover have "(parsed b)\<lparr>l3_len := of_nat (ipv4_hdr_len (mem b) 14), l4_len := 8\<rparr> = measured b"
    using assms(2) by (simp add: measured_def udp_frame_def ipv4_hdr_len_def)
  then have "scan_at d chan q (past @ [b]) todo junk n r ?s'"
    using assms(1) job(2,3)
    by (auto simp: scan_at_def deliver_packet_def flush_recycle_def list_update_append Let_def)
  ultimately show ?thesis by blast
qed

lemma scan_burst_at:
  assumes "scan_at d chan q past todo junk n r s" and "past @ todo \<noteq> []" and "serves d port chan"
    and "\<forall>b \<in> set todo. \<exists>payload. udp_frame port payload b"
  shows "\<exists>s'. scan_burst api d (length past) (length todo) s = Some s' \<and> sc_post s' = n
     \<and> sc_log s' = [Delivered chan (map measured (past @ todo)) (fst (enqueue api chan q (map measured (past @ todo)) r)) False]
     \<and> sc_env s' = snd (enqueue api chan q (map measured (past @ todo)) r)"
  using assms(1,2,4)
proof (induction todo arbitrary: past s)
  case Nil
  then have "run_of s (length past) = map measured past" by (simp add: scan_at_def run_of_def)
  with Nil show ?case by (auto simp: scan_at_def flush_ignore_def Let_def split: prod.splits)
next
  case (Cons b todo)
  then obtain payload where "udp_frame port payload b" by auto
  from scan_packet_at [OF Cons.prems(1) this assms(3), of api] obtain s' where
    s': "scan_packet api d (length past) s = Some s'" "scan_at d chan q (past @ [b]) todo junk n r s'" by blast
  with Cons.IH [OF s'(2)] Cons.prems show ?case by simp
qed

lemma update_all_frames:
  "\<forall>b \<in> set bs. \<exists>payload. udp_frame port payload b \<Longrightarrow> update_all (Suc fuel) bs = Some (map parsed bs)"
  by (induction bs) (auto simp: udp_frame_parsed)

section \<open>Properties\<close>

text \<open>C2: datagrams reach the channel they are meant for. Whatever the senders and the sizes of their buffers, a
  burst of frames that carry datagrams for a port is given to the channel attached for that port with a single
  call, all of them and in the order of arrival, with header lengths by which the channel reads exactly
  the payloads that were sent; padding behind a frame is not part of them.\<close>

theorem datagrams_delivered:
  assumes "list_all2 (\<lambda>(payload, packet) b. sent_to api cfg port payload packet \<and> arrives packet b) sent bs"
    and "bs \<noteq> []" and "eth_rx_burst rapi (rj_queue (rs_job s)) (rj_burst (rs_job s)) (rs_env s) = (bs, r)"
    and "job_current d (rs_job s)" and "serves d port chan"
  shows "\<exists>job' bs' recycle r'.
     rx_job_process napi rapi rcfg side d (Suc fuel) junk s
       = Some (Idling, [Delivered chan bs' recycle False], s\<lparr>rs_job := job', rs_env := r'\<rparr>)
     \<and> enqueue rapi chan (rj_queue (rs_job s)) bs' r = (recycle, r')
     \<and> map buf_id bs' = map buf_id bs \<and> map udp_payload bs' = map fst sent"
proof -
  have frames: "list_all2 (\<lambda>x b. udp_frame port (fst x) b) sent bs"
    using assms(1) by (rule list.rel_mono_strong) (auto intro: sent_to_frame)
  then have payloads: "map udp_payload (map measured bs) = map fst sent"
    by (induction rule: list_all2_induct) (auto simp: udp_frame_parsed(7))
  have fr: "\<forall>b \<in> set bs. \<exists>payload. udp_frame port payload b"
    using frames by (fastforce simp: list_all2_conv_all_nth in_set_conv_nth)
  let ?job = "snd (try_reload_sinks d (rs_job s))" and ?q = "rj_queue (rs_job s)" and ?n = "length bs"
  have job: "rj_queue ?job = ?q" "rj_burst ?job = rj_burst (rs_job s)" "job_current d ?job"
    using assms(4) by (auto simp: try_reload_sinks_def job_current_def job_wf_def)
  let ?s0 = "\<lparr>sc_arr = map parsed bs @ drop ?n junk, sc_ready = 0, sc_channel = None,
     sc_post = ?n, sc_log = [], sc_job = ?job, sc_env = r\<rparr>"
  let ?bs = "map measured bs" let ?e = "enqueue rapi chan ?q ?bs r"
  have "scan_at d chan ?q [] bs (drop ?n junk) ?n r ?s0" using job by (simp add: scan_at_def)
  from scan_burst_at [OF this _ assms(5) fr, of rapi] assms(2) obtain s'
    where s': "scan_burst rapi d 0 ?n ?s0 = Some s'" "sc_post s' = ?n"
      "sc_log s' = [Delivered chan ?bs (fst ?e) False]" "sc_env s' = snd ?e" by auto
  have "rx_job_process napi rapi rcfg side d (Suc fuel) junk s =
      Some (Idling, [Delivered chan ?bs (fst ?e) False],
        s\<lparr>rs_job := (sc_job s')\<lparr>rj_checkpoint := rj_checkpoint (sc_job s') + 1\<rparr>, rs_env := snd ?e\<rparr>)"
    using assms(2,3) job(1,2) update_all_frames [OF fr, of fuel] s'
    by (simp add: rx_job_process_def Let_def)
  moreover have "map buf_id ?bs = map buf_id bs" by (simp add: measured_def)
  ultimately show ?thesis using payloads by (metis surj_pair prod.collapse)
qed

text \<open>Two datagrams for port 8, one in three buffers and one in a single buffer.\<close>

definition example_packet :: "u16 \<Rightarrow> byte list \<Rightarrow> rte_mbuf list" where
  "example_packet n payload =
     (let ch = example_channel\<lparr>ux_packet_buf_size := n\<rparr>
      in case alloc_packet 5 example_udp ch payload (0, {#}) of
           Some (Some chain, r) \<Rightarrow> make_datagram example_udp example_peer ch ([2, 0, 0, 0, 0, 1], 7, 8) (length payload) chain)"

definition example_arrival :: "rte_mbuf list \<Rightarrow> rte_mbuf" where
  "example_arrival packet = example_frame (store (\<lambda>_. 0) 0 (chain_data packet)) (of_nat (length (chain_data packet)))"

lemma example_sent:
  assumes "0 < unat n" and "length payload < 5"
  shows "sent_to example_udp example_peer 8 payload (example_packet n payload)"
    and "arrives (example_packet n payload) (example_arrival (example_packet n payload))"
proof -
  let ?ch = "example_channel\<lparr>ux_packet_buf_size := n\<rparr>" and ?p = "example_packet n payload"
  have n: "unat n < 65536" using unsigned_less [of n, where 'a = nat] by simp
  have alloc: "header_alloc example_udp = numbered_alloc" "packet_alloc example_udp = numbered_alloc"
    by (simp_all add: example_udp_def)
  have fill: "fill_segments fuel example_udp (unat n) p r = Some (ok, segs, r') \<Longrightarrow> ok" for fuel p r ok segs r'
    by (induction fuel arbitrary: p r segs) (auto simp: alloc numbered_alloc_def Let_def split: if_splits)
  obtain ok segs r2 where f: "fill_segments 5 example_udp (unat n) payload (1, {#0#}) = Some (ok, segs, r2)"
    using fill_segments_total [OF assms(1) n assms(2), of example_udp "(1, {#0#})"] by auto
  have "\<exists>chain r'. alloc_packet 5 example_udp ?ch payload (0, {#}) = Some (Some chain, r')"
    using f fill [OF f] by (simp add: alloc_packet_def alloc numbered_alloc_def Let_def)
  then obtain chain r' where c: "alloc_packet 5 example_udp ?ch payload (0, {#}) = Some (Some chain, r')" by blast
  then have "?p = make_datagram example_udp example_peer ?ch ([2, 0, 0, 0, 0, 1], 7, 8) (length payload) chain"
    by (simp add: example_packet_def)
  with c show s: "sent_to example_udp example_peer 8 payload ?p"
    unfolding sent_to_def using assms
    by (intro exI [of _ ?ch] exI [of _ "[2, 0, 0, 0, 0, 1]"] exI [of _ "7"] exI [of _ "5"] exI [of _ "(0, {#})"]
        exI [of _ chain] exI [of _ r'] conjI) (simp_all add: example_peer_def)
  have "length (chain_data ?p) = 42 + length payload" using s by (rule sent_to_data) simp
  then show "arrives ?p (example_arrival ?p)"
    using assms(2) unat_of_nat_mod [of "length (chain_data ?p)", where 'a = 16]
    by (simp add: arrives_def example_arrival_def example_frame_def fetch_store_same)
qed

definition delivery_rx :: "rte_mbuf list rx_api" where
  "delivery_rx = example_rx\<lparr>eth_rx_burst :=
     (\<lambda>_ _ r. ([example_arrival (example_packet 2 [1, 2, 3]), example_arrival (example_packet 64 [4])], r))\<rparr>"

theorem datagrams_delivered_witness:
  "\<exists>bs' recycle s'. rx_job_process example_net delivery_rx example_cfg example_side example_table 2 []
       \<lparr>rs_job = make_rx_job 0 32 1001 example_table, rs_arp = (\<lambda>_. None), rs_env = []\<rparr>
     = Some (Idling, [Delivered 3 bs' recycle False], s') \<and> map udp_payload bs' = [[1, 2, 3], [4]]"
proof -
  let ?s = "\<lparr>rs_job = make_rx_job 0 32 1001 example_table, rs_arp = (\<lambda>_. None), rs_env = []\<rparr>"
  let ?p = "example_packet 2 [1, 2, 3]" and ?q = "example_packet 64 [4]"
  have sent: "list_all2 (\<lambda>(payload, packet) b. sent_to example_udp example_peer 8 payload packet \<and> arrives packet b)
      [([1, 2, 3], ?p), ([4], ?q)] [example_arrival ?p, example_arrival ?q]"
    using example_sent [of 2 "[1, 2, 3]"] example_sent [of 64 "[4]"] by simp
  have "job_current example_table (rs_job ?s)"
    using example_job_wf by (simp add: job_current_def make_rx_job_def)
  moreover have "serves example_table 8 3"
    by (simp add: serves_def example_table_def make_sinks_def sinks_def Let_def)
  ultimately show ?thesis
    using datagrams_delivered [OF sent, of delivery_rx ?s "[]" example_table 3 example_net example_cfg example_side 1 "[]"]
    by (auto simp: delivery_rx_def numeral_2_eq_2)
qed

end
