(* ===== verification/Sockperf_Stats.thy ===== *)
theory Sockperf_Stats
  imports Sockperf_Proto Numerics
begin

text \<open>
  The statistics of \<open>sockperf_cli/stats.{hpp,cpp}\<close>: the slots for received packets, the time stamps
  of sent bursts, and the evaluation that counts missing and reordered packets per transmit queue
  and computes the packet rate. Of the histograms the samples are kept; the log output is left out. \<open>None\<close> stands for an access
  outside an array or vector.
\<close>

section \<open>Slots\<close>

record packet_info =
  pi_seqn :: u64
  pi_received :: u64
  pi_enqueued_rx :: u64
  pi_size :: u16

record statistics =
  st_txq_n :: u8
  st_next_slot :: nat
  st_size :: nat
  st_memory :: "packet_info list"

definition make_statistics :: "packet_info list \<Rightarrow> nat \<Rightarrow> u8 \<Rightarrow> statistics" where
  "make_statistics memory n_slots txq_n =
     \<lparr>st_txq_n = txq_n, st_next_slot = 0, st_size = n_slots * unat txq_n, st_memory = memory\<rparr>"

text \<open>\<open>slot\<close> returns a reference; here it is the index of the slot, \<open>None\<close> when there is none.\<close>

definition stats_slot :: "statistics \<Rightarrow> (nat \<times> statistics) option" where
  "stats_slot st =
     (if st_size st = 0 then None
      else Some (if st_size st > st_next_slot st then st_next_slot st else st_size st - 1,
                 st\<lparr>st_next_slot := st_next_slot st + 1\<rparr>))"

record tx_timestamps =
  ts_capacity :: nat
  ts_data :: "(u64 \<times> u64) list"

text \<open>A slot for a burst; the time stamp of the new element is not initialised, \<open>junk\<close>.\<close>

definition timestamps_slot :: "u64 \<Rightarrow> u64 \<Rightarrow> tx_timestamps \<Rightarrow> tx_timestamps option" where
  "timestamps_slot junk s ts =
     (if length (ts_data ts) < ts_capacity ts then Some (ts\<lparr>ts_data := ts_data ts @ [(s, junk)]\<rparr>) else None)"

section \<open>Evaluation\<close>

record per_queue =
  pq_out_of_sequence :: u64
  pq_missing :: u64
  pq_prev :: "nat option"

definition fresh_queue :: per_queue where
  "fresh_queue = \<lparr>pq_out_of_sequence = 0, pq_missing = 0, pq_prev = None\<rparr>"

text \<open>\<open>run\<close> of \<open>sockperf_cli/sockperf.cpp\<close>, lines 276-283: a sender without time stamps gets one made up.\<close>

definition usable_timestamps :: "u64 \<Rightarrow> (u64 \<times> u64) list list \<Rightarrow> (u64 \<times> u64) list list" where
  "usable_timestamps now timestamps = map (\<lambda>ts. if ts = [] then [(0, now - 1000000000 div 2)] else ts) timestamps"

text \<open>\<open>std::prev(std::ranges::upper_bound(...))\<close>: the last burst whose number is at most \<open>seqn - 1\<close>.\<close>

definition sent_at :: "(u64 \<times> u64) list \<Rightarrow> u64 \<Rightarrow> u64 option" where
  "sent_at ts s =
     (let upper = length (takeWhile (\<lambda>e. fst e \<le> s - 1) ts)
      in if upper = 0 then None else Some (snd (ts ! (upper - 1))))"

text \<open>Lines 108-126: the counters of one queue for the packet with index \<open>i\<close>.\<close>

definition count_packet :: "packet_info list \<Rightarrow> nat \<Rightarrow> per_queue \<Rightarrow> per_queue" where
  "count_packet data i q =
     (let s = snd (split_seqn (pi_seqn (data ! i)))
      in case pq_prev q of
           None \<Rightarrow> q\<lparr>pq_prev := Some i\<rparr>
         | Some prev \<Rightarrow>
             (let expected = snd (split_seqn (pi_seqn (data ! prev))) + 1
              in if expected \<noteq> s then
                   (if expected < s
                    then q\<lparr>pq_missing := pq_missing q + (s - expected), pq_prev := Some i\<rparr>
                    else q\<lparr>pq_out_of_sequence := pq_out_of_sequence q + 1, pq_missing := pq_missing q - 1\<rparr>)
                 else q\<lparr>pq_prev := Some i\<rparr>))"

text \<open>The two lists are the samples of the histograms: round trips, and intervals between packets, which the
  first packet of a queue does not contribute to.\<close>

record eval =
  ev_stats :: "per_queue list"
  ev_first :: nat
  ev_last :: nat
  ev_rtt :: "u64 list"
  ev_p2p :: "u64 list"

definition eval_packet ::
  "packet_info list \<Rightarrow> (u64 \<times> u64) list list \<Rightarrow> nat \<Rightarrow> eval \<Rightarrow> eval option" where
  "eval_packet data timestamps i ev =
     (let (queue, s) = split_seqn (pi_seqn (data ! i)); q = unat queue
      in if length (ev_stats ev) < q then Some ev
         else if length timestamps \<le> q \<or> length (ev_stats ev) \<le> q then None
         else case sent_at (timestamps ! q) s of
           None \<Rightarrow> None
         | Some sent \<Rightarrow>
             Some (ev\<lparr>ev_rtt := ev_rtt ev @ [pi_enqueued_rx (data ! i) - sent],
                      ev_first := (if pi_received (data ! ev_first ev) > pi_received (data ! i) then i else ev_first ev),
                      ev_last := (if pi_received (data ! ev_last ev) < pi_received (data ! i) then i else ev_last ev),
                      ev_stats := (ev_stats ev)[q := count_packet data i (ev_stats ev ! q)],
                      ev_p2p := ev_p2p ev @ (if pq_prev (ev_stats ev ! q) = None then []
                                             else [pi_received (data ! i) - pi_received (data ! (i - 1))])\<rparr>))"

fun eval_packets :: "packet_info list \<Rightarrow> (u64 \<times> u64) list list \<Rightarrow> nat list \<Rightarrow> eval \<Rightarrow> eval option" where
  "eval_packets data timestamps [] ev = Some ev"
| "eval_packets data timestamps (i # is) ev =
     (case eval_packet data timestamps i ev of None \<Rightarrow> None | Some ev \<Rightarrow> eval_packets data timestamps is ev)"

text \<open>The report of lines 131-141 for one queue: missing, out of sequence and the last number. A queue
  from which nothing was received still reads its previous packet, at index \<open>2^64 - 1\<close>.\<close>

definition queue_report :: "packet_info list \<Rightarrow> per_queue \<Rightarrow> (u64 \<times> u64 \<times> u64) option" where
  "queue_report data q =
     (case pq_prev q of
        None \<Rightarrow> None
      | Some i \<Rightarrow> Some (pq_missing q, pq_out_of_sequence q, snd (split_seqn (pi_seqn (data ! i)))))"

fun queue_reports :: "packet_info list \<Rightarrow> per_queue list \<Rightarrow> (u64 \<times> u64 \<times> u64) list option" where
  "queue_reports data [] = Some []"
| "queue_reports data (q # qs) =
     (case queue_report data q of None \<Rightarrow> None | Some r \<Rightarrow> map_option (Cons r) (queue_reports data qs))"

text \<open>Lines 153-166: nanoseconds and packets per second, when time passed.\<close>

definition packet_rate :: "packet_info list \<Rightarrow> u64 \<Rightarrow> nat \<Rightarrow> nat \<Rightarrow> (u64 \<times> u64) option" where
  "packet_rate data received_packets first_ix last_ix =
     (let ns = pi_received (data ! last_ix) - pi_received (data ! first_ix)
      in if ns = 0 then None else Some (ns, received_packets * 1000000000 div ns))"

definition stats_process ::
  "statistics \<Rightarrow> (u64 \<times> u64) list list \<Rightarrow> ((u64 \<times> u64 \<times> u64) list \<times> (u64 \<times> u64) option) option" where
  "stats_process st timestamps =
     (let data = st_memory st; received_packets = st_next_slot st;
          collected = min received_packets (st_size st)
      in if collected < 2 then Some ([], None)
         else if collected = 2 then Some ([], packet_rate data (of_nat received_packets) 0 1)
         else case eval_packets data timestamps [0..<collected]
                     \<lparr>ev_stats = replicate (unat (st_txq_n st)) fresh_queue, ev_first = 0, ev_last = collected - 1, ev_rtt = [], ev_p2p = []\<rparr> of
           None \<Rightarrow> None
         | Some ev \<Rightarrow>
             (case queue_reports data (ev_stats ev) of
                None \<Rightarrow> None
              | Some reports \<Rightarrow> Some (reports, packet_rate data (of_nat received_packets) (ev_first ev) (ev_last ev))))"

section \<open>Slots are inside the memory\<close>

definition stats_wf :: "statistics \<Rightarrow> bool" where
  "stats_wf st \<longleftrightarrow> 0 < st_size st \<and> length (st_memory st) = st_size st"

lemma stats_slot_lemma:
  assumes "stats_wf st"
  shows "\<exists>i st'. stats_slot st = Some (i, st') \<and> i < length (st_memory st') \<and> stats_wf st'
       \<and> st_next_slot st' = st_next_slot st + 1
       \<and> (st_next_slot st < st_size st \<longrightarrow> i = st_next_slot st)
       \<and> (st_size st \<le> st_next_slot st \<longrightarrow> i = st_size st - 1)"
  using assms by (auto simp: stats_slot_def stats_wf_def)

text \<open>\<open>slot\<close> always names an element of the memory, a new one while there are unused slots, and the
  last one again when all are used.\<close>

theorem stats_slot_in_memory:
  assumes "stats_wf st"
  shows "\<exists>i st'. stats_slot st = Some (i, st') \<and> i < length (st_memory st') \<and> stats_wf st'
       \<and> st_next_slot st' = st_next_slot st + 1
       \<and> (st_next_slot st < st_size st \<longrightarrow> i = st_next_slot st)
       \<and> (st_size st \<le> st_next_slot st \<longrightarrow> i = st_size st - 1)"
  by (rule stats_slot_lemma [OF assms])

theorem stats_slot_in_memory_witness:
  "map_option fst (stats_slot (make_statistics (replicate 2 \<lparr>pi_seqn = 0, pi_received = 0, pi_enqueued_rx = 0, pi_size = 0\<rparr>) 2 1))
     = Some 0"
  using stats_slot_in_memory [of "make_statistics (replicate 2 \<lparr>pi_seqn = 0, pi_received = 0, pi_enqueued_rx = 0, pi_size = 0\<rparr>) 2 1"]
  by (auto simp: stats_wf_def make_statistics_def)

section \<open>Counting missing packets\<close>

text \<open>The sequence numbers of the packets with the given indices.\<close>

definition seqns :: "packet_info list \<Rightarrow> nat list \<Rightarrow> u64 list" where
  "seqns data is = map (\<lambda>i. snd (split_seqn (pi_seqn (data ! i)))) is"

text \<open>Sequence numbers that \<open>split_seqn\<close> returns have 28 bits, so the next one does not wrap.\<close>

lemma split_seqn_less: "unat (snd (split_seqn s)) < 2 ^ 28"
proof -
  have "snd (split_seqn s) = take_bit 28 s" by (simp add: split_seqn_def mask28 take_bit_eq_mask)
  then show ?thesis using take_bit_nat_less_exp [of 28 "unat s"] by (simp add: unsigned_take_bit_eq)
qed

lemma split_seqn_expected: "unat (snd (split_seqn s) + 1) = unat (snd (split_seqn s)) + 1"
  using split_seqn_less [of s] by (simp add: unat_word_ariths)

definition counted :: "packet_info list \<Rightarrow> nat list \<Rightarrow> per_queue" where
  "counted data is = fold (count_packet data) is fresh_queue"

lemma counted_snoc [simp]: "counted data [] = fresh_queue"
  "counted data (is @ [i]) = count_packet data i (counted data is)"
  by (simp_all add: counted_def)

text \<open>The counters of one queue after the packets \<open>is\<close>: the previous packet carries the largest number,
  and the missing ones are the numbers from the first to the largest less the packets counted.\<close>

lemma counted_invariant:
  assumes "is \<noteq> []"
  shows "\<exists>prev. pq_prev (counted data is) = Some prev \<and> prev \<in> set is
       \<and> (\<forall>i \<in> set is. snd (split_seqn (pi_seqn (data ! i))) \<le> snd (split_seqn (pi_seqn (data ! prev))))
       \<and> pq_missing (counted data is) =
           snd (split_seqn (pi_seqn (data ! prev))) - hd (seqns data is) + 1 - of_nat (length is)"
  using assms
proof (induction "is" rule: rev_induct)
  case Nil
  then show ?case by simp
next
  case (snoc i "is")
  show ?case
  proof (cases "is = []")
    case True
    then show ?thesis by (simp add: counted_def count_packet_def fresh_queue_def seqns_def)
  next
    case False
    let ?s = "\<lambda>i. snd (split_seqn (pi_seqn (data ! i)))"
    from False snoc.IH obtain prev where prev: "pq_prev (counted data is) = Some prev" "prev \<in> set is"
      "\<forall>i \<in> set is. ?s i \<le> ?s prev"
      "pq_missing (counted data is) = ?s prev - hd (seqns data is) + 1 - of_nat (length is)" by blast
    have hd: "hd (seqns data (is @ [i])) = hd (seqns data is)" using False by (simp add: seqns_def)
    have nxt: "unat (?s prev + 1) = unat (?s prev) + 1" by (rule split_seqn_expected)
    consider "?s prev + 1 \<le> ?s i" | "?s i \<le> ?s prev"
      using nxt by (metis word_le_nat_alt Suc_eq_plus1 not_less_eq_eq)
    then show ?thesis
    proof cases
      case 1
      then have "pq_prev (count_packet data i (counted data is)) = Some i"
        and "pq_missing (count_packet data i (counted data is)) = pq_missing (counted data is) + (?s i - (?s prev + 1))"
        using prev(1) by (auto simp: count_packet_def Let_def)
      moreover have "?s prev \<le> ?s i" using 1 nxt by (simp add: word_le_nat_alt)
      ultimately show ?thesis using prev(3,4) hd by auto
    next
      case 2
      then have "\<not> ?s prev + 1 < ?s i" "?s prev + 1 \<noteq> ?s i"
        using nxt by (auto simp: word_le_nat_alt word_less_nat_alt)
      then have "pq_prev (count_packet data i (counted data is)) = Some prev"
        and "pq_missing (count_packet data i (counted data is)) = pq_missing (counted data is) - 1"
        using prev(1) by (auto simp: count_packet_def Let_def)
      then show ?thesis using prev(2-4) hd 2 by auto
    qed
  qed
qed

text \<open>A loop over packets of all queues runs the counters of each queue over its own packets.\<close>

definition queue_of :: "packet_info list \<Rightarrow> nat \<Rightarrow> nat" where
  "queue_of data i = unat (fst (split_seqn (pi_seqn (data ! i))))"

lemma eval_packet_stats:
  assumes "eval_packet data timestamps i ev = Some ev'" and "q < length (ev_stats ev)"
  shows "ev_stats ev' ! q = (if queue_of data i = q then count_packet data i (ev_stats ev ! q) else ev_stats ev ! q)"
    and "length (ev_stats ev') = length (ev_stats ev)"
  using assms by (auto simp: eval_packet_def queue_of_def Let_def split: prod.splits if_splits option.splits)

lemma eval_packets_stats:
  assumes "eval_packets data timestamps is ev = Some ev'" and "q < length (ev_stats ev)"
  shows "ev_stats ev' ! q = fold (count_packet data) (filter (\<lambda>i. queue_of data i = q) is) (ev_stats ev ! q)"
  using assms
proof (induction "is" arbitrary: ev)
  case (Cons i "is")
  obtain ev1 where ev1: "eval_packet data timestamps i ev = Some ev1"
    using Cons.prems(1) by (auto split: option.splits)
  note st = eval_packet_stats [OF ev1 Cons.prems(2)]
  have "ev_stats ev' ! q = fold (count_packet data) (filter (\<lambda>i. queue_of data i = q) is) (ev_stats ev1 ! q)"
    using Cons.prems ev1 st(2) by (intro Cons.IH) simp_all
  then show ?case by (simp add: st(1))
qed simp

lemma card_missing:
  assumes "distinct (xs :: nat list)" and "\<forall>x \<in> set xs. a \<le> x \<and> x \<le> b"
  shows "card ({a..b} - set xs) = Suc b - a - length xs"
proof -
  have "set xs \<subseteq> {a..b}" using assms(2) by auto
  then show ?thesis using distinct_card [OF assms(1)] by (simp add: card_Diff_subset)
qed

lemma missing_counted_lemma:
  assumes "eval_packets data timestamps is ev = Some ev'" and "q < length (ev_stats ev)"
    and "ev_stats ev ! q = fresh_queue" and "ss = seqns data (filter (\<lambda>i. queue_of data i = q) is)"
    and "ss \<noteq> []" and "distinct ss" and "\<forall>s \<in> set ss. hd ss \<le> s"
  shows "\<exists>largest \<in> set ss. (\<forall>s \<in> set ss. s \<le> largest)
       \<and> unat (pq_missing (ev_stats ev' ! q)) = card ({unat (hd ss)..unat largest} - unat ` set ss)"
proof -
  let ?is = "filter (\<lambda>i. queue_of data i = q) is"
  have ne: "?is \<noteq> []" using assms(4,5) by (auto simp: seqns_def)
  have eq: "ev_stats ev' ! q = counted data ?is"
    using eval_packets_stats [OF assms(1,2)] assms(3) by (simp add: counted_def)
  obtain prev where prev: "prev \<in> set ?is"
    "\<forall>i \<in> set ?is. snd (split_seqn (pi_seqn (data ! i))) \<le> snd (split_seqn (pi_seqn (data ! prev)))"
    "pq_missing (counted data ?is) = snd (split_seqn (pi_seqn (data ! prev))) - hd ss + 1 - of_nat (length ?is)"
    using counted_invariant [OF ne, of data] assms(4) by blast
  define m where "m = snd (split_seqn (pi_seqn (data ! prev)))"
  have m: "m \<in> set ss" "\<forall>s \<in> set ss. s \<le> m" "unat m < 2 ^ 28"
    using prev(1,2) split_seqn_less by (auto simp: m_def assms(4) seqns_def)
  have len: "length ss = length ?is" by (simp add: assms(4) seqns_def)
  have d: "distinct (map unat ss)" using assms(6) by (simp add: distinct_map inj_on_def word_unat_eq_iff)
  have card: "card ({unat (hd ss)..unat m} - unat ` set ss) = Suc (unat m) - unat (hd ss) - length ss"
    using card_missing [OF d, of "unat (hd ss)" "unat m"] assms(7) m(2) by (simp add: word_le_nat_alt)
  have "card (unat ` set ss) \<le> card {unat (hd ss)..unat m}"
    using assms(7) m(2) by (intro card_mono) (auto simp: word_le_nat_alt)
  then have le: "length ss \<le> Suc (unat m) - unat (hd ss)"
    using distinct_card [OF d] by simp
  have hd: "hd ss \<le> m" using m(2) assms(5) by simp
  have "m - hd ss + 1 - of_nat (length ss) = of_nat (Suc (unat m) - unat (hd ss) - length ss)"
    using le hd by (simp add: of_nat_diff word_le_nat_alt Suc_diff_le)
  moreover have "unat (of_nat (Suc (unat m) - unat (hd ss) - length ss) :: u64) = Suc (unat m) - unat (hd ss) - length ss"
    using m(3) by (simp only: unat_of_nat_mod) simp
  ultimately show ?thesis
    using m(1,2) prev(3) card len by (intro bexI [of _ m]) (simp_all add: eq m_def)
qed

text \<open>The missing packets of a queue are counted exactly: when the numbers received from a transmit
  queue are all different and none is smaller than the first one, the counter is the number of
  sequence numbers between the first and the largest that were not received, in whatever order
  they arrived and however the packets of other queues were interleaved.\<close>

theorem missing_counted:
  assumes "eval_packets data timestamps is ev = Some ev'" and "q < length (ev_stats ev)"
    and "ev_stats ev ! q = fresh_queue" and "ss = seqns data (filter (\<lambda>i. queue_of data i = q) is)"
    and "ss \<noteq> []" and "distinct ss" and "\<forall>s \<in> set ss. hd ss \<le> s"
  shows "\<exists>largest \<in> set ss. (\<forall>s \<in> set ss. s \<le> largest)
       \<and> unat (pq_missing (ev_stats ev' ! q)) = card ({unat (hd ss)..unat largest} - unat ` set ss)"
  using assms by (rule missing_counted_lemma)

text \<open>Packets 5, 8, 6 and 9 of queue 0 and one packet of queue 1: number 7 of queue 0 is missing.\<close>

definition example_data :: "packet_info list" where
  "example_data = map (\<lambda>s. \<lparr>pi_seqn = s, pi_received = 0, pi_enqueued_rx = 0, pi_size = 0\<rparr>)
     [5, 8, make_seqn 1 3, 6, 9]"

lemma example_splits:
  "split_seqn 5 = (0, 5)" "split_seqn 8 = (0, 8)" "split_seqn 6 = (0, 6)" "split_seqn 9 = (0, 9)"
  "split_seqn (make_seqn 1 3) = (1, 3)"
  by (simp_all add: split_seqn_def make_seqn_def)

theorem missing_counted_witness:
  "unat (pq_missing (ev_stats (the (eval_packets example_data [[(0, 0)], [(0, 0)]] [0, 1, 2, 3, 4]
     \<lparr>ev_stats = [fresh_queue, fresh_queue], ev_first = 0, ev_last = 4, ev_rtt = [], ev_p2p = []\<rparr>)) ! 0)) = 1"
proof -
  let ?ev = "\<lparr>ev_stats = [fresh_queue, fresh_queue], ev_first = 0, ev_last = 4, ev_rtt = [], ev_p2p = []\<rparr>"
  let ?ts = "[[(0, 0)], [(0, 0)]] :: (u64 \<times> u64) list list"
  have data: "map (\<lambda>i. pi_seqn (example_data ! i)) [0, 1, 2, 3, 4] = [5, 8, make_seqn 1 3, 6, 9]"
    by (simp add: example_data_def)
  have "eval_packets example_data ?ts [0, 1, 2, 3, 4] ?ev \<noteq> None"
    using data by (simp add: eval_packet_def example_splits sent_at_def Let_def del: not_None_eq)
  then obtain ev' where ev': "eval_packets example_data ?ts [0, 1, 2, 3, 4] ?ev = Some ev'" by blast
  have ss: "[5, 8, 6, 9] = seqns example_data (filter (\<lambda>i. queue_of example_data i = 0) [0, 1, 2, 3, 4])"
    using data by (simp add: seqns_def queue_of_def example_splits)
  have "{Suc 4..9} - {5, 6, 8, 9} = {7 :: nat}" by auto
  then show ?thesis
    using missing_counted [OF ev' _ _ ss] ev' by (auto simp: insert_commute)
qed

section \<open>The rate\<close>

lemma eval_packet_span:
  assumes "eval_packet data timestamps i ev = Some ev'" and "queue_of data i < length (ev_stats ev)"
  shows "ev_first ev' = (if pi_received (data ! ev_first ev) > pi_received (data ! i) then i else ev_first ev)"
    and "ev_last ev' = (if pi_received (data ! ev_last ev) < pi_received (data ! i) then i else ev_last ev)"
    and "length (ev_rtt ev') = Suc (length (ev_rtt ev))"
  using assms by (auto simp: eval_packet_def queue_of_def Let_def split: prod.splits if_splits option.splits)

lemma eval_packets_span:
  "eval_packets data timestamps is ev = Some ev' \<Longrightarrow> \<forall>i \<in> set is. queue_of data i < length (ev_stats ev) \<Longrightarrow>
     length (ev_rtt ev') = length (ev_rtt ev) + length is
   \<and> ev_first ev' \<in> insert (ev_first ev) (set is) \<and> ev_last ev' \<in> insert (ev_last ev) (set is)
   \<and> (\<forall>i \<in> insert (ev_first ev) (set is). pi_received (data ! ev_first ev') \<le> pi_received (data ! i))
   \<and> (\<forall>i \<in> insert (ev_last ev) (set is). pi_received (data ! i) \<le> pi_received (data ! ev_last ev'))"
proof (induction "is" arbitrary: ev)
  case (Cons i "is")
  obtain ev1 where ev1: "eval_packet data timestamps i ev = Some ev1" "eval_packets data timestamps is ev1 = Some ev'"
    using Cons.prems(1) by (auto split: option.splits)
  have q: "queue_of data i < length (ev_stats ev)" using Cons.prems(2) by simp
  have r: "\<forall>i \<in> set is. queue_of data i < length (ev_stats ev1)"
    using Cons.prems(2) eval_packet_stats(2) [OF ev1(1) q] by simp
  show ?case using Cons.IH [OF ev1(2) r] eval_packet_span [OF ev1(1) q] by (auto split: if_splits)
qed simp

lemma Max_at: "i \<in> set is \<Longrightarrow> \<forall>j \<in> set is. f j \<le> f i \<Longrightarrow> Max (f ` set is) = (f i :: nat)"
  and Min_at: "i \<in> set is \<Longrightarrow> \<forall>j \<in> set is. f i \<le> f j \<Longrightarrow> Min (f ` set is) = (f i :: nat)"
  by (rule Max_eqI; auto) (rule Min_eqI; auto)

lemma rate_spans_lemma:
  assumes "stats_process st timestamps = Some (reports, Some (ns, pps))"
    and "n = min (st_next_slot st) (st_size st)" and "3 \<le> n"
    and "\<forall>i < n. queue_of (st_memory st) i < unat (st_txq_n st)"
    and "st_next_slot st * 1000000000 < 2 ^ 64"
  shows "unat ns = Max ((\<lambda>i. unat (pi_received (st_memory st ! i))) ` {..<n})
                   - Min ((\<lambda>i. unat (pi_received (st_memory st ! i))) ` {..<n})
       \<and> 0 < unat ns \<and> unat pps = st_next_slot st * 1000000000 div unat ns"
proof -
  let ?data = "st_memory st" let ?t = "\<lambda>i. unat (pi_received (st_memory st ! i))"
  let ?ev = "\<lparr>ev_stats = replicate (unat (st_txq_n st)) fresh_queue, ev_first = 0, ev_last = n - 1, ev_rtt = [], ev_p2p = []\<rparr>"
  have set: "{..<n} = set [0..<n]" by auto
  obtain ev where ev: "eval_packets ?data timestamps [0..<n] ?ev = Some ev"
    and rate: "packet_rate ?data (of_nat (st_next_slot st)) (ev_first ev) (ev_last ev) = Some (ns, pps)"
    using assms(1,3) unfolding stats_process_def Let_def assms(2) [symmetric]
    by (auto split: option.splits)
  have valid: "\<forall>i \<in> set [0..<n]. queue_of ?data i < length (ev_stats ?ev)" using assms(4) by simp
  have span: "ev_first ev \<in> insert 0 (set [0..<n])" "ev_last ev \<in> insert (n - 1) (set [0..<n])"
    "\<forall>i \<in> set [0..<n]. pi_received (?data ! ev_first ev) \<le> pi_received (?data ! i)"
    "\<forall>i \<in> set [0..<n]. pi_received (?data ! i) \<le> pi_received (?data ! ev_last ev)"
    using eval_packets_span [OF ev valid] by simp_all
  have ends: "ev_first ev \<in> set [0..<n]" "ev_last ev \<in> set [0..<n]" using span(1,2) assms(3) by auto
  have le: "\<forall>i \<in> set [0..<n]. ?t (ev_first ev) \<le> ?t i" "\<forall>i \<in> set [0..<n]. ?t i \<le> ?t (ev_last ev)"
    using span(3,4) by (auto simp: word_le_nat_alt)
  have ns: "ns = pi_received (?data ! ev_last ev) - pi_received (?data ! ev_first ev)" "ns \<noteq> 0"
    "pps = of_nat (st_next_slot st) * 1000000000 div ns"
    using rate by (auto simp: packet_rate_def Let_def split: if_splits)
  have "unat ns = ?t (ev_last ev) - ?t (ev_first ev)"
    unfolding ns(1) using le(1) ends(2) by (intro unat_sub) (auto simp: word_le_nat_alt)
  moreover have "unat (of_nat (st_next_slot st) * 1000000000 :: u64) = st_next_slot st * 1000000000"
    using assms(5) by (simp add: unat_word_ariths unat_of_nat_mod)
  then have "unat pps = st_next_slot st * 1000000000 div unat ns" unfolding ns(3) by (simp add: unat_div)
  moreover have "0 < unat ns" using ns(2) by (simp add: unat_gt_0)
  ultimately show ?thesis
    unfolding set Max_at [of _ _ ?t, OF ends(2) le(2)] Min_at [of _ _ ?t, OF ends(1) le(1)] by simp
qed

text \<open>C20: the reported rate is the number of received packets over the reported duration. When three or more packets were
  recorded the duration is the time between the earliest and the latest of them, in whatever order they were recorded; of
  exactly two it is the second time minus the first, modulo \<open>2^64\<close>. The packets are of transmit queues that
  exist, and the product of the rate fits into 64 bits.\<close>

theorem rate_spans_packets:
  assumes "stats_process st timestamps = Some (reports, Some (ns, pps))"
    and "n = min (st_next_slot st) (st_size st)"
    and "\<forall>i < n. queue_of (st_memory st) i < unat (st_txq_n st)"
    and "st_next_slot st * 1000000000 < 2 ^ 64"
  shows "2 \<le> n \<and> 0 < unat ns \<and> unat pps = st_next_slot st * 1000000000 div unat ns
       \<and> (if n = 2 then ns = pi_received (st_memory st ! 1) - pi_received (st_memory st ! 0)
          else unat ns = Max ((\<lambda>i. unat (pi_received (st_memory st ! i))) ` {..<n})
                       - Min ((\<lambda>i. unat (pi_received (st_memory st ! i))) ` {..<n}))"
proof -
  have n: "2 \<le> n" using assms(1) by (auto simp: stats_process_def Let_def assms(2) split: if_splits)
  show ?thesis
  proof (cases "n = 2")
    case True
    then have "packet_rate (st_memory st) (of_nat (st_next_slot st)) 0 1 = Some (ns, pps)"
      using assms(1) unfolding stats_process_def Let_def assms(2) [symmetric] by simp
    then have r: "ns = pi_received (st_memory st ! 1) - pi_received (st_memory st ! 0)" "ns \<noteq> 0"
      "pps = of_nat (st_next_slot st) * 1000000000 div ns"
      by (auto simp: packet_rate_def Let_def split: if_splits)
    moreover have "unat (of_nat (st_next_slot st) * 1000000000 :: u64) = st_next_slot st * 1000000000"
      using assms(4) by (simp add: unat_word_ariths unat_of_nat_mod)
    then have "unat pps = st_next_slot st * 1000000000 div unat ns" unfolding r(3) by (simp add: unat_div)
    ultimately show ?thesis using True by (simp add: unat_gt_0)
  next
    case False
    with n have "3 \<le> n" by simp
    from rate_spans_lemma [OF assms(1,2) this assms(3,4)] False n show ?thesis unfolding if_not_P [OF False] by blast
  qed
qed

text \<open>Three packets of one queue, received at 30, 10 and 50 nanoseconds.\<close>

definition example_times :: statistics where
  "example_times = \<lparr>st_txq_n = 1, st_next_slot = 3, st_size = 3,
     st_memory = map (\<lambda>(s, t). \<lparr>pi_seqn = s, pi_received = t, pi_enqueued_rx = t, pi_size = 0\<rparr>) [(5, 30), (6, 10), (8, 50)]\<rparr>"

lemma example_times_data:
  "split_seqn (pi_seqn (st_memory example_times ! 0)) = (0, 5)" "split_seqn (pi_seqn (st_memory example_times ! Suc 0)) = (0, 6)"
  "split_seqn (pi_seqn (st_memory example_times ! 2)) = (0, 8)"
  "pi_received (st_memory example_times ! 0) = 30" "pi_received (st_memory example_times ! Suc 0) = 10"
  "pi_received (st_memory example_times ! 2) = 50"
  "st_txq_n example_times = 1" "st_next_slot example_times = 3" "st_size example_times = 3"
  by (simp_all add: example_times_def example_splits)

lemma example_times_queues: "\<forall>i < 3. queue_of (st_memory example_times) i = 0"
  by (auto simp: queue_of_def example_times_data [unfolded numeral_2_eq_2] less_Suc_eq numeral_3_eq_3)

lemma example_times_evaluated: "\<exists>reports ns pps. stats_process example_times [[(0, 0)]] = Some (reports, Some (ns, pps))"
proof -
  have "[0..<3] = [0, Suc 0, 2]" by (simp add: upt_rec)
  then show ?thesis
    by (simp add: stats_process_def eval_packet_def example_times_data sent_at_def count_packet_def fresh_queue_def
        queue_report_def packet_rate_def Let_def)
qed

theorem rate_spans_packets_witness:
  "\<exists>reports ns pps. stats_process example_times [[(0, 0)]] = Some (reports, Some (ns, pps)) \<and> unat ns = 40 \<and> unat pps = 75000000"
proof -
  obtain reports ns pps where p: "stats_process example_times [[(0, 0)]] = Some (reports, Some (ns, pps))"
    using example_times_evaluated by blast
  have three: "{..<3} = {0, Suc 0, 2}" by auto
  from rate_spans_packets [OF p, of 3] have "unat ns = 40 \<and> unat pps = 75000000"
    using example_times_queues by (simp add: three example_times_data)
  with p show ?thesis by blast
qed

section \<open>Accesses outside the vectors\<close>

text \<open>The check for an unexpected transmit queue is off by one: a received packet that names the
  first queue number behind the last one passes it, and the counters are read outside the vector.\<close>

theorem eval_packet_off_by_one:
  assumes "queue_of data i = length (ev_stats ev)"
  shows "eval_packet data timestamps i ev = None"
  using assms by (cases "split_seqn (pi_seqn (data ! i))") (simp add: eval_packet_def queue_of_def Let_def)

theorem eval_packet_off_by_one_witness:
  "eval_packet example_data [[(0, 0)], [(0, 0)]] 2 \<lparr>ev_stats = [fresh_queue], ev_first = 0, ev_last = 4, ev_rtt = [], ev_p2p = []\<rparr> = None"
  using eval_packet_off_by_one [of example_data 2 "\<lparr>ev_stats = [fresh_queue], ev_first = 0, ev_last = 4, ev_rtt = [], ev_p2p = []\<rparr>"]
  by (simp add: queue_of_def example_data_def example_splits)

text \<open>When nothing was received from one of the transmit queues, the report reads the packet memory
  at index \<open>2^64 - 1\<close>.\<close>

theorem queue_reports_silent_queue:
  assumes "\<exists>q \<in> set qs. pq_prev q = None"
  shows "queue_reports data qs = None"
  using assms by (induction qs) (auto simp: queue_report_def split: option.splits)

theorem queue_reports_silent_queue_witness: "queue_reports example_data [fresh_queue] = None"
  using queue_reports_silent_queue [of "[fresh_queue]" example_data] by (simp add: fresh_queue_def)

end
