(* ===== verification/Sockperf_Histogram.thy ===== *)
theory Sockperf_Histogram
  imports Sockperf_Stats
begin

text \<open>
  The histograms of \<open>statistics::process\<close> (\<open>sockperf_cli/stats.cpp\<close>, lines 46-152): the edges from the option
  \<open>buckets\<close> or by default, one histogram for intervals between packets and one for round trips, and what is
  entered into them. Boost.Histogram with the axes of \<open>utils/histogram\<close> is the parameter \<open>hist_api\<close>; the
  conversion of a number to \<open>double\<close> is the parameter \<open>dbl\<close>. A sample is a signed number of nanoseconds.
\<close>

section \<open>Buckets\<close>

text \<open>The value of an option keeps the type it was stored with; \<open>as\<close> throws for every other type.\<close>

datatype duration_list = Nanoseconds_list "int list" | Microseconds_list "int list"

datatype histogram_error = Bad_any_cast | Axis_error

definition as_nanoseconds :: "duration_list \<Rightarrow> histogram_error + int list" where
  "as_nanoseconds v = (case v of Nanoseconds_list xs \<Rightarrow> Inr xs | Microseconds_list xs \<Rightarrow> Inl Bad_any_cast)"

definition as_microseconds :: "duration_list \<Rightarrow> histogram_error + int list" where
  "as_microseconds v = (case v of Nanoseconds_list xs \<Rightarrow> Inl Bad_any_cast | Microseconds_list xs \<Rightarrow> Inr xs)"

definition default_buckets :: "int list" where
  "default_buckets = [-100, -10, -5, 0, 1, 2, 3, 4, 5, 6, 7, 8, 9, 10, 11, 12, 13, 15, 20, 25, 30, 35, 40, 45, 50, 55,
     60, 65, 70, 75, 80, 85, 90, 95, 100, 150, 200, 250, 300, 500, 500, 700, 800, 900, 1000, 1250, 1500]"

text \<open>The elements of a \<open>std::set<double>\<close>.\<close>

definition edges :: "(int \<Rightarrow> 'd::linorder) \<Rightarrow> int list \<Rightarrow> 'd list" where
  "edges dbl xs = sort (remdups (map dbl xs))"

text \<open>\<open>make_hist\<close> is \<open>None\<close> when the axis throws.\<close>

record ('d, 'h) hist_api =
  make_hist_ns :: "'d list \<Rightarrow> 'h option"
  make_hist_us :: "'d list \<Rightarrow> 'h option"
  enter :: "'h \<Rightarrow> int \<Rightarrow> 'h"

definition buckets_p2p :: "(int \<Rightarrow> 'd::linorder) \<Rightarrow> duration_list option \<Rightarrow> histogram_error + 'd list" where
  "buckets_p2p dbl config =
     (case config of
        None \<Rightarrow> Inr (edges dbl default_buckets)
      | Some v \<Rightarrow> (case as_nanoseconds v of Inl e \<Rightarrow> Inl e | Inr xs \<Rightarrow> Inr (edges dbl xs)))"

definition buckets_rtt :: "(int \<Rightarrow> 'd::linorder) \<Rightarrow> duration_list option \<Rightarrow> histogram_error + 'd list" where
  "buckets_rtt dbl config =
     (case config of
        None \<Rightarrow> Inr (edges dbl default_buckets)
      | Some v \<Rightarrow> (case as_microseconds v of Inl e \<Rightarrow> Inl e | Inr xs \<Rightarrow> Inr (edges dbl xs)))"

definition make_histogram :: "('d list \<Rightarrow> 'h option) \<Rightarrow> histogram_error + 'd list \<Rightarrow> histogram_error + 'h" where
  "make_histogram mk es =
     (case es of Inl e \<Rightarrow> Inl e | Inr xs \<Rightarrow> (case mk xs of None \<Rightarrow> Inl Axis_error | Some h \<Rightarrow> Inr h))"

definition make_histograms ::
  "('d::linorder, 'h) hist_api \<Rightarrow> (int \<Rightarrow> 'd) \<Rightarrow> duration_list option \<Rightarrow> histogram_error + 'h \<times> 'h" where
  "make_histograms api dbl config =
     (case make_histogram (make_hist_ns api) (buckets_p2p dbl config) of
        Inl e \<Rightarrow> Inl e
      | Inr p2p \<Rightarrow>
          (case make_histogram (make_hist_us api) (buckets_rtt dbl config) of
             Inl e \<Rightarrow> Inl e
           | Inr rtt \<Rightarrow> Inr (p2p, rtt)))"

section \<open>The evaluation with histograms\<close>

definition enter_all :: "('d, 'h) hist_api \<Rightarrow> u64 list \<Rightarrow> 'h \<Rightarrow> 'h" where
  "enter_all api xs h = fold (\<lambda>x h. enter api h (sint x)) xs h"

text \<open>The whole of \<open>process\<close>; with fewer than three packets there are no histograms.\<close>

definition process_detailed ::
  "('d::linorder, 'h) hist_api \<Rightarrow> (int \<Rightarrow> 'd) \<Rightarrow> duration_list option \<Rightarrow> statistics \<Rightarrow> (u64 \<times> u64) list list \<Rightarrow>
     (histogram_error + ('h \<times> 'h) option \<times> (u64 \<times> u64 \<times> u64) list \<times> (u64 \<times> u64) option) option" where
  "process_detailed api dbl config st timestamps =
     (let data = st_memory st; received_packets = st_next_slot st;
          collected = min received_packets (st_size st)
      in if collected < 2 then Some (Inr (None, [], None))
         else if collected = 2 then Some (Inr (None, [], packet_rate data (of_nat received_packets) 0 1))
         else case make_histograms api dbl config of
           Inl e \<Rightarrow> Some (Inl e)
         | Inr (p2p, rtt) \<Rightarrow>
             (case eval_packets data timestamps [0..<collected]
                     \<lparr>ev_stats = replicate (unat (st_txq_n st)) fresh_queue, ev_first = 0, ev_last = collected - 1,
                      ev_rtt = [], ev_p2p = []\<rparr> of
                None \<Rightarrow> None
              | Some ev \<Rightarrow>
                  (case queue_reports data (ev_stats ev) of
                     None \<Rightarrow> None
                   | Some reports \<Rightarrow>
                       Some (Inr (Some (enter_all api (ev_p2p ev) p2p, enter_all api (ev_rtt ev) rtt), reports,
                         packet_rate data (of_nat received_packets) (ev_first ev) (ev_last ev))))))"

section \<open>The samples\<close>

text \<open>Queues from which a packet was counted.\<close>

definition heard :: "per_queue list \<Rightarrow> nat set" where
  "heard qs = {q. q < length qs \<and> pq_prev (qs ! q) \<noteq> None}"

lemma finite_heard [simp]: "finite (heard qs)"
  by (simp add: heard_def)

lemma count_packet_prev: "pq_prev (count_packet data i q) \<noteq> None"
  by (auto simp: count_packet_def Let_def split: option.splits)

lemma heard_update:
  "q < length qs \<Longrightarrow> pq_prev x \<noteq> None \<Longrightarrow> heard (qs[q := x]) = insert q (heard qs)"
  by (auto simp: heard_def nth_list_update)

lemma eval_packet_samples:
  assumes "eval_packet data timestamps i ev = Some ev'" and "queue_of data i < length (ev_stats ev)"
  shows "heard (ev_stats ev') = insert (queue_of data i) (heard (ev_stats ev))"
    and "length (ev_p2p ev') + card (heard (ev_stats ev')) = Suc (length (ev_p2p ev) + card (heard (ev_stats ev)))"
proof -
  let ?q = "queue_of data i"
  have ev': "ev_stats ev' = (ev_stats ev)[?q := count_packet data i (ev_stats ev ! ?q)]"
    "length (ev_p2p ev') = length (ev_p2p ev) + (if pq_prev (ev_stats ev ! ?q) = None then 0 else 1)"
    using assms by (auto simp: eval_packet_def queue_of_def Let_def split: prod.splits if_splits option.splits)
  show h: "heard (ev_stats ev') = insert ?q (heard (ev_stats ev))"
    unfolding ev'(1) by (rule heard_update [OF assms(2) count_packet_prev])
  show "length (ev_p2p ev') + card (heard (ev_stats ev')) = Suc (length (ev_p2p ev) + card (heard (ev_stats ev)))"
    unfolding h ev'(2) using assms(2) by (simp add: card_insert_if) (simp add: heard_def)
qed

lemma eval_packets_samples:
  "eval_packets data timestamps is ev = Some ev' \<Longrightarrow> \<forall>i \<in> set is. queue_of data i < length (ev_stats ev) \<Longrightarrow>
     heard (ev_stats ev') = heard (ev_stats ev) \<union> queue_of data ` set is
   \<and> length (ev_p2p ev') + card (heard (ev_stats ev')) = length (ev_p2p ev) + card (heard (ev_stats ev)) + length is"
proof (induction "is" arbitrary: ev)
  case (Cons i "is")
  obtain ev1 where ev1: "eval_packet data timestamps i ev = Some ev1" "eval_packets data timestamps is ev1 = Some ev'"
    using Cons.prems(1) by (auto split: option.splits)
  have q: "queue_of data i < length (ev_stats ev)" using Cons.prems(2) by simp
  have r: "\<forall>i \<in> set is. queue_of data i < length (ev_stats ev1)"
    using Cons.prems(2) eval_packet_stats(2) [OF ev1(1) q] by simp
  show ?case using Cons.IH [OF ev1(2) r] eval_packet_samples [OF ev1(1) q] by auto
qed simp

section \<open>Properties\<close>

text \<open>The axis accepts two or more edges in ascending order and throws otherwise; a histogram counts what is
  entered, and a new one is empty.\<close>

definition hist_ok :: "('d::linorder, 'h) hist_api \<Rightarrow> ('h \<Rightarrow> nat) \<Rightarrow> bool" where
  "hist_ok api entries \<longleftrightarrow>
     (\<forall>mk \<in> {make_hist_ns api, make_hist_us api}. \<forall>es.
        (sorted es \<and> distinct es \<and> 2 \<le> length es \<longrightarrow> mk es \<noteq> None) \<and> (\<forall>h. mk es = Some h \<longrightarrow> entries h = 0))
   \<and> (\<forall>h x. entries (enter api h x) = Suc (entries h))"

lemma hist_okD:
  assumes "hist_ok api entries"
  shows "make_hist_ns api es = Some h \<Longrightarrow> entries h = 0" "make_hist_us api es = Some h \<Longrightarrow> entries h = 0"
    "entries (enter api h x) = Suc (entries h)"
    "sorted es \<Longrightarrow> distinct es \<Longrightarrow> 2 \<le> length es \<Longrightarrow> make_hist_ns api es \<noteq> None \<and> make_hist_us api es \<noteq> None"
  using assms by (simp_all add: hist_ok_def)

lemma enter_all_entries: "hist_ok api entries \<Longrightarrow> entries (enter_all api xs h) = entries h + length xs"
  unfolding enter_all_def by (induction xs arbitrary: h) (simp_all add: hist_okD(3))

lemma edges_ascending [simp]: "sorted (edges dbl xs)" "distinct (edges dbl xs)"
  by (simp_all add: edges_def)

lemma two_edges:
  assumes "x \<in> set xs" and "y \<in> set xs" and "dbl x \<noteq> dbl y"
  shows "2 \<le> length (edges dbl xs)"
proof -
  have "{dbl x, dbl y} \<subseteq> dbl ` set xs" using assms(1,2) by blast
  then have "card {dbl x, dbl y} \<le> card (dbl ` set xs)" by (rule card_mono [rotated]) simp
  moreover have "length (edges dbl xs) = card (dbl ` set xs)" by (simp add: edges_def length_remdups_card_conv)
  ultimately show ?thesis using assms(3) by simp
qed

text \<open>Without the option both histograms exist, and they are empty.\<close>

lemma make_histograms_default:
  assumes "hist_ok api entries" and "dbl 0 \<noteq> dbl 1"
  shows "\<exists>p2p rtt. make_histograms api dbl None = Inr (p2p, rtt) \<and> entries p2p = 0 \<and> entries rtt = 0"
proof -
  have two: "2 \<le> length (edges dbl default_buckets)"
    by (rule two_edges [OF _ _ assms(2)]) (simp_all add: default_buckets_def)
  from hist_okD(4) [OF assms(1) edges_ascending two] obtain p2p rtt
    where "make_hist_ns api (edges dbl default_buckets) = Some p2p" "make_hist_us api (edges dbl default_buckets) = Some rtt"
    by auto
  then show ?thesis
    using hist_okD(1,2) [OF assms(1)] by (simp add: make_histograms_def make_histogram_def buckets_p2p_def buckets_rtt_def)
qed

lemma histogram_samples_lemma:
  assumes "hist_ok api entries" and "dbl 0 \<noteq> dbl 1" and "n = min (st_next_slot st) (st_size st)" and "3 \<le> n"
    and "\<forall>i < n. queue_of (st_memory st) i < unat (st_txq_n st)"
  shows "case process_detailed api dbl None st timestamps of
      None \<Rightarrow> stats_process st timestamps = None
    | Some (Inl e) \<Rightarrow> False
    | Some (Inr (hs, reports, rate)) \<Rightarrow>
        stats_process st timestamps = Some (reports, rate)
      \<and> (\<exists>p2p rtt. hs = Some (p2p, rtt) \<and> entries rtt = n
           \<and> entries p2p = n - card (queue_of (st_memory st) ` {..<n}))"
proof -
  let ?data = "st_memory st"
  let ?ev = "\<lparr>ev_stats = replicate (unat (st_txq_n st)) fresh_queue, ev_first = 0, ev_last = n - 1, ev_rtt = [], ev_p2p = []\<rparr>"
  obtain p2p rtt where h: "make_histograms api dbl None = Inr (p2p, rtt)" "entries p2p = 0" "entries rtt = 0"
    using make_histograms_default [OF assms(1,2)] by blast
  have n: "\<not> n < 2" "n \<noteq> 2" using assms(4) by simp_all
  show ?thesis
  proof (cases "eval_packets ?data timestamps [0..<n] ?ev")
    case None
    then show ?thesis
      using n h(1) unfolding process_detailed_def stats_process_def Let_def assms(3) [symmetric] by simp
  next
    case (Some ev)
    have valid: "\<forall>i \<in> set [0..<n]. queue_of ?data i < length (ev_stats ?ev)" using assms(5) by simp
    have none: "heard (ev_stats ?ev) = {}" by (auto simp: heard_def fresh_queue_def)
    have "length (ev_rtt ev) = n" using eval_packets_span [OF Some valid] by simp
    moreover have "length (ev_p2p ev) = n - card (queue_of ?data ` {..<n})"
      using eval_packets_samples [OF Some valid] none by (auto simp: atLeast0LessThan)
    ultimately show ?thesis
      using n h Some enter_all_entries [OF assms(1)]
      unfolding process_detailed_def stats_process_def Let_def assms(3) [symmetric] by (auto split: option.splits)
  qed
qed

text \<open>C13: the histograms account for every packet. Without the option \<open>buckets\<close> the evaluation throws nothing,
  and its reports are those of the evaluation without histograms. When three or more packets were recorded, all of
  transmit queues that exist, one round trip is entered per recorded packet, and one interval per recorded packet except the first
  of each transmit queue; of fewer packets no histogram is made.\<close>

theorem histogram_samples:
  assumes "hist_ok api entries" and "dbl 0 \<noteq> dbl 1" and "n = min (st_next_slot st) (st_size st)"
    and "\<forall>i < n. queue_of (st_memory st) i < unat (st_txq_n st)"
  shows "case process_detailed api dbl None st timestamps of
      None \<Rightarrow> stats_process st timestamps = None
    | Some (Inl e) \<Rightarrow> False
    | Some (Inr (hs, reports, rate)) \<Rightarrow>
        stats_process st timestamps = Some (reports, rate)
      \<and> (if 3 \<le> n
         then (\<exists>p2p rtt. hs = Some (p2p, rtt) \<and> entries rtt = n \<and> entries p2p = n - card (queue_of (st_memory st) ` {..<n}))
         else hs = None)"
proof (cases "3 \<le> n")
  case True
  from histogram_samples_lemma [OF assms(1-3) True assms(4), of timestamps] show ?thesis unfolding if_P [OF True] .
next
  case False
  then have "n < 2 \<or> n = 2" by linarith
  then show ?thesis using False unfolding process_detailed_def stats_process_def Let_def assms(3) [symmetric] by auto
qed

text \<open>An environment that only counts, and three packets of one queue: three round trips, two intervals.\<close>

definition counting_hist :: "(int, nat) hist_api" where
  "counting_hist = \<lparr>make_hist_ns = (\<lambda>es. if length es < 2 then None else Some 0),
     make_hist_us = (\<lambda>es. if length es < 2 then None else Some 0), enter = (\<lambda>h x. Suc h)\<rparr>"

lemma counting_hist_ok: "hist_ok counting_hist (\<lambda>h. h)"
  by (simp add: hist_ok_def counting_hist_def)

theorem histogram_samples_witness:
  "\<exists>reports rate. process_detailed counting_hist id None example_times [[(0, 0)]] = Some (Inr (Some (2, 3), reports, rate))"
proof -
  let ?m = "st_memory example_times"
  have "case process_detailed counting_hist id None example_times [[(0, 0)]] of
      None \<Rightarrow> stats_process example_times [[(0, 0)]] = None
    | Some (Inl e) \<Rightarrow> False
    | Some (Inr (hs, reports, rate)) \<Rightarrow>
        stats_process example_times [[(0, 0)]] = Some (reports, rate)
      \<and> (if 3 \<le> (3 :: nat)
         then (\<exists>p2p rtt. hs = Some (p2p, rtt) \<and> rtt = 3 \<and> p2p = 3 - card (queue_of ?m ` {..<3})) else hs = None)"
    using example_times_queues by (intro histogram_samples [OF counting_hist_ok]) (simp_all add: example_times_data)
  moreover have "queue_of ?m ` {..<3} = {0}" using example_times_queues by (auto simp: image_iff intro!: exI [of _ 0])
  moreover note example_times_evaluated
  ultimately show ?thesis by (auto split: option.splits sum.splits prod.splits)
qed

text \<open>The option \<open>buckets\<close> cannot be used. Its value is read once as a list of nanoseconds and once as a
  list of microseconds, and one of the two throws whatever was given: with three or more packets recorded the
  evaluation ends with an exception and reports nothing.\<close>

theorem buckets_option_throws:
  assumes "3 \<le> min (st_next_slot st) (st_size st)"
  shows "\<exists>e. process_detailed api dbl (Some v) st timestamps = Some (Inl e)"
proof -
  have "\<exists>e. make_histograms api dbl (Some v) = Inl e"
    by (cases v) (auto simp: make_histograms_def make_histogram_def buckets_p2p_def buckets_rtt_def as_nanoseconds_def
        as_microseconds_def split: option.splits)
  then show ?thesis using assms by (auto simp: process_detailed_def Let_def)
qed

theorem buckets_option_throws_witness:
  "\<exists>e. process_detailed counting_hist id (Some (Nanoseconds_list [0, 10, 20])) example_times [[(0, 0)]] = Some (Inl e)"
  by (rule buckets_option_throws) (simp add: example_times_def)

end
