(* ===== verification/Sockperf_Channel.thy ===== *)
theory Sockperf_Channel
  imports Sockperf_Stats Mbuf Jobs
begin

text \<open>
  The two ends of the benchmark in \<open>sockperf_cli/utils.{hpp,cpp}\<close>: the receive channel that records
  packets (\<open>sockperf_channel::enqueue\<close>) and the sender that prepares packets and keeps the unsent
  ones after a partial burst (\<open>tx_job\<close>), together with the base class \<open>rx_channel\<close> of
  \<open>dpdkx/rx_channel.cpp\<close>. Time stamps in mbufs and checksum functions are parameters. \<open>None\<close> stands
  for an access outside an array or a division by zero.
\<close>

section \<open>Receiving\<close>

record message_info =
  mi_seqn :: u64
  mi_received_ts :: u64
  mi_enqueued_ts :: u64

record sockperf_channel =
  ch_packets2send :: nat
  ch_stats :: statistics
  ch_last_warmup :: "message_info option"
  ch_stop :: bool

definition make_sockperf_channel :: "packet_info list \<Rightarrow> nat \<Rightarrow> nat \<Rightarrow> bool \<Rightarrow> sockperf_channel" where
  "make_sockperf_channel memory packets2send ntx detailed_stats =
     (let total = packets2send * ntx
      in \<lparr>ch_packets2send = total,
          ch_stats = make_statistics memory (if detailed_stats \<and> total \<noteq> 0 then total else 2) (of_nat ntx),
          ch_last_warmup = None, ch_stop = False\<rparr>)"

text \<open>The memory behind a pointer into a buffer.\<close>

definition from_offset :: "memory \<Rightarrow> nat \<Rightarrow> memory" where
  "from_offset m off = (\<lambda>i. m (off + i))"

definition msg_header_size :: "rte_mbuf \<Rightarrow> nat" where
  "msg_header_size b = unat (l2_len b) + unat (l3_len b) + unat (l4_len b)"

text \<open>\<open>ts b\<close> is the hardware time stamp of a buffer, if it has one.\<close>

definition enqueue_message ::
  "(rte_mbuf \<Rightarrow> u64 option) \<Rightarrow> u64 \<Rightarrow> u64 \<Rightarrow> rte_mbuf \<Rightarrow> sockperf_channel \<Rightarrow> sockperf_channel option" where
  "enqueue_message ts clock_hz enqueued b c =
     (let off = msg_header_size b; payload = from_offset (mem b) off
      in if unat (data_len b) < off + header_size then Some c
         else if message_type payload = type_Ping \<or> message_type payload = type_Pong then
           (let s = seqn payload
            in if is_warmup s then
                 Some (c\<lparr>ch_last_warmup := Some \<lparr>mi_seqn = s,
                          mi_received_ts = (case ts b of Some t \<Rightarrow> t | None \<Rightarrow> enqueued), mi_enqueued_ts = enqueued\<rparr>\<rparr>)
               else if st_next_slot (ch_stats c) = ch_packets2send c then Some (c\<lparr>ch_stop := True\<rparr>)
               else case (case ts b of Some t \<Rightarrow> timestamp_fix clock_hz t | None \<Rightarrow> Some enqueued) of
                 None \<Rightarrow> None
               | Some received \<Rightarrow>
                   (case stats_slot (ch_stats c) of
                      None \<Rightarrow> None
                    | Some (i, st) \<Rightarrow>
                        if length (st_memory st) \<le> i then None
                        else Some (c\<lparr>ch_stats := st\<lparr>st_memory := (st_memory st)[i :=
                               \<lparr>pi_seqn = s, pi_received = received, pi_enqueued_rx = enqueued, pi_size = data_len b\<rparr>]\<rparr>\<rparr>)))
         else Some c)"

fun enqueue_messages ::
  "(rte_mbuf \<Rightarrow> u64 option) \<Rightarrow> u64 \<Rightarrow> u64 \<Rightarrow> rte_mbuf list \<Rightarrow> sockperf_channel \<Rightarrow> sockperf_channel option" where
  "enqueue_messages ts clock_hz enqueued [] c = Some c"
| "enqueue_messages ts clock_hz enqueued (b # bs) c =
     (case enqueue_message ts clock_hz enqueued b c of
        None \<Rightarrow> None
      | Some c \<Rightarrow> enqueue_messages ts clock_hz enqueued bs c)"

text \<open>The result of \<open>enqueue\<close> is the number of buffers the caller has to recycle; the second component
  lists the buffers the channel freed itself.\<close>

definition sockperf_enqueue ::
  "(rte_mbuf \<Rightarrow> u64 option) \<Rightarrow> u64 \<Rightarrow> u64 \<Rightarrow> rte_mbuf list \<Rightarrow> sockperf_channel \<Rightarrow>
     (nat \<times> rte_mbuf list \<times> sockperf_channel) option" where
  "sockperf_enqueue ts clock_hz enqueued bs c =
     map_option (\<lambda>c. (0, bs, c)) (enqueue_messages ts clock_hz enqueued bs c)"

definition rx_channel_enqueue :: "rte_mbuf list \<Rightarrow> 'c \<Rightarrow> (nat \<times> rte_mbuf list \<times> 'c) option" where
  "rx_channel_enqueue bs c = Some (length bs, [], c)"

section \<open>Sending\<close>

definition packet_size :: "nat \<Rightarrow> nat" where
  "packet_size n = 14 + 20 + 8 + n"

definition prepare_packet_headers :: "u64 \<Rightarrow> u64 \<Rightarrow> rte_mbuf \<Rightarrow> rte_mbuf" where
  "prepare_packet_headers flags n b =
     (let b = b\<lparr>l2_len := 14, l3_len := 20, l4_len := 8\<rparr>;
          size = ucast (l2_len b) + ucast (l3_len b) + ucast (l4_len b) + n
      in b\<lparr>pkt_len := ucast size, data_len := ucast (ucast size :: u32), ol_flags := flags\<rparr>)"

text \<open>Writing through a pointer into a buffer.\<close>

definition at_offset :: "nat \<Rightarrow> (memory \<Rightarrow> memory) \<Rightarrow> memory \<Rightarrow> memory" where
  "at_offset off f m = (\<lambda>i. if i < off then m i else f (from_offset m off) (i - off))"

text \<open>\<open>phdr_cksum\<close> and \<open>udp_cksum\<close> are the two checksum functions of DPDK on the packet at hand,
  \<open>udp_flag\<close> is \<open>RTE_MBUF_F_TX_UDP_CKSUM\<close>.\<close>

definition prepare_packet ::
  "u64 \<Rightarrow> (memory \<Rightarrow> u16) \<Rightarrow> (memory \<Rightarrow> u16) \<Rightarrow> u64 \<Rightarrow> u16 \<Rightarrow> u64 \<Rightarrow> u64 \<Rightarrow> rte_mbuf \<Rightarrow> rte_mbuf" where
  "prepare_packet udp_flag phdr_cksum udp_cksum s t flags n b =
     (let b = prepare_packet_headers flags n b;
          m = at_offset (msg_header_size b) (set_message_type t \<circ> set_seqn s) (mem b);
          udphdr = unat (l2_len b) + unat (l3_len b);
          m = stw m (udphdr + 6) (0 :: u16);
          m = stw m (udphdr + 6) (if ol_flags b AND udp_flag = udp_flag then phdr_cksum m else udp_cksum m)
      in b\<lparr>mem := m\<rparr>)"

text \<open>The loop of lines 275-277: positions \<open>sent - 1\<close> down to 0 take the buffer \<open>burst - sent\<close>
  further up.\<close>

fun compact :: "nat \<Rightarrow> nat \<Rightarrow> 'a list \<Rightarrow> 'a list" where
  "compact offset 0 arr = arr"
| "compact offset (Suc p) arr = compact offset p (arr[p := arr ! (p + offset)])"

text \<open>Lines 272-278, after \<open>sent\<close> buffers of a full array were accepted: the new offset and the array.\<close>

definition after_send :: "nat \<Rightarrow> 'a list \<Rightarrow> nat \<times> 'a list" where
  "after_send sent arr =
     (let offset = length arr - sent
      in (offset, if offset \<noteq> 0 then compact offset sent arr else arr))"

section \<open>Compaction\<close>

lemma length_compact [simp]: "length (compact offset p arr) = length arr"
  by (induction offset p arr rule: compact.induct) auto

lemma compact_window:
  "0 < offset \<Longrightarrow> p + offset \<le> length arr \<Longrightarrow>
     mset (take offset (compact offset p arr)) = mset (take offset (drop p arr))"
proof (induction offset p arr rule: compact.induct)
  case (2 offset p arr)
  let ?arr = "arr[p := arr ! (p + offset)]"
  have p: "p < length arr" "p + offset < length arr" using "2.prems" by simp_all
  obtain o' where o: "offset = Suc o'" using "2.prems"(1) by (cases offset) auto
  have "drop p ?arr = arr ! (p + offset) # drop (Suc p) arr"
    using p(1) by (simp add: drop_update_cancel Cons_nth_drop_Suc [symmetric])
  then have "mset (take offset (drop p ?arr)) = add_mset (arr ! (p + offset)) (mset (take o' (drop (Suc p) arr)))"
    by (simp add: o)
  also have "take offset (drop (Suc p) arr) = take o' (drop (Suc p) arr) @ [arr ! (p + offset)]"
    using p(2) unfolding o by (subst take_Suc_conv_app_nth) simp_all
  then have "add_mset (arr ! (p + offset)) (mset (take o' (drop (Suc p) arr))) = mset (take offset (drop (Suc p) arr))"
    by simp
  finally have w: "mset (take offset (drop p ?arr)) = mset (take offset (drop (Suc p) arr))" .
  have "mset (take offset (compact offset p ?arr)) = mset (take offset (drop p ?arr))"
    using "2.prems" by (intro "2.IH") simp_all
  with w show ?case by simp
qed simp

lemma after_send_lemma:
  assumes "0 < sent" and "sent \<le> length arr"
  shows "fst (after_send sent arr) = length arr - sent
       \<and> mset (take (fst (after_send sent arr)) (snd (after_send sent arr))) = mset (drop sent arr)
       \<and> length (snd (after_send sent arr)) = length arr"
proof (cases "length arr = sent")
  case False
  with assms have "mset (take (length arr - sent) (compact (length arr - sent) sent arr)) =
      mset (take (length arr - sent) (drop sent arr))" by (intro compact_window) simp_all
  with False assms show ?thesis by (simp add: after_send_def Let_def)
qed (simp add: after_send_def)

text \<open>After a partial send the sender keeps exactly the unsent buffers in the first \<open>offset\<close> places,
  each once, so that the buffers allocated next fill the rest of the array.\<close>

theorem after_send_keeps_unsent:
  assumes "0 < sent" and "sent \<le> length arr"
  shows "fst (after_send sent arr) = length arr - sent
       \<and> mset (take (fst (after_send sent arr)) (snd (after_send sent arr))) = mset (drop sent arr)
       \<and> length (snd (after_send sent arr)) = length arr"
  using assms by (rule after_send_lemma)

theorem after_send_keeps_unsent_witness:
  "mset (take (fst (after_send 2 [10, 11, 12, 13, 14 :: nat])) (snd (after_send 2 [10, 11, 12, 13, 14 :: nat]))) = {#12, 13, 14#}"
proof -
  let ?arr = "[10, 11, 12, 13, 14 :: nat]"
  have "mset (take (fst (after_send 2 ?arr)) (snd (after_send 2 ?arr))) = mset (drop 2 ?arr)"
    by (rule conjunct1 [OF conjunct2 [OF after_send_keeps_unsent]]) simp_all
  also have "\<dots> = {#12, 13, 14#}" by simp
  finally show ?thesis .
qed

section \<open>Who frees the buffers\<close>

text \<open>The contract of \<open>rx_channel::enqueue\<close>: a channel frees some buffers itself and asks the caller to
  recycle the rest, which are the first ones of the array.\<close>

locale rx_enqueue =
  fixes enq :: "rte_mbuf list \<Rightarrow> 'c \<Rightarrow> (nat \<times> rte_mbuf list \<times> 'c) option"
  assumes ownership: "enq bs c = Some (k, freed, c') \<Longrightarrow> k \<le> length bs \<and> mset freed + mset (take k bs) = mset bs"
begin

text \<open>A caller that recycles the returned number frees every buffer once.\<close>

lemma recycled: "enq bs c = Some (k, freed, c') \<Longrightarrow> mset (freed @ take k bs) = mset bs"
  using ownership by simp

text \<open>A caller that ignores the number loses exactly those buffers.\<close>

lemma ignored: "enq bs c = Some (k, freed, c') \<Longrightarrow> mset bs - mset freed = mset (take k bs)"
  using ownership by (metis add_diff_cancel_left')

end

interpretation plain: rx_enqueue rx_channel_enqueue
  by unfold_locales (simp add: rx_channel_enqueue_def)

interpretation sockperf: rx_enqueue "sockperf_enqueue ts clock_hz enqueued" for ts clock_hz enqueued
  by unfold_locales (auto simp: sockperf_enqueue_def)

text \<open>Freeing the number of buffers a channel returns frees every buffer of a run exactly once, for
  both channel classes. The receive job ignores the number for the last run of a burst and for every
  run in front of another packet; then a \<open>rx_channel\<close> leaks the whole run, a \<open>sockperf_channel\<close> none.\<close>

theorem enqueue_ownership:
  assumes "rx_channel_enqueue bs c = Some (k, freed, c')"
    and "sockperf_enqueue ts clock_hz enqueued bs d = Some (j, freed', d')"
  shows "mset (freed @ take k bs) = mset bs \<and> mset (freed' @ take j bs) = mset bs
       \<and> mset bs - mset freed = mset bs \<and> mset bs - mset freed' = {#}"
proof -
  have "k = length bs" "j = 0" using assms by (auto simp: rx_channel_enqueue_def sockperf_enqueue_def)
  then show ?thesis
    using plain.recycled [OF assms(1)] plain.ignored [OF assms(1)]
      sockperf.recycled [OF assms(2)] sockperf.ignored [OF assms(2)] by simp
qed

definition zero_info :: packet_info where
  "zero_info = \<lparr>pi_seqn = 0, pi_received = 0, pi_enqueued_rx = 0, pi_size = 0\<rparr>"

theorem enqueue_ownership_witness:
  "mset [example_frame (\<lambda>_. 0) 0] - mset (fst (snd (the (rx_channel_enqueue [example_frame (\<lambda>_. 0) 0] ())))) =
     {#example_frame (\<lambda>_. 0) 0#}"
proof -
  let ?bs = "[example_frame (\<lambda>_. 0) 0]"
  let ?c = "make_sockperf_channel [zero_info, zero_info] 1 1 False"
  have "rx_channel_enqueue ?bs () = Some (1, [], ())" by (simp add: rx_channel_enqueue_def)
  moreover have "sockperf_enqueue (\<lambda>_. None) 1 0 ?bs ?c = Some (0, ?bs, ?c)"
    by (simp add: sockperf_enqueue_def enqueue_message_def example_frame_def header_size_def Let_def)
  ultimately show ?thesis
    using enqueue_ownership [of ?bs "()" 1 "[]" "()" "\<lambda>_. None" 1 0 ?c 0 ?bs ?c] by simp
qed

section \<open>Recording packets\<close>

definition channel_wf :: "sockperf_channel \<Rightarrow> bool" where
  "channel_wf c \<longleftrightarrow> stats_wf (ch_stats c) \<and> st_next_slot (ch_stats c) \<le> ch_packets2send c"

lemma enqueue_message_wf:
  assumes "channel_wf c"
  shows "enqueue_message ts clock_hz enqueued b c = Some c' \<Longrightarrow>
      channel_wf c' \<and> ch_packets2send c' = ch_packets2send c \<and> st_next_slot (ch_stats c) \<le> st_next_slot (ch_stats c')"
    and "clock_hz \<noteq> 0 \<Longrightarrow> enqueue_message ts clock_hz enqueued b c \<noteq> None"
proof -
  obtain i st where st: "stats_slot (ch_stats c) = Some (i, st)" "i < length (st_memory st)" "stats_wf st"
    "st_next_slot st = st_next_slot (ch_stats c) + 1"
    using assms stats_slot_lemma [of "ch_stats c"] by (auto simp: channel_wf_def)
  show "enqueue_message ts clock_hz enqueued b c = Some c' \<Longrightarrow>
      channel_wf c' \<and> ch_packets2send c' = ch_packets2send c \<and> st_next_slot (ch_stats c) \<le> st_next_slot (ch_stats c')"
    using assms st
    by (auto simp: enqueue_message_def Let_def channel_wf_def stats_wf_def split: if_splits option.splits)
  show "enqueue_message ts clock_hz enqueued b c \<noteq> None" if "clock_hz \<noteq> 0"
    using st that
    by (simp add: enqueue_message_def Let_def timestamp_fix_def mul_div_def split: option.splits)
qed

text \<open>The receive channel never leaves its memory and never records more packets than the sender
  was asked to send, whatever packets arrive; with a clock frequency it always returns.\<close>

theorem sockperf_enqueue_safe:
  assumes "channel_wf c" and "clock_hz \<noteq> 0"
  shows "\<exists>c'. sockperf_enqueue ts clock_hz enqueued bs c = Some (0, bs, c') \<and> channel_wf c'
       \<and> ch_packets2send c' = ch_packets2send c"
proof -
  have "\<exists>c'. enqueue_messages ts clock_hz enqueued bs c = Some c' \<and> channel_wf c' \<and> ch_packets2send c' = ch_packets2send c"
    using assms(1)
  proof (induction bs arbitrary: c)
    case (Cons b bs)
    obtain c1 where c1: "enqueue_message ts clock_hz enqueued b c = Some c1"
      using enqueue_message_wf(2) [OF Cons.prems assms(2)] by blast
    with enqueue_message_wf(1) [OF Cons.prems c1] Cons.IH [of c1] show ?case by auto
  qed simp
  then show ?thesis by (auto simp: sockperf_enqueue_def)
qed

theorem sockperf_enqueue_safe_witness:
  "\<exists>c'. sockperf_enqueue (\<lambda>_. None) 1 0 [example_frame (\<lambda>_. 0) 60] (make_sockperf_channel [zero_info, zero_info] 1 1 False) =
     Some (0, [example_frame (\<lambda>_. 0) 60], c')"
  using sockperf_enqueue_safe [of "make_sockperf_channel [zero_info, zero_info] 1 1 False" 1 "\<lambda>_. None" 0]
  by (auto simp: channel_wf_def stats_wf_def make_sockperf_channel_def make_statistics_def Let_def)

section \<open>From the sender to the statistics\<close>

lemma from_offset_stw: "p + LENGTH('a) div 8 \<le> off \<Longrightarrow> from_offset (stw m p (w :: 'a::len word)) off = from_offset m off"
  by (rule ext) (simp add: from_offset_def stw_apply)

lemma from_at_offset: "from_offset (at_offset off f m) off = f (from_offset m off)"
  by (rule ext) (simp add: from_offset_def at_offset_def)

lemma prepare_packet_lengths:
  "l2_len (prepare_packet uf pc uc s t flags n b) = 14" "l3_len (prepare_packet uf pc uc s t flags n b) = 20"
  "l4_len (prepare_packet uf pc uc s t flags n b) = 8"
  "data_len (prepare_packet uf pc uc s t flags n b) = ucast (ucast (42 + n) :: u32)"
  "msg_header_size (prepare_packet uf pc uc s t flags n b) = 42"
  by (simp_all add: prepare_packet_def prepare_packet_headers_def msg_header_size_def Let_def)

lemma prepare_packet_payload:
  "from_offset (mem (prepare_packet uf pc uc s t flags n b)) 42 =
     set_message_type t (set_seqn s (from_offset (mem b) 42))"
  by (simp add: prepare_packet_def prepare_packet_headers_def msg_header_size_def Let_def
      from_offset_stw from_at_offset)

text \<open>What the sender prepares is what the statistics record: a packet prepared with a sequence
  number is recognised by the receive channel and stored with exactly that number in the next free
  slot, whatever the buffer held before and whichever checksums are used.\<close>

theorem prepared_packet_recorded:
  assumes "header_size \<le> unat n" and "unat n \<le> 65535 - 42" and "\<not> is_warmup s"
    and "channel_wf c" and "st_next_slot (ch_stats c) < ch_packets2send c"
    and "st_next_slot (ch_stats c) < st_size (ch_stats c)" and "ts (prepare_packet uf pc uc s type_Ping flags n b) = None"
  shows "\<exists>c'. enqueue_message ts clock_hz now (prepare_packet uf pc uc s type_Ping flags n b) c = Some c'
       \<and> pi_seqn (st_memory (ch_stats c') ! st_next_slot (ch_stats c)) = s
       \<and> st_next_slot (ch_stats c') = st_next_slot (ch_stats c) + 1"
proof -
  let ?b = "prepare_packet uf pc uc s type_Ping flags n b"
  have small: "unat (42 + n) = 42 + unat n" using assms(2) by (simp add: unat_word_ariths)
  have "unat (data_len ?b) = 42 + unat n"
    unfolding prepare_packet_lengths using assms(2) by (simp only: unat_ucast_mod small) simp
  then have long: "\<not> unat (data_len ?b) < 42 + header_size" using assms(1) by simp
  have types: "message_type (from_offset (mem ?b) 42) = type_Ping" "seqn (from_offset (mem ?b) 42) = s"
    unfolding prepare_packet_payload by (simp_all add: header_defs mem_simps)
  have slot: "stats_slot (ch_stats c) = Some (st_next_slot (ch_stats c),
      (ch_stats c)\<lparr>st_next_slot := st_next_slot (ch_stats c) + 1\<rparr>)"
    "st_next_slot (ch_stats c) < length (st_memory (ch_stats c))"
    using assms(4,6) by (auto simp: stats_slot_def channel_wf_def stats_wf_def)
  show ?thesis
    using assms(3,5,7) slot long types
    by (simp add: enqueue_message_def Let_def prepare_packet_lengths(5))
qed

theorem prepared_packet_recorded_witness:
  "\<exists>c'. enqueue_message (\<lambda>_. None) 1 0
       (prepare_packet 4 (\<lambda>_. 0) (\<lambda>_. 0) 77 type_Ping 0 20 (example_frame (\<lambda>_. 0) 0))
       (make_sockperf_channel [zero_info, zero_info] 1 1 False) = Some c'
     \<and> pi_seqn (st_memory (ch_stats c') ! 0) = 77"
proof -
  let ?c = "make_sockperf_channel [zero_info, zero_info] 1 1 False"
  have "channel_wf ?c" "st_next_slot (ch_stats ?c) = 0" "ch_packets2send ?c = 1" "st_size (ch_stats ?c) = 2"
    by (simp_all add: channel_wf_def stats_wf_def make_sockperf_channel_def make_statistics_def Let_def)
  moreover have "\<not> is_warmup 77" by (simp add: is_warmup_def warmup_mask_def)
  ultimately show ?thesis
    using prepared_packet_recorded [of 20 77 ?c "\<lambda>_. None" 4 "\<lambda>_. 0" "\<lambda>_. 0" 0 "example_frame (\<lambda>_. 0) 0" 1 0]
    by (auto simp: header_size_def)
qed

end
