(* ===== verification/Sockperf_Tx.thy ===== *)
theory Sockperf_Tx
  imports Sockperf_Channel
begin

text \<open>
  The sender of the throughput test, \<open>tx_job::process\<close> of \<open>sockperf_cli/utils.cpp\<close>: it allocates the free
  part of a burst, numbers and prepares the packets, takes a time stamp slot, offers the burst until
  the device accepts something and keeps the rest. DPDK calls and the clock are fields of \<open>send_api\<close>
  over an unknown state \<open>'r\<close>. \<open>ss_sent\<close> records what the device accepted. \<open>None\<close> stands for a slot
  behind the end of the time stamp memory, or for fuel that does not cover a loop.
\<close>

section \<open>The job\<close>

record 'r send_api =
  alloc_bulk :: "nat \<Rightarrow> 'r \<Rightarrow> rte_mbuf list option \<times> 'r"
  tx_burst :: "rte_mbuf list \<Rightarrow> 'r \<Rightarrow> nat \<times> 'r"
  ns_clock :: "'r \<Rightarrow> u64 \<times> 'r"
  udp_cksum_flag :: u64
  phdr_cksum :: "memory \<Rightarrow> u16"
  full_cksum :: "memory \<Rightarrow> u16"

record send_job =
  sj_queue_id :: u8
  sj_burst_size :: nat
  sj_packets2send :: nat
  sj_ol_flags :: u64
  sj_payload_size :: u64

text \<open>What the loop changes: the sequence number, the first free place, the array, the time stamps.\<close>

record 'r send_state =
  ss_seqn :: nat
  ss_offset :: nat
  ss_buffers :: "rte_mbuf list"
  ss_timestamps :: tx_timestamps
  ss_sent :: "rte_mbuf list"
  ss_env :: 'r

definition extra_packets :: "nat \<Rightarrow> nat" where
  "extra_packets burst_size = burst_size * 5"

definition make_send_job :: "u16 \<Rightarrow> u8 \<Rightarrow> nat \<Rightarrow> u64 \<Rightarrow> u64 \<Rightarrow> send_job" where
  "make_send_job burst queue_id packets2send flags n =
     (let burst_size = (if burst = 0 then 32 else unat burst)
      in \<lparr>sj_queue_id = queue_id, sj_burst_size = burst_size, sj_packets2send = packets2send + extra_packets burst_size,
          sj_ol_flags = flags, sj_payload_size = n\<rparr>)"

definition make_tx_timestamps :: "u16 \<Rightarrow> nat \<Rightarrow> tx_timestamps" where
  "make_tx_timestamps burst packets2send =
     (let burst_size = (if burst = 0 then 32 else unat burst)
      in \<lparr>ts_capacity = packets2send + burst_size + extra_packets burst_size, ts_data = []\<rparr>)"

definition send_start :: "send_job \<Rightarrow> rte_mbuf list \<Rightarrow> tx_timestamps \<Rightarrow> 'r \<Rightarrow> 'r send_state" where
  "send_start job buffers ts r =
     \<lparr>ss_seqn = 1, ss_offset = 0, ss_buffers = buffers, ss_timestamps = ts, ss_sent = [], ss_env = r\<rparr>"

section \<open>One burst\<close>

text \<open>Lines 265-266: the new buffers get the next sequence numbers.\<close>

fun prepare_burst :: "'r send_api \<Rightarrow> send_job \<Rightarrow> nat \<Rightarrow> rte_mbuf list \<Rightarrow> rte_mbuf list" where
  "prepare_burst api job s [] = []"
| "prepare_burst api job s (b # bs) =
     prepare_packet (udp_cksum_flag api) (phdr_cksum api) (full_cksum api)
       (make_seqn (sj_queue_id job) (of_nat (s + 1))) type_Ping (sj_ol_flags job) (sj_payload_size job) b
     # prepare_burst api job (s + 1) bs"

text \<open>Lines 268-281: the slot gets the time of the latest attempt.\<close>

definition stamp :: "u64 \<Rightarrow> tx_timestamps \<Rightarrow> tx_timestamps" where
  "stamp now ts = ts\<lparr>ts_data := butlast (ts_data ts) @ [(fst (last (ts_data ts)), now)]\<rparr>"

primrec send_until ::
  "nat \<Rightarrow> 'r send_api \<Rightarrow> rte_mbuf list \<Rightarrow> tx_timestamps \<Rightarrow> 'r \<Rightarrow> (nat \<times> tx_timestamps \<times> 'r) option" where
  "send_until 0 api buffers ts r = None"
| "send_until (Suc fuel) api buffers ts r =
     (let (now, r) = ns_clock api r; ts = stamp now ts; (sent, r) = tx_burst api buffers r
      in if sent \<noteq> 0 then Some (sent, ts, r) else send_until fuel api buffers ts r)"

text \<open>One turn of the outer loop; \<open>junk\<close> is what a slot holds before it is written.\<close>

definition send_round :: "nat \<Rightarrow> 'r send_api \<Rightarrow> u64 \<Rightarrow> send_job \<Rightarrow> 'r send_state \<Rightarrow> 'r send_state option" where
  "send_round fuel api junk job s =
     (case alloc_bulk api (sj_burst_size job - ss_offset s) (ss_env s) of
        (None, r) \<Rightarrow> Some (s\<lparr>ss_env := r\<rparr>)
      | (Some bs, r) \<Rightarrow>
          (let buffers = take (ss_offset s) (ss_buffers s) @ prepare_burst api job (ss_seqn s) bs;
               seqn' = ss_seqn s + length bs;
               key = of_nat seqn' - of_nat (sj_burst_size job)
           in case timestamps_slot junk key (ss_timestamps s) of
                None \<Rightarrow> None
              | Some ts \<Rightarrow>
                  (case send_until fuel api buffers ts r of
                     None \<Rightarrow> None
                   | Some (sent, ts, r) \<Rightarrow>
                       (let (offset, kept) = after_send sent buffers
                        in case (if offset \<noteq> 0 then timestamps_slot junk key ts else Some ts) of
                             None \<Rightarrow> None
                           | Some ts \<Rightarrow>
                               Some (s\<lparr>ss_seqn := seqn', ss_offset := offset, ss_buffers := kept, ss_timestamps := ts,
                                       ss_sent := ss_sent s @ take sent buffers, ss_env := r\<rparr>)))))"

primrec send_loop :: "nat \<Rightarrow> nat \<Rightarrow> 'r send_api \<Rightarrow> u64 \<Rightarrow> send_job \<Rightarrow> 'r send_state \<Rightarrow> 'r send_state option" where
  "send_loop 0 tries api junk job s = None"
| "send_loop (Suc fuel) tries api junk job s =
     (if ss_seqn s < sj_packets2send job + 1 then
        (case send_round tries api junk job s of
           None \<Rightarrow> None
         | Some s \<Rightarrow> send_loop fuel tries api junk job s)
      else Some s)"

section \<open>Sequence numbers\<close>

definition packet_seqn :: "rte_mbuf \<Rightarrow> u64" where
  "packet_seqn b = seqn (from_offset (mem b) 42)"

lemma packet_seqn_prepared: "packet_seqn (prepare_packet uf pc uc s t flags n b) = s"
  unfolding packet_seqn_def prepare_packet_payload by (simp add: header_defs mem_simps)

lemma prepare_burst_seqns:
  "map packet_seqn (prepare_burst api job s bs) =
     map (\<lambda>k. make_seqn (sj_queue_id job) (of_nat k)) [s + 1..<s + 1 + length bs]"
proof (induction bs arbitrary: s)
  case (Cons b bs)
  have "[s + 1..<s + 1 + length (b # bs)] = (s + 1) # [s + 1 + 1..<s + 1 + 1 + length bs]"
    by (simp add: upt_conv_Cons del: upt_Suc)
  with Cons [of "s + 1"] show ?case by (simp only: prepare_burst.simps list.map packet_seqn_prepared)
qed simp

lemma length_prepare_burst [simp]: "length (prepare_burst api job s bs) = length bs"
  by (induction bs arbitrary: s) auto

text \<open>What the documentation of DPDK promises: a bulk allocation is all or nothing, a burst accepts at
  most what is offered.\<close>

definition send_api_ok :: "'r send_api \<Rightarrow> bool" where
  "send_api_ok api \<longleftrightarrow>
     (\<forall>n r bs r'. alloc_bulk api n r = (Some bs, r') \<longrightarrow> length bs = n)
   \<and> (\<forall>bs r. fst (tx_burst api bs r) \<le> length bs)"

text \<open>The invariant of the loop: the packets the device accepted and the ones kept have the sequence
  numbers 2 up to the current one, each once.\<close>

definition numbered :: "send_job \<Rightarrow> 'r send_state \<Rightarrow> bool" where
  "numbered job s \<longleftrightarrow>
     ss_offset s < sj_burst_size job \<and> 1 \<le> ss_seqn s \<and> (ss_offset s \<noteq> 0 \<longrightarrow> length (ss_buffers s) = sj_burst_size job)
   \<and> mset (map packet_seqn (ss_sent s)) + mset (map packet_seqn (take (ss_offset s) (ss_buffers s))) =
       mset (map (\<lambda>k. make_seqn (sj_queue_id job) (of_nat k)) [2..<Suc (ss_seqn s)])"

lemma send_until_sent:
  "send_until fuel api buffers ts r = Some (sent, ts', r') \<Longrightarrow> send_api_ok api \<Longrightarrow> 0 < sent \<and> sent \<le> length buffers"
proof (induction fuel arbitrary: ts r)
  case (Suc fuel)
  obtain now r1 where c: "ns_clock api r = (now, r1)" by fastforce
  obtain k r2 where b: "tx_burst api buffers r1 = (k, r2)" by fastforce
  have "k \<le> length buffers" using Suc.prems(2) b unfolding send_api_ok_def by (metis fst_conv)
  with Suc c b show ?case by (auto simp: Let_def split: if_splits)
qed simp

lemma send_round_numbered:
  assumes "send_api_ok api" and "numbered job s" and "send_round tries api junk job s = Some s'"
  shows "numbered job s'"
proof -
  obtain bso r1 where a: "alloc_bulk api (sj_burst_size job - ss_offset s) (ss_env s) = (bso, r1)" by fastforce
  show ?thesis
  proof (cases bso)
    case None
    with assms a show ?thesis by (auto simp: send_round_def numbered_def)
  next
    case (Some bs)
    let ?bufs = "take (ss_offset s) (ss_buffers s) @ prepare_burst api job (ss_seqn s) bs"
    let ?q = "\<lambda>k. make_seqn (sj_queue_id job) (of_nat k)"
    have len: "length bs = sj_burst_size job - ss_offset s" using assms(1) a Some unfolding send_api_ok_def by blast
    then have lb: "length ?bufs = sj_burst_size job" using assms(2) by (auto simp: numbered_def)
    from assms(3) a Some obtain ts sent ts' r2 where
      u: "send_until tries api ?bufs ts r1 = Some (sent, ts', r2)"
      and s': "ss_seqn s' = ss_seqn s + length bs" "ss_offset s' = fst (after_send sent ?bufs)"
        "ss_buffers s' = snd (after_send sent ?bufs)" "ss_sent s' = ss_sent s @ take sent ?bufs"
      by (auto simp: send_round_def Let_def split: option.splits prod.splits)
    have sent: "0 < sent" "sent \<le> length ?bufs" using send_until_sent [OF u assms(1)] by simp_all
    have kept: "fst (after_send sent ?bufs) = length ?bufs - sent"
      "mset (take (fst (after_send sent ?bufs)) (snd (after_send sent ?bufs))) = mset (drop sent ?bufs)"
      "length (snd (after_send sent ?bufs)) = length ?bufs"
      using after_send_lemma [OF sent] by blast+
    have "mset (map packet_seqn (take (ss_offset s') (ss_buffers s'))) = mset (map packet_seqn (drop sent ?bufs))"
      unfolding s' mset_map kept(2) ..
    then have "mset (map packet_seqn (ss_sent s')) + mset (map packet_seqn (take (ss_offset s') (ss_buffers s'))) =
        mset (map packet_seqn (ss_sent s)) + mset (map packet_seqn (take sent ?bufs @ drop sent ?bufs))"
      unfolding s' by (simp only: map_append mset_append add.assoc)
    also have "\<dots> = mset (map packet_seqn (ss_sent s)) + mset (map packet_seqn (take (ss_offset s) (ss_buffers s)))
        + mset (map packet_seqn (prepare_burst api job (ss_seqn s) bs))"
      by (simp only: append_take_drop_id map_append mset_append add.assoc)
    also have "\<dots> = mset (map ?q ([2..<Suc (ss_seqn s)] @ [Suc (ss_seqn s)..<Suc (ss_seqn s) + length bs]))"
      using assms(2) by (simp only: numbered_def prepare_burst_seqns map_append mset_append) simp
    also have "[2..<Suc (ss_seqn s)] @ [Suc (ss_seqn s)..<Suc (ss_seqn s) + length bs] = [2..<Suc (ss_seqn s')]"
      using assms(2) s'(1) upt_add_eq_append [of 2 "Suc (ss_seqn s)" "length bs"] by (simp add: numbered_def)
    finally show ?thesis using assms(2) sent lb kept(1,3) s' by (auto simp: numbered_def)
  qed
qed

lemma send_loop_numbered:
  "send_api_ok api \<Longrightarrow> numbered job s \<Longrightarrow> send_loop fuel tries api junk job s = Some s' \<Longrightarrow>
     numbered job s' \<and> sj_packets2send job < ss_seqn s'"
proof (induction fuel arbitrary: s)
  case (Suc fuel)
  then show ?case by (auto split: if_splits option.splits dest: send_round_numbered)
qed simp

text \<open>C6: every packet of a throughput run is accepted by the device at most once and none is lost on
  the way: the accepted packets and the fewer than one burst that the sender still holds at the end
  carry the sequence numbers 2 up to the last one, each exactly once, however the device splits the
  bursts. More packets than requested have been prepared.\<close>

theorem sender_numbers_packets:
  assumes "send_api_ok api" and "0 < sj_burst_size job"
    and "send_loop fuel tries api junk job (send_start job buffers ts r) = Some s"
  shows "mset (map packet_seqn (ss_sent s)) + mset (map packet_seqn (take (ss_offset s) (ss_buffers s))) =
      mset (map (\<lambda>k. make_seqn (sj_queue_id job) (of_nat k)) [2..<Suc (ss_seqn s)])
    \<and> ss_offset s < sj_burst_size job \<and> sj_packets2send job < ss_seqn s"
proof -
  have "numbered job (send_start job buffers ts r)" using assms(2) by (simp add: numbered_def send_start_def)
  from send_loop_numbered [OF assms(1) this assms(3)] show ?thesis by (simp add: numbered_def)
qed

section \<open>Time stamps\<close>

lemma send_until_stamps:
  "send_until fuel api buffers ts r = Some (sent, ts', r') \<Longrightarrow> ts_data ts \<noteq> [] \<Longrightarrow>
     ts_capacity ts' = ts_capacity ts \<and> (\<exists>now. ts_data ts' = butlast (ts_data ts) @ [(fst (last (ts_data ts)), now)])"
proof (induction fuel arbitrary: ts r)
  case (Suc fuel)
  obtain now r1 where c: "ns_clock api r = (now, r1)" by fastforce
  obtain k r2 where b: "tx_burst api buffers r1 = (k, r2)" by fastforce
  show ?case
  proof (cases "k = 0")
    case True
    with Suc.prems c b have "send_until fuel api buffers (stamp now ts) r2 = Some (sent, ts', r')" by (simp add: Let_def)
    from Suc.IH [OF this] show ?thesis by (simp add: stamp_def)
  next
    case False
    with Suc.prems c b show ?thesis by (auto simp: Let_def stamp_def)
  qed
qed simp

text \<open>What a round does to the time stamps: one slot with a time, and after a partial send a second
  one with the same key that was never written.\<close>

lemma send_round_stamps:
  assumes "send_round tries api junk job s = Some s'" and "ss_seqn s \<noteq> ss_seqn s'" and "send_api_ok api"
  shows "ts_capacity (ss_timestamps s') = ts_capacity (ss_timestamps s)"
    and "length (ts_data (ss_timestamps s')) \<le> ts_capacity (ss_timestamps s)"
    and "\<exists>now. ts_data (ss_timestamps s') = ts_data (ss_timestamps s) @
          (let key = of_nat (ss_seqn s') - of_nat (sj_burst_size job)
           in (key, now) # (if ss_offset s' \<noteq> 0 then [(key, junk)] else []))"
proof -
  obtain bso r1 where a: "alloc_bulk api (sj_burst_size job - ss_offset s) (ss_env s) = (bso, r1)" by fastforce
  obtain bs where bs: "bso = Some bs" using assms(1,2) a by (cases bso) (auto simp: send_round_def)
  let ?bufs = "take (ss_offset s) (ss_buffers s) @ prepare_burst api job (ss_seqn s) bs"
  let ?key = "of_nat (ss_seqn s + length bs) - of_nat (sj_burst_size job) :: u64"
  obtain ts1 sent ts2 r2 ts3 where t1: "timestamps_slot junk ?key (ss_timestamps s) = Some ts1"
    and u: "send_until tries api ?bufs ts1 r1 = Some (sent, ts2, r2)"
    and t3: "(if fst (after_send sent ?bufs) \<noteq> 0 then timestamps_slot junk ?key ts2 else Some ts2) = Some ts3"
    and s': "ss_seqn s' = ss_seqn s + length bs" "ss_offset s' = fst (after_send sent ?bufs)" "ss_timestamps s' = ts3"
    using assms(1) a bs by (auto simp: send_round_def Let_def split: option.splits prod.splits if_splits)
  have d1: "ts_data ts1 = ts_data (ss_timestamps s) @ [(?key, junk)]" "ts_capacity ts1 = ts_capacity (ss_timestamps s)"
    "length (ts_data (ss_timestamps s)) < ts_capacity (ss_timestamps s)"
    using t1 by (auto simp: timestamps_slot_def split: if_splits)
  obtain now where d2: "ts_data ts2 = ts_data (ss_timestamps s) @ [(?key, now)]" "ts_capacity ts2 = ts_capacity (ss_timestamps s)"
    using send_until_stamps [OF u] d1 by auto
  have ts3: "ts3 = (if ss_offset s' \<noteq> 0 then ts2\<lparr>ts_data := ts_data ts2 @ [(?key, junk)]\<rparr> else ts2)"
    "ss_offset s' \<noteq> 0 \<longrightarrow> length (ts_data ts2) < ts_capacity ts2"
    using t3 unfolding s'(2) by (auto simp: timestamps_slot_def split: if_splits)
  show "ts_capacity (ss_timestamps s') = ts_capacity (ss_timestamps s)"
    and "length (ts_data (ss_timestamps s')) \<le> ts_capacity (ss_timestamps s)"
    unfolding s'(3) using ts3 d1(3) d2 by (auto simp: Suc_le_eq)
  show "\<exists>now. ts_data (ss_timestamps s') = ts_data (ss_timestamps s) @
          (let key = of_nat (ss_seqn s') - of_nat (sj_burst_size job)
           in (key, now) # (if ss_offset s' \<noteq> 0 then [(key, junk)] else []))"
    unfolding s'(3) ts3(1) using d2(1) s'(1) by (simp add: Let_def)
qed

text \<open>A round whose burst is accepted only in part leaves a second slot with the same key and an
  uninitialised time, and the lookup of the sending time returns that for every packet of the burst.\<close>

theorem partial_send_timestamp:
  assumes "send_round tries api junk job s = Some s'" and "ss_seqn s \<noteq> ss_seqn s'" and "send_api_ok api"
    and "ss_offset s' \<noteq> 0"
    and "\<forall>e\<in>set (ts_data (ss_timestamps s)). fst e \<le> x - 1"
    and "of_nat (ss_seqn s') - of_nat (sj_burst_size job) \<le> x - 1"
  shows "sent_at (ts_data (ss_timestamps s')) x = Some junk"
proof -
  obtain now where d: "ts_data (ss_timestamps s') = ts_data (ss_timestamps s) @
      [(of_nat (ss_seqn s') - of_nat (sj_burst_size job), now), (of_nat (ss_seqn s') - of_nat (sj_burst_size job), junk)]"
    using send_round_stamps(3) [OF assms(1-3)] assms(4) by (auto simp: Let_def)
  then have "takeWhile (\<lambda>e. fst e \<le> x - 1) (ts_data (ss_timestamps s')) = ts_data (ss_timestamps s')"
    using assms(5,6) by (auto simp: takeWhile_eq_all_conv)
  with d show ?thesis by (simp add: sent_at_def Let_def nth_append)
qed

section \<open>Room for the time stamps\<close>

definition alloc_always :: "'r send_api \<Rightarrow> bool" where
  "alloc_always api \<longleftrightarrow> (\<forall>n r. fst (alloc_bulk api n r) \<noteq> None)"

text \<open>\<open>accepts k api\<close>: the device takes \<open>k\<close> packets of every burst, or all when there are fewer.\<close>

definition accepts :: "nat \<Rightarrow> 'r send_api \<Rightarrow> bool" where
  "accepts k api \<longleftrightarrow> (\<forall>bs r. fst (tx_burst api bs r) = min k (length bs))"

lemma alloc_alwaysE:
  assumes "alloc_always api" and "send_api_ok api"
  obtains bs r' where "alloc_bulk api n r = (Some bs, r')" and "length bs = n"
proof -
  obtain b r' where b: "alloc_bulk api n r = (b, r')" by fastforce
  moreover have "b \<noteq> None" using assms(1) b unfolding alloc_always_def by (metis fst_conv)
  then obtain bs where "b = Some bs" by blast
  moreover have "length bs = n" using assms(2) b \<open>b = Some bs\<close> unfolding send_api_ok_def by blast
  ultimately show thesis using that by simp
qed

lemma send_until_accepts:
  "send_until fuel api buffers ts r = Some (sent, ts', r') \<Longrightarrow> accepts k api \<Longrightarrow> sent = min k (length buffers)"
proof (induction fuel arbitrary: ts r)
  case (Suc fuel)
  obtain now r1 where c: "ns_clock api r = (now, r1)" by fastforce
  obtain n r2 where b: "tx_burst api buffers r1 = (n, r2)" by fastforce
  have "n = min k (length buffers)" using Suc.prems(2) b unfolding accepts_def by (metis fst_conv)
  with Suc c b show ?case by (auto simp: Let_def split: if_splits)
qed simp

lemma send_round_result:
  assumes "send_round tries api junk job s = Some s'" and "send_api_ok api" and "alloc_always api" and "accepts k api"
    and "numbered job s"
  shows "ss_seqn s' = ss_seqn s + (sj_burst_size job - ss_offset s)"
    and "ss_offset s' = sj_burst_size job - min k (sj_burst_size job)"
proof -
  obtain bs r1 where a: "alloc_bulk api (sj_burst_size job - ss_offset s) (ss_env s) = (Some bs, r1)"
    and len: "length bs = sj_burst_size job - ss_offset s" using alloc_alwaysE [OF assms(3,2)] .
  let ?bufs = "take (ss_offset s) (ss_buffers s) @ prepare_burst api job (ss_seqn s) bs"
  have lb: "length ?bufs = sj_burst_size job" using assms(5) len by (auto simp: numbered_def)
  from assms(1) a obtain ts sent ts' r2 where
    u: "send_until tries api ?bufs ts r1 = Some (sent, ts', r2)"
    and s': "ss_seqn s' = ss_seqn s + length bs" "ss_offset s' = fst (after_send sent ?bufs)"
    by (auto simp: send_round_def Let_def split: option.splits prod.splits)
  show "ss_seqn s' = ss_seqn s + (sj_burst_size job - ss_offset s)" using s'(1) len by simp
  have "fst (after_send sent ?bufs) = length ?bufs - sent" by (simp add: after_send_def Let_def)
  then show "ss_offset s' = sj_burst_size job - min k (sj_burst_size job)"
    unfolding s'(2) using send_until_accepts [OF u assms(4)] by (simp only: lb)
qed

lemma send_round_full:
  assumes "send_api_ok api" and "alloc_always api" and "accepts (sj_burst_size job) api" and "numbered job s"
    and "length (ts_data (ss_timestamps s)) < ts_capacity (ss_timestamps s)"
  shows "send_round (Suc tries) api junk job s \<noteq> None"
proof -
  obtain bs r1 where a: "alloc_bulk api (sj_burst_size job - ss_offset s) (ss_env s) = (Some bs, r1)"
    and len: "length bs = sj_burst_size job - ss_offset s" using alloc_alwaysE [OF assms(2,1)] .
  let ?bufs = "take (ss_offset s) (ss_buffers s) @ prepare_burst api job (ss_seqn s) bs"
  have lb: "length ?bufs = sj_burst_size job" "0 < sj_burst_size job" using assms(4) len by (auto simp: numbered_def)
  obtain now r2 where c: "ns_clock api r1 = (now, r2)" by fastforce
  obtain n r3 where b: "tx_burst api ?bufs r2 = (n, r3)" by fastforce
  have n: "n = length ?bufs" using assms(3) b lb unfolding accepts_def by (metis fst_conv min.idem)
  have "send_until (Suc tries) api ?bufs ts r1 = Some (length ?bufs, stamp now ts, r3)" for ts
    using c b lb n by (simp add: Let_def)
  then show ?thesis
    using a assms(5) by (simp add: send_round_def timestamps_slot_def after_send_def Let_def)
qed

lemma numbered_offset: "numbered job s \<Longrightarrow> ss_offset s < sj_burst_size job"
  by (simp add: numbered_def)

lemma send_loop_full:
  assumes "send_api_ok api" and "alloc_always api" and "accepts (sj_burst_size job) api"
  shows "numbered job s \<Longrightarrow> length (ts_data (ss_timestamps s)) < ss_seqn s \<Longrightarrow>
    sj_packets2send job < ts_capacity (ss_timestamps s) \<Longrightarrow> 0 < fuel \<Longrightarrow> sj_packets2send job + 2 \<le> ss_seqn s + fuel \<Longrightarrow>
    send_loop fuel (Suc tries) api junk job s \<noteq> None"
proof (induction fuel arbitrary: s)
  case (Suc fuel)
  show ?case
  proof (cases "ss_seqn s < sj_packets2send job + 1")
    case True
    with Suc.prems obtain s' where r: "send_round (Suc tries) api junk job s = Some s'"
      using send_round_full [OF assms] by fastforce
    note res = send_round_result [OF r assms Suc.prems(1)]
    have less: "ss_seqn s < ss_seqn s'" using numbered_offset [OF Suc.prems(1)] res(1) by linarith
    note st = send_round_stamps [OF r _ assms(1)]
    have "length (ts_data (ss_timestamps s')) = Suc (length (ts_data (ss_timestamps s)))"
      using st(3) less res(2) by (auto simp: Let_def)
    with Suc.IH [OF send_round_numbered [OF assms(1) Suc.prems(1) r]] True r less st(1) Suc.prems show ?thesis by simp
  qed simp
qed simp

text \<open>C30: with a pool that does not run dry and a device that accepts whole bursts the sender finishes:
  the number of rounds is bounded by the packets to send, and the time stamps fit.\<close>

theorem sender_finishes:
  assumes "send_api_ok api" and "alloc_always api" and "job = make_send_job burst queue_id packets flags n"
    and "accepts (sj_burst_size job) api" and "sj_packets2send job < fuel"
  shows "\<exists>s. send_loop fuel (Suc tries) api junk job (send_start job buffers (make_tx_timestamps burst packets) r) = Some s"
proof -
  have "send_loop fuel (Suc tries) api junk job (send_start job buffers (make_tx_timestamps burst packets) r) \<noteq> None"
    using assms(3,5) by (intro send_loop_full [OF assms(1,2,4)])
      (simp_all add: send_start_def make_tx_timestamps_def make_send_job_def numbered_def Let_def unat_gt_0)
  then show ?thesis by blast
qed

text \<open>The states between the rounds, and a round that asks for a slot behind the end of the memory: before it sends,
  or after a partial send.\<close>

primrec send_rounds :: "nat \<Rightarrow> nat \<Rightarrow> 'r send_api \<Rightarrow> u64 \<Rightarrow> send_job \<Rightarrow> 'r send_state \<Rightarrow> 'r send_state option" where
  "send_rounds 0 tries api junk job s = Some s"
| "send_rounds (Suc n) tries api junk job s =
     (if ss_seqn s < sj_packets2send job + 1
      then Option.bind (send_round tries api junk job s) (send_rounds n tries api junk job) else None)"

definition ts_full :: "tx_timestamps \<Rightarrow> bool" where
  "ts_full ts \<longleftrightarrow> ts_capacity ts \<le> length (ts_data ts)"

definition overruns :: "nat \<Rightarrow> 'r send_api \<Rightarrow> u64 \<Rightarrow> send_job \<Rightarrow> 'r send_state \<Rightarrow> bool" where
  "overruns tries api junk job s \<longleftrightarrow>
     (\<exists>bs r key. alloc_bulk api (sj_burst_size job - ss_offset s) (ss_env s) = (Some bs, r)
       \<and> key = of_nat (ss_seqn s + length bs) - of_nat (sj_burst_size job)
       \<and> (ts_full (ss_timestamps s) \<or>
          (\<exists>ts sent ts' r'. timestamps_slot junk key (ss_timestamps s) = Some ts
             \<and> send_until tries api (take (ss_offset s) (ss_buffers s) @ prepare_burst api job (ss_seqn s) bs) ts r = Some (sent, ts', r')
             \<and> sent < ss_offset s + length bs \<and> ts_full ts')))"

lemma timestamps_slot_full: "timestamps_slot junk key ts = None \<longleftrightarrow> ts_full ts"
  by (auto simp: timestamps_slot_def ts_full_def)

lemma send_round_overruns:
  assumes "send_round (Suc tries) api junk job s = None" and "send_api_ok api" and "alloc_always api" and "accepts 1 api"
    and "numbered job s"
  shows "overruns (Suc tries) api junk job s"
proof -
  obtain bs r1 where a: "alloc_bulk api (sj_burst_size job - ss_offset s) (ss_env s) = (Some bs, r1)"
    and len: "length bs = sj_burst_size job - ss_offset s" using alloc_alwaysE [OF assms(3,2)] .
  let ?bufs = "take (ss_offset s) (ss_buffers s) @ prepare_burst api job (ss_seqn s) bs"
  let ?key = "of_nat (ss_seqn s + length bs) - of_nat (sj_burst_size job) :: u64"
  have lb: "length ?bufs = ss_offset s + length bs" "0 < length ?bufs" using assms(5) len by (auto simp: numbered_def)
  show ?thesis
  proof (cases "timestamps_slot junk ?key (ss_timestamps s)")
    case None
    then show ?thesis using a by (simp add: overruns_def timestamps_slot_full)
  next
    case (Some ts)
    obtain now r2 where c: "ns_clock api r1 = (now, r2)" by fastforce
    obtain n r3 where b: "tx_burst api ?bufs r2 = (n, r3)" by fastforce
    have "n = 1" using assms(4) b lb(2) unfolding accepts_def by (metis fst_conv min.absorb1 Suc_leI One_nat_def)
    then have u: "send_until (Suc tries) api ?bufs ts r1 = Some (1, stamp now ts, r3)" using c b by (simp add: Let_def)
    have "fst (after_send 1 ?bufs) \<noteq> 0" "timestamps_slot junk ?key (stamp now ts) = None"
      using assms(1) a Some u by (auto simp: send_round_def Let_def split: prod.splits if_splits option.splits)
    moreover from this(1) have "1 < ss_offset s + length bs" using lb by (simp add: after_send_def Let_def)
    ultimately show ?thesis using a Some u unfolding overruns_def timestamps_slot_full by blast
  qed
qed

lemma overruns_stuck: "overruns tries api junk job s \<Longrightarrow> numbered job s \<Longrightarrow> send_api_ok api \<Longrightarrow> send_round tries api junk job s = None"
proof -
  assume o: "overruns tries api junk job s" "numbered job s" "send_api_ok api"
  then obtain bs r where a: "alloc_bulk api (sj_burst_size job - ss_offset s) (ss_env s) = (Some bs, r)"
    unfolding overruns_def by blast
  then have "length bs = sj_burst_size job - ss_offset s" using o(3) unfolding send_api_ok_def by blast
  then have "length (take (ss_offset s) (ss_buffers s) @ prepare_burst api job (ss_seqn s) bs) = ss_offset s + length bs"
    using o(2) by (auto simp: numbered_def)
  with a o(1) show ?thesis
    by (auto simp: overruns_def send_round_def after_send_def Let_def timestamps_slot_def ts_full_def split: if_splits)
qed

text \<open>Rounds and loop: a sender that reaches such a round never ends.\<close>

lemma send_loop_stuck:
  assumes "send_api_ok api"
  shows "send_rounds n tries api junk job s = Some s' \<Longrightarrow> numbered job s \<Longrightarrow> ss_seqn s' < sj_packets2send job + 1 \<Longrightarrow>
     overruns tries api junk job s' \<Longrightarrow> send_loop fuel tries api junk job s = None"
proof (induction n arbitrary: s fuel)
  case 0
  then show ?case by (cases fuel) (simp_all add: overruns_stuck assms)
next
  case (Suc n)
  show ?case
  proof (cases fuel)
    case (Suc fuel')
    then show ?thesis using Suc.IH Suc.prems send_round_numbered [OF assms Suc.prems(2)]
      by (auto split: if_splits option.splits simp: bind_eq_Some_conv)
  qed simp
qed

lemma send_rounds_single:
  assumes "send_api_ok api" and "alloc_always api" and "accepts 1 api" and "2 \<le> sj_burst_size job"
    and "5 * sj_burst_size job \<le> sj_packets2send job"
  shows "numbered job s \<Longrightarrow> ts_capacity (ss_timestamps s) = sj_packets2send job + sj_burst_size job \<Longrightarrow>
    length (ts_data (ss_timestamps s)) \<le> ts_capacity (ss_timestamps s) \<Longrightarrow>
    2 * ss_seqn s \<le> length (ts_data (ss_timestamps s)) + 2 * sj_burst_size job \<Longrightarrow>
    ss_offset s = sj_burst_size job - 1 \<or> ss_seqn s = 1 \<and> ss_offset s = 0 \<and> ts_data (ss_timestamps s) = [] \<Longrightarrow>
    \<exists>n s'. send_rounds n (Suc tries) api junk job s = Some s' \<and> ss_seqn s' < sj_packets2send job + 1
       \<and> overruns (Suc tries) api junk job s'"
proof (induction "ts_capacity (ss_timestamps s) - length (ts_data (ss_timestamps s))" arbitrary: s rule: less_induct)
  case less
  have more: "ss_seqn s < sj_packets2send job + 1" using less.prems assms(4,5) by linarith
  show ?case
  proof (cases "send_round (Suc tries) api junk job s")
    case None
    from send_round_overruns [OF this assms(1-3) less.prems(1)] more show ?thesis by (intro exI [of _ 0]) simp
  next
    case (Some s')
    note res = send_round_result [OF Some assms(1-3) less.prems(1)]
    have off: "ss_offset s' = sj_burst_size job - 1" using res(2) assms(4) by simp
    have seqn: "ss_seqn s < ss_seqn s'" using numbered_offset [OF less.prems(1)] res(1) by linarith
    note st = send_round_stamps [OF Some _ assms(1)]
    have slots: "length (ts_data (ss_timestamps s')) = length (ts_data (ss_timestamps s)) + 2"
      using st(3) seqn off assms(4) by (auto simp: Let_def)
    have "2 * ss_seqn s' \<le> length (ts_data (ss_timestamps s')) + 2 * sj_burst_size job"
      using less.prems(4,5) res(1) slots assms(4) by auto
    moreover have "ts_capacity (ss_timestamps s') - length (ts_data (ss_timestamps s'))
        < ts_capacity (ss_timestamps s) - length (ts_data (ss_timestamps s))"
      using st(1,2) seqn slots by simp
    ultimately obtain n s'' where "send_rounds n (Suc tries) api junk job s' = Some s''" "ss_seqn s'' < sj_packets2send job + 1"
      "overruns (Suc tries) api junk job s''"
      using less.hyps [of s'] send_round_numbered [OF assms(1) less.prems(1) Some] st(1,2) seqn off less.prems(2)
      by (metis less_irrefl)
    with Some more show ?thesis by (intro exI [of _ "Suc n"]) simp
  qed
qed

text \<open>C31: a device that accepts one packet at a time makes the sender run behind the end of the memory
  for time stamps, for every number of packets and every burst size above one: after finitely many rounds comes one that
  takes a slot of the memory when it is full, because every packet then takes two slots and the memory has room for little more
  than one; so the loop never reaches its end.\<close>

theorem sender_overflows:
  assumes "send_api_ok api" and "alloc_always api" and "accepts 1 api"
    and "job = make_send_job burst queue_id packets flags n" and "burst \<noteq> 1"
    and "start = send_start job buffers (make_tx_timestamps burst packets) r"
  shows "(\<exists>k s. send_rounds k (Suc tries) api junk job start = Some s \<and> ss_seqn s < sj_packets2send job + 1
            \<and> overruns (Suc tries) api junk job s)
       \<and> (\<forall>fuel. send_loop fuel (Suc tries) api junk job start = None)"
proof -
  have burst: "2 \<le> sj_burst_size job"
  proof (cases "burst = 0")
    case False
    with assms(5) have "unat burst \<noteq> 0" "unat burst \<noteq> 1" by (auto simp: word_unat_eq_iff)
    with False show ?thesis by (simp add: assms(4) make_send_job_def Let_def)
  qed (simp add: assms(4) make_send_job_def Let_def)
  then have num: "numbered job start"
    by (simp add: assms(6) send_start_def numbered_def)
  have "\<exists>k s. send_rounds k (Suc tries) api junk job start = Some s \<and> ss_seqn s < sj_packets2send job + 1
      \<and> overruns (Suc tries) api junk job s"
    using burst num assms(4) by (intro send_rounds_single [OF assms(1-3)])
      (simp_all add: assms(6) send_start_def make_tx_timestamps_def make_send_job_def extra_packets_def Let_def)
  with send_loop_stuck [OF assms(1) _ num] show ?thesis by blast
qed

section \<open>Examples\<close>

text \<open>A pool of blank buffers, and a device that takes \<open>k\<close> packets of each burst.\<close>

definition example_send :: "nat \<Rightarrow> unit send_api" where
  "example_send k = \<lparr>alloc_bulk = (\<lambda>n r. (Some (replicate n (example_frame (\<lambda>_. 0) 0)), r)),
     tx_burst = (\<lambda>bs r. (min k (length bs), r)), ns_clock = (\<lambda>r. (5, r)), udp_cksum_flag = 4,
     phdr_cksum = (\<lambda>_. 0), full_cksum = (\<lambda>_. 0)\<rparr>"

lemma example_send_ok: "send_api_ok (example_send k)" "alloc_always (example_send k)" "accepts k (example_send k)"
  by (simp_all add: send_api_ok_def alloc_always_def accepts_def example_send_def)

abbreviation "example_sender \<equiv> make_send_job 2 0 3 0 20"

lemma example_sender_burst [simp]: "sj_burst_size example_sender = 2" "sj_packets2send example_sender = 13"
  by (simp_all add: make_send_job_def extra_packets_def)

theorem sender_finishes_witness:
  "\<exists>s. send_loop 14 (Suc 0) (example_send 2) 0 example_sender
     (send_start example_sender [] (make_tx_timestamps 2 3) ()) = Some s"
  using sender_finishes [OF example_send_ok(1,2) refl, of 2 0 3 0 20 2 14 0 0 "[]" "()"] example_send_ok(3) by simp

theorem sender_overflows_witness:
  "\<exists>k s. send_rounds k (Suc 0) (example_send 1) 0 example_sender (send_start example_sender [] (make_tx_timestamps 2 3) ()) = Some s
     \<and> ss_seqn s < 14 \<and> overruns (Suc 0) (example_send 1) 0 example_sender s"
  using sender_overflows [OF example_send_ok refl _ refl, where burst = 2 and packets = 3 and queue_id = 0 and flags = 0 and n = 20
      and tries = 0 and junk = 0 and buffers = "[]" and r = "()"] by auto

theorem sender_numbers_packets_witness:
  "\<exists>s. send_loop 14 (Suc 0) (example_send 2) 0 example_sender
     (send_start example_sender [] (make_tx_timestamps 2 3) ()) = Some s
   \<and> ss_offset s < 2 \<and> 13 < ss_seqn s"
proof -
  obtain s where s: "send_loop 14 (Suc 0) (example_send 2) 0 example_sender
      (send_start example_sender [] (make_tx_timestamps 2 3) ()) = Some s"
    using send_loop_full [where api = "example_send 2" and job = example_sender and fuel = 14 and tries = 0 and junk = 0
        and s = "send_start example_sender [] (make_tx_timestamps 2 3) ()", OF example_send_ok(1,2)] example_send_ok(3) [of 2]
    by (auto simp: numbered_def send_start_def make_tx_timestamps_def extra_packets_def Let_def)
  from sender_numbers_packets [OF example_send_ok(1) _ s] s show ?thesis by simp
qed

text \<open>The first burst of two packets, of which the device takes one; 99 stands for the uninitialised slot.\<close>

theorem partial_send_timestamp_witness:
  "\<exists>s. send_round (Suc 0) (example_send 1) 99 example_sender (send_start example_sender [] (make_tx_timestamps 2 3) ()) = Some s
     \<and> sent_at (ts_data (ss_timestamps s)) 2 = Some 99"
proof -
  let ?s = "send_start example_sender [] (make_tx_timestamps 2 3) ()"
  have n: "numbered example_sender ?s" by (simp add: numbered_def send_start_def)
  have "send_round (Suc 0) (example_send 1) 99 example_sender ?s \<noteq> None"
    by (simp add: send_round_def example_send_def send_start_def make_tx_timestamps_def timestamps_slot_def
        stamp_def after_send_def extra_packets_def Let_def numeral_2_eq_2)
  then obtain s where s: "send_round (Suc 0) (example_send 1) 99 example_sender ?s = Some s" by blast
  note res = send_round_result [OF s example_send_ok n]
  have "sent_at (ts_data (ss_timestamps s)) 2 = Some 99"
    using res by (intro partial_send_timestamp [OF s]) (simp_all add: example_send_ok send_start_def make_tx_timestamps_def)
  with s show ?thesis by blast
qed

end
