(* ===== verification/Sockperf_Throughput.thy ===== *)
theory Sockperf_Throughput
  imports Sockperf_Tx
begin

text \<open>
  The throughput test from end to end: the senders of \<open>Sockperf_Tx\<close>, a network that loses and reorders
  packets, the receive channel of \<open>Sockperf_Channel\<close> and the evaluation of \<open>Sockperf_Stats\<close>. The receive jobs
  hand the packets to the channel in runs; \<open>deliver_runs\<close> is a sequence of such calls, each with the time
  at which \<open>sockperf_channel::enqueue\<close> reads its clock.
\<close>

section \<open>What the senders send\<close>

text \<open>A packet the job prepared, with whatever number.\<close>

definition prepared :: "'r send_api \<Rightarrow> send_job \<Rightarrow> rte_mbuf \<Rightarrow> bool" where
  "prepared api job b \<longleftrightarrow>
     (\<exists>x b0. b = prepare_packet (udp_cksum_flag api) (phdr_cksum api) (full_cksum api) x type_Ping
                   (sj_ol_flags job) (sj_payload_size job) b0)"

lemma prepare_burst_prepared: "b \<in> set (prepare_burst api job s bs) \<Longrightarrow> prepared api job b"
  by (induction bs arbitrary: s) (auto simp: prepared_def)

definition holds_prepared :: "'r send_api \<Rightarrow> send_job \<Rightarrow> 'r send_state \<Rightarrow> bool" where
  "holds_prepared api job s \<longleftrightarrow>
     (\<forall>b \<in> set (ss_sent s) \<union> set (take (ss_offset s) (ss_buffers s)). prepared api job b)"

lemma send_round_prepared:
  assumes "send_api_ok api" and "holds_prepared api job s" and "send_round tries api junk job s = Some s'"
  shows "holds_prepared api job s'"
proof (cases "alloc_bulk api (sj_burst_size job - ss_offset s) (ss_env s)")
  case (Pair bso r1)
  show ?thesis
  proof (cases bso)
    case None
    with assms Pair show ?thesis by (auto simp: send_round_def holds_prepared_def)
  next
    case (Some bs)
    let ?bufs = "take (ss_offset s) (ss_buffers s) @ prepare_burst api job (ss_seqn s) bs"
    from assms(3) Pair Some obtain ts sent ts' r2 where
      u: "send_until tries api ?bufs ts r1 = Some (sent, ts', r2)"
      and s': "ss_offset s' = fst (after_send sent ?bufs)" "ss_buffers s' = snd (after_send sent ?bufs)"
        "ss_sent s' = ss_sent s @ take sent ?bufs"
      by (auto simp: send_round_def Let_def split: option.splits prod.splits)
    have kept: "mset (take (ss_offset s') (ss_buffers s')) = mset (drop sent ?bufs)"
      unfolding s' using after_send_lemma send_until_sent [OF u assms(1)] by blast
    have "\<forall>b \<in> set ?bufs. prepared api job b"
      using assms(2) by (auto simp: holds_prepared_def dest: prepare_burst_prepared)
    then show ?thesis
      using assms(2) mset_eq_setD [OF kept] set_take_subset [of sent ?bufs] set_drop_subset [of sent ?bufs]
      unfolding holds_prepared_def s'(3) set_append by blast
  qed
qed

lemma send_loop_prepared:
  "send_api_ok api \<Longrightarrow> holds_prepared api job s \<Longrightarrow> send_loop fuel tries api junk job s = Some s' \<Longrightarrow>
     holds_prepared api job s'"
  by (induction fuel arbitrary: s) (auto split: if_splits option.splits dest: send_round_prepared)

text \<open>The first slot of the time stamps has the key 1, so the lookup of a sending time finds a slot for
  every packet.\<close>

definition stamped :: "send_job \<Rightarrow> 'r send_state \<Rightarrow> bool" where
  "stamped job s \<longleftrightarrow>
     (if ts_data (ss_timestamps s) = [] then ss_seqn s = 1 \<and> ss_offset s = 0
      else fst (hd (ts_data (ss_timestamps s))) = 1)"

lemma send_round_idle:
  assumes "send_round tries api junk job s = Some s'" and "ss_seqn s = ss_seqn s'" and "send_api_ok api"
    and "numbered job s"
  shows "\<exists>r. s' = s\<lparr>ss_env := r\<rparr>"
proof (cases "alloc_bulk api (sj_burst_size job - ss_offset s) (ss_env s)")
  case (Pair bso r)
  have "bso = None"
  proof (rule ccontr)
    assume "bso \<noteq> None"
    then obtain bs where bs: "bso = Some bs" by blast
    with assms(3) Pair have "length bs = sj_burst_size job - ss_offset s" unfolding send_api_ok_def by blast
    moreover have "ss_seqn s' = ss_seqn s + length bs"
      using assms(1) Pair bs by (auto simp: send_round_def Let_def split: option.splits prod.splits)
    ultimately show False using assms(2) numbered_offset [OF assms(4)] by linarith
  qed
  with assms(1) Pair show ?thesis by (auto simp: send_round_def)
qed

lemma send_round_stamped:
  assumes "send_api_ok api" and "numbered job s" and "stamped job s" and "send_round tries api junk job s = Some s'"
  shows "stamped job s'"
proof (cases "ss_seqn s = ss_seqn s'")
  case True
  from send_round_idle [OF assms(4) True assms(1,2)] assms(3) show ?thesis by (auto simp: stamped_def)
next
  case False
  obtain now where d: "ts_data (ss_timestamps s') = ts_data (ss_timestamps s) @
      (let key = of_nat (ss_seqn s') - of_nat (sj_burst_size job)
       in (key, now) # (if ss_offset s' \<noteq> 0 then [(key, junk)] else []))"
    using send_round_stamps(3) [OF assms(4) False assms(1)] by blast
  have "ss_seqn s' = 1 + sj_burst_size job" if start: "ss_seqn s = 1" "ss_offset s = 0"
  proof (cases "alloc_bulk api (sj_burst_size job) (ss_env s)")
    case (Pair bso r)
    then obtain bs where "bso = Some bs" using assms(4) False start by (cases bso) (auto simp: send_round_def)
    moreover from this have "length bs = sj_burst_size job" using assms(1) Pair unfolding send_api_ok_def by blast
    ultimately show ?thesis
      using assms(4) Pair start by (auto simp: send_round_def Let_def split: option.splits prod.splits)
  qed
  with d assms(3) show ?thesis by (auto simp: stamped_def Let_def hd_append split: if_splits)
qed

lemma send_loop_stamped:
  "send_api_ok api \<Longrightarrow> numbered job s \<Longrightarrow> stamped job s \<Longrightarrow> send_loop fuel tries api junk job s = Some s' \<Longrightarrow>
     stamped job s'"
  by (induction fuel arbitrary: s)
    (auto split: if_splits option.splits dest: send_round_stamped send_round_numbered)

lemma sent_at_found:
  assumes "ts \<noteq> []" and "fst (hd ts) = 1" and "2 \<le> unat s"
  shows "sent_at ts s \<noteq> None"
proof -
  have "(1 :: u64) \<le> s - 1" using assms(3) by (simp add: word_le_nat_alt unat_sub)
  with assms(1,2) have "takeWhile (\<lambda>e. fst e \<le> s - 1) ts \<noteq> []" by (cases ts) auto
  then show ?thesis by (simp add: sent_at_def Let_def)
qed

section \<open>What the channel records\<close>

text \<open>The numbers in the slots that are in use.\<close>

definition recorded :: "sockperf_channel \<Rightarrow> u64 list" where
  "recorded c = map pi_seqn (take (st_next_slot (ch_stats c)) (st_memory (ch_stats c)))"

text \<open>A channel with one slot for every packet it counts.\<close>

definition roomy :: "sockperf_channel \<Rightarrow> bool" where
  "roomy c \<longleftrightarrow> channel_wf c \<and> ch_packets2send c \<le> st_size (ch_stats c)"

lemma map_take_update: "i < length xs \<Longrightarrow> map f (take (Suc i) (xs[i := x])) = map f (take i xs) @ [f x]"
  by (simp add: take_Suc_conv_app_nth)

lemma prepared_long:
  assumes "prepared api job b" and "header_size \<le> unat (sj_payload_size job)"
    and "unat (sj_payload_size job) \<le> 65535 - 42"
  shows "msg_header_size b = 42" "\<not> unat (data_len b) < 42 + header_size"
    "message_type (from_offset (mem b) 42) = type_Ping"
proof -
  obtain x b0 where b: "b = prepare_packet (udp_cksum_flag api) (phdr_cksum api) (full_cksum api) x type_Ping
      (sj_ol_flags job) (sj_payload_size job) b0" using assms(1) unfolding prepared_def by blast
  have small: "unat (42 + sj_payload_size job) = 42 + unat (sj_payload_size job)"
    using assms(3) by (simp add: unat_word_ariths)
  have "unat (data_len b) = 42 + unat (sj_payload_size job)"
    unfolding b prepare_packet_lengths using assms(3) by (simp only: unat_ucast_mod small) simp
  then show "\<not> unat (data_len b) < 42 + header_size" using assms(2) by simp
  show "msg_header_size b = 42" unfolding b by (rule prepare_packet_lengths)
  show "message_type (from_offset (mem b) 42) = type_Ping"
    unfolding b prepare_packet_payload by (simp add: header_defs mem_simps)
qed

definition countable :: "rte_mbuf \<Rightarrow> bool" where
  "countable b \<longleftrightarrow> msg_header_size b = 42 \<and> \<not> unat (data_len b) < 42 + header_size
     \<and> message_type (from_offset (mem b) 42) = type_Ping \<and> \<not> is_warmup (packet_seqn b)"

lemma enqueue_countable:
  assumes "channel_wf c" and "clock_hz \<noteq> 0" and "countable b"
  shows "\<exists>received. enqueue_message ts clock_hz now b c = Some
     (if st_next_slot (ch_stats c) = ch_packets2send c then c\<lparr>ch_stop := True\<rparr>
      else c\<lparr>ch_stats := (ch_stats c)\<lparr>st_next_slot := st_next_slot (ch_stats c) + 1,
        st_memory := (st_memory (ch_stats c))[min (st_next_slot (ch_stats c)) (st_size (ch_stats c) - 1) :=
          \<lparr>pi_seqn = packet_seqn b, pi_received = received, pi_enqueued_rx = now, pi_size = data_len b\<rparr>]\<rparr>\<rparr>)"
proof -
  let ?st = "ch_stats c"
  have slot: "stats_slot ?st = Some (min (st_next_slot ?st) (st_size ?st - 1), ?st\<lparr>st_next_slot := st_next_slot ?st + 1\<rparr>)"
    "min (st_next_slot ?st) (st_size ?st - 1) < length (st_memory ?st)"
    using assms(1) by (auto simp: stats_slot_def channel_wf_def stats_wf_def)
  obtain received where "(case ts b of Some t \<Rightarrow> timestamp_fix clock_hz t | None \<Rightarrow> Some now) = Some received"
    using assms(2) by (cases "ts b") (auto simp: timestamp_fix_def mul_div_def)
  then show ?thesis
    using assms(3) slot by (auto simp: enqueue_message_def countable_def packet_seqn_def Let_def)
qed

lemma enqueue_message_recorded:
  assumes "roomy c" and "clock_hz \<noteq> 0" and "countable b"
  shows "\<exists>c'. enqueue_message ts clock_hz now b c = Some c' \<and> roomy c'
       \<and> recorded c' = take (ch_packets2send c) (recorded c @ [packet_seqn b])
       \<and> ch_packets2send c' = ch_packets2send c \<and> st_txq_n (ch_stats c') = st_txq_n (ch_stats c)"
proof -
  have wf: "channel_wf c" "length (st_memory (ch_stats c)) = st_size (ch_stats c)"
    "st_next_slot (ch_stats c) \<le> ch_packets2send c" "ch_packets2send c \<le> st_size (ch_stats c)"
    using assms(1) by (auto simp: roomy_def channel_wf_def stats_wf_def)
  have len: "length (recorded c) = st_next_slot (ch_stats c)" using wf by (simp add: recorded_def)
  obtain c' where c': "enqueue_message ts clock_hz now b c = Some c'"
    using enqueue_countable [OF wf(1) assms(2,3)] by blast
  have wf': "channel_wf c'" "ch_packets2send c' = ch_packets2send c" using enqueue_message_wf(1) [OF wf(1) c'] by simp_all
  show ?thesis
  proof (cases "st_next_slot (ch_stats c) = ch_packets2send c")
    case True
    then have "c' = c\<lparr>ch_stop := True\<rparr>" using c' enqueue_countable [OF wf(1) assms(2,3), of ts now] by auto
    then show ?thesis using c' assms(1) True len by (auto simp: roomy_def channel_wf_def recorded_def)
  next
    case False
    then have "st_next_slot (ch_stats c) < st_size (ch_stats c)" "st_next_slot (ch_stats c) < ch_packets2send c" using wf(3,4) by simp_all
    with False show ?thesis
      using c' wf' wf(2,4) len enqueue_countable [OF wf(1) assms(2,3), of ts now]
      by (auto simp: roomy_def recorded_def map_take_update min_absorb1)
  qed
qed

text \<open>The calls of \<open>sockperf_channel::enqueue\<close>, one for every run a receive job found.\<close>

fun deliver_runs ::
  "(rte_mbuf \<Rightarrow> u64 option) \<Rightarrow> u64 \<Rightarrow> (u64 \<times> rte_mbuf list) list \<Rightarrow> sockperf_channel \<Rightarrow> sockperf_channel option" where
  "deliver_runs ts clock_hz [] c = Some c"
| "deliver_runs ts clock_hz ((enqueued, bs) # runs) c =
     (case sockperf_enqueue ts clock_hz enqueued bs c of
        None \<Rightarrow> None
      | Some (n, freed, c) \<Rightarrow> deliver_runs ts clock_hz runs c)"

definition arrivals :: "(u64 \<times> rte_mbuf list) list \<Rightarrow> rte_mbuf list" where
  "arrivals runs = concat (map snd runs)"

lemma take_take_append: "take n (take n xs @ ys) = take n (xs @ ys)"
  by (cases "length xs \<le> n") simp_all

lemma enqueue_messages_recorded:
  assumes "clock_hz \<noteq> 0"
  shows "roomy c \<Longrightarrow> \<forall>b \<in> set bs. countable b \<Longrightarrow>
    \<exists>c'. enqueue_messages ts clock_hz now bs c = Some c' \<and> roomy c'
       \<and> recorded c' = take (ch_packets2send c) (recorded c @ map packet_seqn bs)
       \<and> ch_packets2send c' = ch_packets2send c \<and> st_txq_n (ch_stats c') = st_txq_n (ch_stats c)"
proof (induction bs arbitrary: c)
  case Nil
  then show ?case by (auto simp: roomy_def channel_wf_def recorded_def)
next
  case (Cons b bs)
  then obtain c1 where c1: "enqueue_message ts clock_hz now b c = Some c1" "roomy c1"
    "recorded c1 = take (ch_packets2send c) (recorded c @ [packet_seqn b])"
    "ch_packets2send c1 = ch_packets2send c" "st_txq_n (ch_stats c1) = st_txq_n (ch_stats c)"
    using enqueue_message_recorded [OF Cons.prems(1) assms] by (metis list.set_intros(1))
  from Cons.IH [OF c1(2)] Cons.prems(2) obtain c' where
    "enqueue_messages ts clock_hz now bs c1 = Some c'" "roomy c'"
    "recorded c' = take (ch_packets2send c1) (recorded c1 @ map packet_seqn bs)"
    "ch_packets2send c' = ch_packets2send c1" "st_txq_n (ch_stats c') = st_txq_n (ch_stats c1)" by auto
  moreover have "recorded c @ map packet_seqn (b # bs) = (recorded c @ [packet_seqn b]) @ map packet_seqn bs" by simp
  ultimately show ?case using c1 by (simp only: take_take_append enqueue_messages.simps option.case) blast
qed

lemma deliver_runs_recorded:
  assumes "clock_hz \<noteq> 0"
  shows "roomy c \<Longrightarrow> \<forall>b \<in> set (arrivals runs). countable b \<Longrightarrow>
    \<exists>c'. deliver_runs ts clock_hz runs c = Some c' \<and> roomy c'
       \<and> recorded c' = take (ch_packets2send c) (recorded c @ map packet_seqn (arrivals runs))
       \<and> ch_packets2send c' = ch_packets2send c \<and> st_txq_n (ch_stats c') = st_txq_n (ch_stats c)"
proof (induction runs arbitrary: c)
  case Nil
  then show ?case by (auto simp: roomy_def channel_wf_def recorded_def arrivals_def)
next
  case (Cons run runs)
  obtain now bs where run: "run = (now, bs)" by fastforce
  obtain c1 where c1: "enqueue_messages ts clock_hz now bs c = Some c1" "roomy c1"
    "recorded c1 = take (ch_packets2send c) (recorded c @ map packet_seqn bs)"
    "ch_packets2send c1 = ch_packets2send c" "st_txq_n (ch_stats c1) = st_txq_n (ch_stats c)"
    using enqueue_messages_recorded [OF assms Cons.prems(1), of bs ts now] Cons.prems(2) run
    by (auto simp: arrivals_def simp del: take_append)
  from Cons.IH [OF c1(2)] Cons.prems(2) obtain c' where
    "deliver_runs ts clock_hz runs c1 = Some c'" "roomy c'"
    "recorded c' = take (ch_packets2send c1) (recorded c1 @ map packet_seqn (arrivals runs))"
    "ch_packets2send c' = ch_packets2send c1" "st_txq_n (ch_stats c') = st_txq_n (ch_stats c1)"
    by (auto simp: arrivals_def simp del: take_append)
  moreover have "recorded c @ map packet_seqn (arrivals (run # runs)) =
      (recorded c @ map packet_seqn bs) @ map packet_seqn (arrivals runs)"
    by (simp add: run arrivals_def)
  moreover have "deliver_runs ts clock_hz (run # runs) c = deliver_runs ts clock_hz runs c1"
    using c1(1) run by (simp add: sockperf_enqueue_def)
  ultimately show ?case using c1 by (simp only: take_take_append) blast
qed

section \<open>What the evaluation reports\<close>

text \<open>The transmit queue and the number that a sequence number carries, and the numbers of one queue.\<close>

definition queue_nr :: "u64 \<Rightarrow> nat" where
  "queue_nr x = unat (fst (split_seqn x))"

definition number :: "u64 \<Rightarrow> nat" where
  "number x = unat (snd (split_seqn x))"

definition numbers :: "nat \<Rightarrow> u64 list \<Rightarrow> nat list" where
  "numbers q xs = map number (filter (\<lambda>x. queue_nr x = q) xs)"

text \<open>The numbers between the first one received and the largest one that were not received.\<close>

definition missing :: "nat list \<Rightarrow> nat set" where
  "missing ns = {hd ns..Max (set ns)} - set ns"

lemma map_filter_nth: "n \<le> length xs \<Longrightarrow> map (\<lambda>i. xs ! i) (filter (\<lambda>i. P (xs ! i)) [0..<n]) = filter P (take n xs)"
  by (induction n) (simp_all add: take_Suc_conv_app_nth)

lemma eval_packets_returns:
  assumes "length (ev_stats ev) = length timestamps"
    and "\<forall>i \<in> set is. queue_of data i < length timestamps
           \<and> sent_at (timestamps ! queue_of data i) (snd (split_seqn (pi_seqn (data ! i)))) \<noteq> None"
  shows "\<exists>ev'. eval_packets data timestamps is ev = Some ev' \<and> length (ev_stats ev') = length (ev_stats ev)"
  using assms
proof (induction "is" arbitrary: ev)
  case (Cons i "is")
  have "eval_packet data timestamps i ev \<noteq> None"
    using Cons.prems by (auto simp: eval_packet_def queue_of_def Let_def split: prod.splits option.splits)
  then obtain ev1 where ev1: "eval_packet data timestamps i ev = Some ev1" by blast
  then have "length (ev_stats ev1) = length (ev_stats ev)"
    by (auto simp: eval_packet_def Let_def split: prod.splits option.splits if_splits)
  with Cons.IH [of ev1] Cons.prems ev1 show ?case by auto
qed simp

lemma queue_reports_all:
  "\<forall>q \<in> set qs. pq_prev q \<noteq> None \<Longrightarrow>
     queue_reports data qs = Some (map (\<lambda>q. (pq_missing q, pq_out_of_sequence q, snd (split_seqn (pi_seqn (data ! the (pq_prev q)))))) qs)"
  by (induction qs) (auto simp: queue_report_def)

text \<open>The counter of one queue, in terms of the recorded numbers.\<close>

lemma missing_numbers:
  assumes "eval_packets data timestamps [0..<n] ev = Some ev'" and "n \<le> length data" and "q < length (ev_stats ev)"
    and "ev_stats ev ! q = fresh_queue" and "ns = numbers q (map pi_seqn (take n data))" and "ns \<noteq> []" and "distinct ns"
    and "\<forall>k \<in> set ns. hd ns \<le> k"
  shows "unat (pq_missing (ev_stats ev' ! q)) = card (missing ns)"
proof -
  let ?ss = "seqns data (filter (\<lambda>i. queue_of data i = q) [0..<n])"
  have "?ss = map (\<lambda>d. snd (split_seqn (pi_seqn d)))
      (map (\<lambda>i. data ! i) (filter (\<lambda>i. queue_nr (pi_seqn (data ! i)) = q) [0..<n]))"
    by (simp add: seqns_def queue_of_def queue_nr_def o_def)
  also have "\<dots> = map (\<lambda>d. snd (split_seqn (pi_seqn d))) (filter (\<lambda>d. queue_nr (pi_seqn d) = q) (take n data))"
    using map_filter_nth [OF assms(2), of "\<lambda>d. queue_nr (pi_seqn d) = q"] by (rule arg_cong)
  finally have ns: "ns = map unat ?ss"
    by (simp add: assms(5) numbers_def number_def filter_map o_def)
  then have ne: "?ss \<noteq> []" using assms(6) by auto
  have d: "distinct ?ss" using assms(7) ns by (simp add: distinct_map)
  have least: "\<forall>s \<in> set ?ss. hd ?ss \<le> s" using assms(8) ne by (auto simp: ns hd_map word_le_nat_alt)
  obtain l where l: "l \<in> set ?ss" "\<forall>s \<in> set ?ss. s \<le> l"
    "unat (pq_missing (ev_stats ev' ! q)) = card ({unat (hd ?ss)..unat l} - unat ` set ?ss)"
    using missing_counted_lemma [OF assms(1,3,4) refl ne d least] by blast
  have "Max (set ns) = unat l" using l(1,2) by (intro Max_eqI) (auto simp: ns word_le_nat_alt)
  with l(3) ne show ?thesis by (simp add: missing_def ns hd_map)
qed

lemma recorded_nth:
  assumes "roomy c"
  shows "length (recorded c) = st_next_slot (ch_stats c)"
    and "i < st_next_slot (ch_stats c) \<Longrightarrow> recorded c ! i = pi_seqn (st_memory (ch_stats c) ! i)"
  using assms by (auto simp: recorded_def roomy_def channel_wf_def stats_wf_def)

lemma recorded_stamps:
  assumes "roomy c" and "\<forall>x \<in> set (recorded c). queue_nr x < length timestamps \<and> 2 \<le> number x"
    and "\<forall>ts \<in> set timestamps. ts \<noteq> [] \<and> fst (hd ts) = 1"
  shows "\<forall>i \<in> set [0..<st_next_slot (ch_stats c)]. queue_of (st_memory (ch_stats c)) i < length timestamps
      \<and> sent_at (timestamps ! queue_of (st_memory (ch_stats c)) i) (snd (split_seqn (pi_seqn (st_memory (ch_stats c) ! i)))) \<noteq> None"
proof
  fix i assume "i \<in> set [0..<st_next_slot (ch_stats c)]"
  then have i: "i < st_next_slot (ch_stats c)" by simp
  let ?x = "pi_seqn (st_memory (ch_stats c) ! i)"
  have x: "queue_nr ?x < length timestamps" "2 \<le> number ?x"
    using assms(2) recorded_nth [OF assms(1)] i nth_mem [of i "recorded c"] by auto
  with assms(3) have "sent_at (timestamps ! queue_nr ?x) (snd (split_seqn ?x)) \<noteq> None"
    by (intro sent_at_found) (simp_all add: number_def)
  with x(1) show "queue_of (st_memory (ch_stats c)) i < length timestamps
      \<and> sent_at (timestamps ! queue_of (st_memory (ch_stats c)) i) (snd (split_seqn ?x)) \<noteq> None"
    by (simp add: queue_of_def queue_nr_def)
qed

lemma stats_process_counts:
  assumes "roomy c" and "3 \<le> length (recorded c)" and "length timestamps = unat (st_txq_n (ch_stats c))"
    and "\<forall>x \<in> set (recorded c). queue_nr x < length timestamps \<and> 2 \<le> number x"
    and "\<forall>ts \<in> set timestamps. ts \<noteq> [] \<and> fst (hd ts) = 1"
    and "\<forall>q < length timestamps. numbers q (recorded c) \<noteq> []"
  shows "\<exists>reports rate. stats_process (ch_stats c) timestamps = Some (reports, rate) \<and> length reports = length timestamps
       \<and> (\<forall>q < length timestamps. distinct (numbers q (recorded c)) \<longrightarrow>
            (\<forall>k \<in> set (numbers q (recorded c)). hd (numbers q (recorded c)) \<le> k) \<longrightarrow>
            unat (fst (reports ! q)) = card (missing (numbers q (recorded c))))"
proof -
  let ?st = "ch_stats c" let ?data = "st_memory (ch_stats c)" let ?n = "st_next_slot (ch_stats c)"
  let ?ev = "\<lparr>ev_stats = replicate (length timestamps) fresh_queue, ev_first = 0, ev_last = ?n - 1, ev_rtt = [], ev_p2p = []\<rparr>"
  have n: "?n \<le> length ?data" "?n \<le> st_size ?st"
    using assms(1) by (auto simp: roomy_def channel_wf_def stats_wf_def)
  note len = recorded_nth(1) [OF assms(1)] and nth = recorded_nth(2) [OF assms(1)]
  note ok = recorded_stamps [OF assms(1,4,5)]
  obtain ev where ev: "eval_packets ?data timestamps [0..<?n] ?ev = Some ev" "length (ev_stats ev) = length timestamps"
    using eval_packets_returns [of ?ev timestamps "[0..<?n]" ?data] ok by auto
  have q: "ev_stats ev ! q = counted ?data (filter (\<lambda>i. queue_of ?data i = q) [0..<?n])" if "q < length timestamps" for q
    using eval_packets_stats [OF ev(1), of q] that by (simp add: counted_def)
  have prev: "pq_prev (ev_stats ev ! q) \<noteq> None" if less: "q < length timestamps" for q
  proof -
    obtain x where "x \<in> set (recorded c)" "queue_nr x = q"
      using assms(6) less by (force simp: numbers_def filter_empty_conv)
    then obtain i where "i < ?n" "queue_of ?data i = q"
      using nth len by (auto simp: in_set_conv_nth queue_of_def queue_nr_def)
    then have "filter (\<lambda>i. queue_of ?data i = q) [0..<?n] \<noteq> []" by (auto simp: filter_empty_conv)
    from counted_invariant [OF this] show ?thesis using q [OF less] by auto
  qed
  define reports where "reports = map (\<lambda>q. (pq_missing q, pq_out_of_sequence q,
      snd (split_seqn (pi_seqn (?data ! the (pq_prev q)))))) (ev_stats ev)"
  have "queue_reports ?data (ev_stats ev) = Some reports"
    unfolding reports_def using prev ev(2) by (intro queue_reports_all) (metis in_set_conv_nth)
  then have "stats_process ?st timestamps = Some (reports, packet_rate ?data (of_nat ?n) (ev_first ev) (ev_last ev))"
    using ev(1) assms(2,3) n len by (simp add: stats_process_def Let_def)
  moreover have "unat (fst (reports ! q)) = card (missing (numbers q (recorded c)))"
    if "q < length timestamps" "distinct (numbers q (recorded c))"
      "\<forall>k \<in> set (numbers q (recorded c)). hd (numbers q (recorded c)) \<le> k" for q
    using missing_numbers [OF ev(1) n(1), of q "numbers q (recorded c)"] that assms(6) ev(2)
    by (simp add: reports_def recorded_def)
  ultimately show ?thesis using ev(2) by (auto simp: reports_def)
qed

section \<open>Together\<close>

text \<open>\<open>s\<close> is what the sender on transmit queue \<open>q\<close> reached when its loop ended.\<close>

definition sender_ran :: "'r send_api \<Rightarrow> u16 \<Rightarrow> nat \<Rightarrow> u64 \<Rightarrow> u64 \<Rightarrow> nat \<Rightarrow> 'r send_state \<Rightarrow> bool" where
  "sender_ran api burst packets flags n q s \<longleftrightarrow>
     (\<exists>fuel tries junk buffers r.
        send_loop fuel tries api junk (make_send_job burst (of_nat q) packets flags n)
          (send_start (make_send_job burst (of_nat q) packets flags n) buffers (make_tx_timestamps burst packets) r) = Some s)"

lemma send_round_bound:
  assumes "send_api_ok api" and "send_round tries api junk job s = Some s'"
  shows "ss_seqn s' \<le> ss_seqn s + sj_burst_size job"
proof (cases "alloc_bulk api (sj_burst_size job - ss_offset s) (ss_env s)")
  case (Pair bso r)
  show ?thesis
  proof (cases bso)
    case (Some bs)
    then have "length bs = sj_burst_size job - ss_offset s" using assms(1) Pair unfolding send_api_ok_def by blast
    moreover have "ss_seqn s' = ss_seqn s + length bs"
      using assms(2) Pair Some by (auto simp: send_round_def Let_def split: option.splits prod.splits)
    ultimately show ?thesis by simp
  qed (use assms(2) Pair in \<open>auto simp: send_round_def\<close>)
qed

lemma send_loop_bound:
  "send_api_ok api \<Longrightarrow> ss_seqn s \<le> sj_packets2send job + sj_burst_size job \<Longrightarrow>
     send_loop fuel tries api junk job s = Some s' \<Longrightarrow> ss_seqn s' \<le> sj_packets2send job + sj_burst_size job"
proof (induction fuel arbitrary: s)
  case (Suc fuel)
  show ?case
  proof (cases "ss_seqn s < sj_packets2send job + 1")
    case True
    with Suc.prems(3) obtain s1 where s1: "send_round tries api junk job s = Some s1"
      "send_loop fuel tries api junk job s1 = Some s'" by (auto split: option.splits)
    with Suc.IH [of s1] send_round_bound [OF Suc.prems(1) s1(1)] True Suc.prems(1) show ?thesis by simp
  qed (use Suc.prems in simp)
qed simp

lemma burst_size_pos: "0 < sj_burst_size (make_send_job burst q packets flags n)"
  by (simp add: make_send_job_def Let_def unat_gt_0)

lemma make_seqn_parts:
  assumes "q < 128" and "k < 2 ^ 28"
  shows "queue_nr (make_seqn (of_nat q) (of_nat k)) = q" "number (make_seqn (of_nat q) (of_nat k)) = k"
    "\<not> is_warmup (make_seqn (of_nat q) (of_nat k))"
proof -
  have k: "unat (of_nat k :: u64) = k" using assms(2) by (simp only: unat_of_nat_mod) simp
  then have bits: "take_bit 28 (of_nat k :: u64) = of_nat k"
    using assms(2) by (simp add: word_unat_eq_iff unsigned_take_bit_eq take_bit_nat_eq_self)
  have q: "unat (of_nat q :: u8) = q" using assms(1) by (simp only: unat_of_nat_mod) simp
  have "split_seqn (make_seqn (of_nat q) (of_nat k)) = (of_nat q, of_nat k)"
    using split_make_masked [of "of_nat k" "of_nat q"] k bits assms(2) by (simp add: word_less_nat_alt)
  with k q show "queue_nr (make_seqn (of_nat q) (of_nat k)) = q" "number (make_seqn (of_nat q) (of_nat k)) = k"
    by (simp_all add: queue_nr_def number_def)
  have "take_bit 7 (of_nat q :: u8) = of_nat q"
    using assms(1) q by (simp add: word_unat_eq_iff unsigned_take_bit_eq take_bit_nat_eq_self)
  moreover have "\<not> bit (take_bit 7 (of_nat q :: u8)) 7" by (simp add: bit_take_bit_iff)
  ultimately have "\<not> bit (of_nat q :: u8) 7" by simp
  moreover have "\<not> bit (of_nat k :: u64) 63"
    using small_word_bits [of "of_nat k" 28 63] k assms(2) by auto
  ultimately show "\<not> is_warmup (make_seqn (of_nat q) (of_nat k))"
    by (simp add: is_warmup_bit make_seqn_def bit_simps)
qed

text \<open>A sequence number as the sender on queue \<open>q\<close> makes them.\<close>

definition sent_number :: "nat \<Rightarrow> u64 \<Rightarrow> bool" where
  "sent_number q x \<longleftrightarrow> queue_nr x = q \<and> 2 \<le> number x \<and> x = make_seqn (of_nat q) (of_nat (number x))"

lemma sender_packets:
  assumes "send_api_ok api" and "sender_ran api burst packets flags n q s" and "q < 128" and "packets + 6 * 65535 < 2 ^ 28"
    and "header_size \<le> unat n" and "unat n \<le> 65535 - 42"
  shows "\<forall>b \<in> set (ss_sent s). countable b \<and> sent_number q (packet_seqn b)"
    and "distinct (map packet_seqn (ss_sent s))"
    and "ts_data (ss_timestamps s) \<noteq> [] \<and> fst (hd (ts_data (ss_timestamps s))) = 1"
proof -
  let ?job = "make_send_job burst (of_nat q) packets flags n"
  let ?q = "\<lambda>k. make_seqn (of_nat q) (of_nat k)"
  obtain fuel tries junk buffers r where loop: "send_loop fuel tries api junk ?job
      (send_start ?job buffers (make_tx_timestamps burst packets) r) = Some s"
    using assms(2) unfolding sender_ran_def by blast
  let ?s0 = "send_start ?job buffers (make_tx_timestamps burst packets) r"
  have start: "numbered ?job ?s0" "stamped ?job ?s0" "holds_prepared api ?job ?s0"
    using burst_size_pos
    by (simp_all add: numbered_def stamped_def holds_prepared_def send_start_def make_tx_timestamps_def Let_def)
  have num: "numbered ?job s" "sj_packets2send ?job < ss_seqn s"
    using send_loop_numbered [OF assms(1) start(1) loop] by simp_all
  have job: "sj_queue_id ?job = of_nat q" "sj_payload_size ?job = n" "1 \<le> sj_packets2send ?job"
    using burst_size_pos [of burst] by (auto simp: make_send_job_def extra_packets_def Let_def)
  have "unat burst \<le> 65535" using unsigned_less [of burst, where 'a = nat] by simp
  then have "sj_packets2send ?job + sj_burst_size ?job \<le> packets + 6 * 65535" "1 \<le> sj_packets2send ?job + sj_burst_size ?job"
    using job(3) by (auto simp: make_send_job_def extra_packets_def Let_def)
  then have small: "ss_seqn s < 2 ^ 28"
    using send_loop_bound [OF assms(1) _ loop] assms(4) by (simp add: send_start_def)
  have all: "mset (map packet_seqn (ss_sent s) @ map packet_seqn (take (ss_offset s) (ss_buffers s))) =
      mset (map ?q [2..<Suc (ss_seqn s)])"
    using num(1) job(1) by (simp add: numbered_def)
  have "inj_on ?q {2..<Suc (ss_seqn s)}"
    using assms(3) small make_seqn_parts(2) by (intro inj_on_inverseI [where g = number]) simp
  then have "distinct (map ?q [2..<Suc (ss_seqn s)])" by (simp add: distinct_map del: upt_Suc)
  then have "distinct (map packet_seqn (ss_sent s) @ map packet_seqn (take (ss_offset s) (ss_buffers s)))"
    using mset_eq_imp_distinct_iff [OF all] by blast
  then show "distinct (map packet_seqn (ss_sent s))" by simp
  have prep: "\<forall>b \<in> set (ss_sent s). prepared api ?job b"
    using send_loop_prepared [OF assms(1) start(3) loop] by (simp add: holds_prepared_def)
  show "\<forall>b \<in> set (ss_sent s). countable b \<and> sent_number q (packet_seqn b)"
  proof
    fix b assume b: "b \<in> set (ss_sent s)"
    then have "packet_seqn b \<in> ?q ` {2..<Suc (ss_seqn s)}" using mset_eq_setD [OF all]
      by (simp only: set_append set_map set_upt) blast
    then obtain k where k: "packet_seqn b = ?q k" "2 \<le> k" "k < 2 ^ 28" using small by auto
    with make_seqn_parts [OF assms(3) k(3)] prepared_long [of api ?job b] prep b assms(5,6) job(2)
    show "countable b \<and> sent_number q (packet_seqn b)"
      by (simp add: countable_def sent_number_def)
  qed
  have "stamped ?job s" by (rule send_loop_stamped [OF assms(1) start(1,2) loop])
  with num(2) job(3) show "ts_data (ss_timestamps s) \<noteq> [] \<and> fst (hd (ts_data (ss_timestamps s))) = 1"
    by (auto simp: stamped_def split: if_splits)
qed

text \<open>Network and channel: the arrivals are among the packets sent, each at most once.\<close>

definition carried :: "nat \<Rightarrow> (nat \<Rightarrow> 'r send_state) \<Rightarrow> (u64 \<times> rte_mbuf list) list \<Rightarrow> bool" where
  "carried ntx st runs \<longleftrightarrow> mset (arrivals runs) \<subseteq># mset (concat (map (\<lambda>q. ss_sent (st q)) [0..<ntx]))"

lemma carried_packets:
  assumes "carried ntx st runs" and "\<forall>q < ntx. distinct (map packet_seqn (ss_sent (st q)))"
    and "\<forall>q < ntx. \<forall>b \<in> set (ss_sent (st q)). countable b \<and> sent_number q (packet_seqn b)"
  shows "distinct (map packet_seqn (arrivals runs))"
    and "\<forall>b \<in> set (arrivals runs). countable b \<and> (\<exists>q < ntx. sent_number q (packet_seqn b))"
proof -
  let ?all = "concat (map (\<lambda>q. ss_sent (st q)) [0..<ntx])"
  from assms(1) obtain rest where "mset ?all = mset (arrivals runs) + rest"
    unfolding carried_def by (metis subset_mset.le_iff_add)
  moreover obtain ys where "mset ys = rest" using ex_mset by blast
  ultimately have all: "mset ?all = mset (arrivals runs @ ys)" by simp
  then have m: "mset (map packet_seqn ?all) = mset (map packet_seqn (arrivals runs @ ys))" by (simp only: mset_map)
  have nr: "queue_nr (packet_seqn b) = q" if "q < ntx" "b \<in> set (ss_sent (st q))" for q b
    using assms(3) that by (simp add: sent_number_def)
  have "distinct (map packet_seqn (concat (map (\<lambda>q. ss_sent (st q)) [0..<k])))" if "k \<le> ntx" for k
    using that
  proof (induction k)
    case (Suc k)
    have "packet_seqn ` set (concat (map (\<lambda>q. ss_sent (st q)) [0..<k])) \<inter> packet_seqn ` set (ss_sent (st k)) = {}"
    proof -
      have "queue_nr x < k" if x: "x \<in> packet_seqn ` set (concat (map (\<lambda>q. ss_sent (st q)) [0..<k]))" for x
      proof -
        obtain q b where "q < k" "b \<in> set (ss_sent (st q))" "x = packet_seqn b" using x by auto
        with nr [of q b] Suc.prems show ?thesis by simp
      qed
      moreover have "queue_nr x = k" if "x \<in> packet_seqn ` set (ss_sent (st k))" for x
        using that nr [of k] Suc.prems by auto
      ultimately show ?thesis by fastforce
    qed
    with Suc assms(2) show ?case by simp
  qed simp
  from this [of ntx] show "distinct (map packet_seqn (arrivals runs))"
    using mset_eq_imp_distinct_iff [OF m] by simp
  have "set (arrivals runs) \<subseteq> set ?all" using mset_eq_setD [OF all] by auto
  then show "\<forall>b \<in> set (arrivals runs). countable b \<and> (\<exists>q < ntx. sent_number q (packet_seqn b))"
    using assms(3) by fastforce
qed

lemma distinct_numbers:
  assumes "distinct xs" and "\<forall>x \<in> set xs. \<exists>q < ntx. sent_number q x"
  shows "distinct (numbers q xs)"
proof -
  have "x = make_seqn (of_nat q) (of_nat (number x))" if "x \<in> set xs" "queue_nr x = q" for x
    using assms(2) that by (auto simp: sent_number_def)
  then have "inj_on number (set (filter (\<lambda>x. queue_nr x = q) xs))"
    by (intro inj_on_inverseI [where g = "\<lambda>k. make_seqn (of_nat q) (of_nat k)"]) simp
  with assms(1) show ?thesis by (simp add: numbers_def distinct_map)
qed

lemma make_channel_roomy:
  assumes "0 < packets * ntx" and "ntx < 256" and "length memory = packets * ntx * ntx"
  shows "roomy (make_sockperf_channel memory packets ntx True)"
    "recorded (make_sockperf_channel memory packets ntx True) = []"
    "ch_packets2send (make_sockperf_channel memory packets ntx True) = packets * ntx"
    "unat (st_txq_n (ch_stats (make_sockperf_channel memory packets ntx True))) = ntx"
proof -
  have "unat (of_nat ntx :: u8) = ntx" using assms(2) by (simp only: unat_of_nat_mod) simp
  with assms(1,3) show "roomy (make_sockperf_channel memory packets ntx True)"
    "recorded (make_sockperf_channel memory packets ntx True) = []"
    "ch_packets2send (make_sockperf_channel memory packets ntx True) = packets * ntx"
    "unat (st_txq_n (ch_stats (make_sockperf_channel memory packets ntx True))) = ntx"
    by (simp_all add: make_sockperf_channel_def make_statistics_def roomy_def recorded_def channel_wf_def stats_wf_def Let_def)
qed

text \<open>A device that takes whole bursts leaves nothing with the sender.\<close>

lemma send_loop_offset:
  assumes "send_api_ok api" and "alloc_always api" and "accepts (sj_burst_size job) api"
  shows "numbered job s \<Longrightarrow> ss_offset s = 0 \<Longrightarrow> send_loop fuel tries api junk job s = Some s' \<Longrightarrow> ss_offset s' = 0"
proof (induction fuel arbitrary: s)
  case (Suc fuel)
  show ?case
  proof (cases "ss_seqn s < sj_packets2send job + 1")
    case True
    with Suc.prems(3) obtain s1 where s1: "send_round tries api junk job s = Some s1"
      "send_loop fuel tries api junk job s1 = Some s'" by (auto split: option.splits)
    with Suc.IH [OF send_round_numbered [OF assms(1) Suc.prems(1) s1(1)] _ s1(2)]
      send_round_result(2) [OF s1(1) assms Suc.prems(1)] show ?thesis by simp
  qed (use Suc.prems in simp)
qed simp

lemma usable_timestamps_id: "\<forall>ts \<in> set timestamps. ts \<noteq> [] \<Longrightarrow> usable_timestamps now timestamps = timestamps"
  by (induction timestamps) (auto simp: usable_timestamps_def)

section \<open>Without detailed statistics\<close>

text \<open>Without the option \<open>detailed-stats\<close> there are two slots per transmit queue. The first packets keep
  theirs, the last slot always holds the packet that came last.\<close>

definition kept :: "nat \<Rightarrow> u64 list \<Rightarrow> u64 list" where
  "kept room xs = (if length xs \<le> room then xs else take (room - 1) xs @ [last xs])"

definition keeps :: "sockperf_channel \<Rightarrow> u64 list \<Rightarrow> bool" where
  "keeps c xs \<longleftrightarrow> channel_wf c \<and> st_next_slot (ch_stats c) = length xs
     \<and> map pi_seqn (take (length xs) (st_memory (ch_stats c))) = kept (st_size (ch_stats c)) xs"

lemma kept_snoc:
  assumes "0 < room" and "length ys = room" and "map f (take (length xs) ys) = kept room xs"
  shows "map f (take (Suc (length xs)) (ys[min (length xs) (room - 1) := y])) = kept room (xs @ [f y])"
proof (cases "length xs < room")
  case True
  then have "min (length xs) (room - 1) = length xs" by simp
  with True assms show ?thesis by (simp add: kept_def map_take_update)
next
  case False
  then have m: "min (length xs) (room - 1) = room - 1" by simp
  have "take (room - 1) (map f ys) = take (room - 1) (kept room xs)"
    using False assms(2,3) by (simp add: take_map)
  also have "\<dots> = take (room - 1) xs" using False assms(1) by (auto simp: kept_def)
  finally have "map f (take (Suc (room - 1)) (ys[room - 1 := y])) = take (room - 1) xs @ [f y]"
    using assms(1,2) by (subst map_take_update) (simp_all add: take_map)
  with False assms(1,2) m show ?thesis by (simp add: kept_def)
qed

lemma enqueue_message_kept:
  assumes "keeps c xs" and "clock_hz \<noteq> 0" and "countable b" and "length xs < ch_packets2send c"
  shows "\<exists>c'. enqueue_message ts clock_hz now b c = Some c' \<and> keeps c' (xs @ [packet_seqn b])
       \<and> ch_packets2send c' = ch_packets2send c \<and> st_size (ch_stats c') = st_size (ch_stats c)
       \<and> st_txq_n (ch_stats c') = st_txq_n (ch_stats c)"
proof -
  have wf: "channel_wf c" "st_next_slot (ch_stats c) = length xs" "0 < st_size (ch_stats c)"
    "length (st_memory (ch_stats c)) = st_size (ch_stats c)"
    "map pi_seqn (take (length xs) (st_memory (ch_stats c))) = kept (st_size (ch_stats c)) xs"
    using assms(1) by (auto simp: keeps_def channel_wf_def stats_wf_def)
  obtain received where e: "enqueue_message ts clock_hz now b c = Some (c\<lparr>ch_stats := (ch_stats c)\<lparr>st_next_slot := length xs + 1,
      st_memory := (st_memory (ch_stats c))[min (length xs) (st_size (ch_stats c) - 1) :=
        \<lparr>pi_seqn = packet_seqn b, pi_received = received, pi_enqueued_rx = now, pi_size = data_len b\<rparr>]\<rparr>\<rparr>)"
    using enqueue_countable [OF wf(1) assms(2,3), of ts now] assms(4) by (auto simp: wf(2))
  note k = kept_snoc [of "st_size (ch_stats c)" "st_memory (ch_stats c)" pi_seqn xs, OF wf(3,4,5)]
  show ?thesis
    unfolding e using enqueue_message_wf(1) [OF wf(1) e] k by (auto simp: keeps_def)
qed

lemma enqueue_messages_kept:
  assumes "clock_hz \<noteq> 0"
  shows "keeps c xs \<Longrightarrow> \<forall>b \<in> set bs. countable b \<Longrightarrow> length xs + length bs \<le> ch_packets2send c \<Longrightarrow>
    \<exists>c'. enqueue_messages ts clock_hz now bs c = Some c' \<and> keeps c' (xs @ map packet_seqn bs)
       \<and> st_size (ch_stats c') = st_size (ch_stats c) \<and> st_txq_n (ch_stats c') = st_txq_n (ch_stats c)"
proof (induction bs arbitrary: c xs)
  case (Cons b bs)
  obtain c1 where c1: "enqueue_message ts clock_hz now b c = Some c1" "keeps c1 (xs @ [packet_seqn b])"
    "ch_packets2send c1 = ch_packets2send c" "st_size (ch_stats c1) = st_size (ch_stats c)" "st_txq_n (ch_stats c1) = st_txq_n (ch_stats c)"
    using enqueue_message_kept [OF Cons.prems(1) assms, of b ts now] Cons.prems(2,3) by auto
  with Cons.IH [OF c1(2)] Cons.prems(2,3) show ?case by auto
qed auto

definition example_packet :: "u64 \<Rightarrow> rte_mbuf" where
  "example_packet s = prepare_packet 4 (\<lambda>_. 0) (\<lambda>_. 0) s type_Ping 0 20 (example_frame (\<lambda>_. 0) 0)"

lemma example_packet_countable: "\<not> is_warmup s \<Longrightarrow> countable (example_packet s)" "packet_seqn (example_packet s) = s"
proof -
  show "packet_seqn (example_packet s) = s" by (simp add: example_packet_def packet_seqn_prepared)
  moreover have "prepared \<lparr>alloc_bulk = (\<lambda>_ r. (None, r)), tx_burst = (\<lambda>_ r. (0, r)), ns_clock = (\<lambda>r. (0, r)),
      udp_cksum_flag = 4, phdr_cksum = (\<lambda>_. 0), full_cksum = (\<lambda>_. 0)\<rparr> (make_send_job 1 0 0 0 20) (example_packet s)"
    unfolding prepared_def example_packet_def by (auto simp: make_send_job_def Let_def)
  from prepared_long [OF this] show "\<not> is_warmup s \<Longrightarrow> countable (example_packet s)"
    using calculation by (simp add: countable_def make_send_job_def header_size_def Let_def)
qed

text \<open>Six packets of two queues, none of them lost, all received in order; the report of the second
  queue says that one is missing.\<close>

theorem undetailed_reports_loss:
  "\<exists>c last rate. deliver_runs (\<lambda>_. None) 1 [(0, map example_packet (concat (map (\<lambda>k. [make_seqn 0 k, make_seqn 1 k]) [2, 3, 4])))]
       (make_sockperf_channel (replicate 4 zero_info) 3 2 False) = Some c
     \<and> stats_process (ch_stats c) [[(1, 0)], [(1, 0)]] = Some ([(0, 0, 3), (1, 0, last)], rate)"
proof -
  let ?c = "make_sockperf_channel (replicate 4 zero_info) 3 2 False"
  let ?xs = "concat (map (\<lambda>k. [make_seqn 0 k, make_seqn 1 k]) [2, 3, 4])"
  have split: "split_seqn (make_seqn 0 2) = (0, 2)" "split_seqn (make_seqn 0 3) = (0, 3)"
    "split_seqn (make_seqn 1 2) = (1, 2)" "split_seqn (make_seqn 1 4) = (1, 4)"
    by (simp_all add: split_seqn_def make_seqn_def)
  have "keeps ?c []" "ch_packets2send ?c = 6" "st_size (ch_stats ?c) = 4" "st_txq_n (ch_stats ?c) = 2"
    by (simp_all add: keeps_def kept_def channel_wf_def stats_wf_def make_sockperf_channel_def make_statistics_def)
  moreover have "\<forall>b \<in> set (map example_packet ?xs). countable b"
    by (auto simp: make_seqn_def is_warmup_def warmup_mask_def intro!: example_packet_countable)
  ultimately obtain c where c: "enqueue_messages (\<lambda>_. None) 1 0 (map example_packet ?xs) ?c = Some c" "keeps c ?xs"
    "st_size (ch_stats c) = 4" "st_txq_n (ch_stats c) = 2"
    using enqueue_messages_kept [of 1 ?c "[]" "map example_packet ?xs" "\<lambda>_. None" 0]
    by (auto simp: example_packet_countable(2) o_def)
  have mem: "map pi_seqn (st_memory (ch_stats c)) = [make_seqn 0 2, make_seqn 1 2, make_seqn 0 3, make_seqn 1 4]"
    and nxt: "st_next_slot (ch_stats c) = 6"
    using c(2,3) by (auto simp: keeps_def kept_def channel_wf_def stats_wf_def)
  have nth: "pi_seqn (st_memory (ch_stats c) ! 0) = make_seqn 0 2" "pi_seqn (st_memory (ch_stats c) ! Suc 0) = make_seqn 1 2"
    "pi_seqn (st_memory (ch_stats c) ! 2) = make_seqn 0 3" "pi_seqn (st_memory (ch_stats c) ! 3) = make_seqn 1 4"
    using arg_cong [OF mem, of "\<lambda>l. l ! 0"] arg_cong [OF mem, of "\<lambda>l. l ! Suc 0"] arg_cong [OF mem, of "\<lambda>l. l ! 2"]
      arg_cong [OF mem, of "\<lambda>l. l ! 3"] arg_cong [OF mem, of length] by simp_all
  have upt: "[0..<4] = [0, Suc 0, 2, 3]" by (simp add: upt_rec)
  let ?m = "st_memory (ch_stats c)" let ?ts = "[[(1, 0)], [(1, 0)]] :: (u64 \<times> u64) list list"
  let ?ev = "\<lparr>ev_stats = replicate (unat (2 :: u8)) fresh_queue, ev_first = 0, ev_last = 3, ev_rtt = [], ev_p2p = []\<rparr>"
  have two: "replicate 2 x = [x, x]" for x :: per_queue by (simp add: numeral_2_eq_2)
  have queues: "queue_of ?m 0 = 0" "queue_of ?m (Suc 0) = 1" "queue_of ?m 2 = 0" "queue_of ?m 3 = 1"
    by (simp_all add: queue_of_def nth split)
  obtain ev where ev: "eval_packets ?m ?ts [0..<4] ?ev = Some ev" "length (ev_stats ev) = 2"
    using eval_packets_returns [of ?ev ?ts "[0..<4]" ?m] by (auto simp: upt queues nth split sent_at_def Let_def)
  have "ev_stats ev ! 0 = \<lparr>pq_out_of_sequence = 0, pq_missing = 0, pq_prev = Some 2\<rparr>"
    "ev_stats ev ! 1 = \<lparr>pq_out_of_sequence = 0, pq_missing = 1, pq_prev = Some 3\<rparr>"
    using eval_packets_stats [OF ev(1), of 0] eval_packets_stats [OF ev(1), of 1]
    by (simp_all add: upt queues two count_packet_def fresh_queue_def nth split Let_def)
  then have "ev_stats ev = [\<lparr>pq_out_of_sequence = 0, pq_missing = 0, pq_prev = Some 2\<rparr>,
      \<lparr>pq_out_of_sequence = 0, pq_missing = 1, pq_prev = Some 3\<rparr>]"
    using ev(2) by (auto simp: numeral_2_eq_2 length_Suc_conv)
  then have "stats_process (ch_stats c) ?ts =
      Some ([(0, 0, 3), (1, 0, 4)], packet_rate ?m 6 (ev_first ev) (ev_last ev))"
    using ev(1) by (simp add: stats_process_def nxt c(3,4) queue_report_def nth split Let_def)
  with c(1) show ?thesis by (auto simp: sockperf_enqueue_def)
qed

end
