(* ===== verification/Sockperf_Pool.thy ===== *)
theory Sockperf_Pool
  imports Sockperf_Tx Device_Net
begin

text \<open>
  Preparing a benchmark run: the parts of \<open>run\<close> (\<open>sockperf_cli/sockperf.cpp\<close>) that settle the numbers of
  packets, the payload size and the packet pool, and \<open>configure_sockperf_packet_pool\<close>
  (\<open>sockperf_cli/utils.cpp\<close>), which writes one packet into every buffer of the pool, so that the senders
  only change the sequence number, the type and a checksum. Checksum functions, flags and
  \<open>RTE_PKTMBUF_HEADROOM\<close> are fields of \<open>pool_api\<close>. \<open>None\<close> stands for a write behind the end of a buffer.
\<close>

section \<open>Numbers of packets and sizes\<close>

record test_plan =
  tp_throughput :: u64
  tp_latency :: u64
  tp_payload_size :: u64

definition default_latency_n_packets :: u64 where "default_latency_n_packets = 16"
definition default_throughput_n_packets :: u64 where "default_throughput_n_packets = 10000"

text \<open>The options \<open>throughput-test\<close>, \<open>latency-test\<close> and \<open>payload-size\<close>, adjusted to the burst size.\<close>

definition plan_tests :: "u16 \<Rightarrow> u64 \<Rightarrow> u64 \<Rightarrow> u64 \<Rightarrow> test_plan" where
  "plan_tests tx_burst_size throughput latency bytes =
     (let none = (throughput = 0 \<and> latency = 0);
          latency = (if none then default_latency_n_packets else latency);
          throughput = (if none then default_throughput_n_packets else throughput);
          bytes = (if unat bytes < header_size then of_nat header_size else bytes);
          throughput = (if throughput \<noteq> 0 \<and> throughput < ucast tx_burst_size then ucast tx_burst_size else throughput)
      in \<lparr>tp_throughput = throughput, tp_latency = latency, tp_payload_size = bytes\<rparr>)"

record pool_api =
  pl_headroom :: u16
  pl_cache_max :: u32
  pl_ipv4_cksum :: "memory \<Rightarrow> nat \<Rightarrow> u16"
  pl_phdr_cksum :: "memory \<Rightarrow> nat \<Rightarrow> u64 \<Rightarrow> u16"
  pl_mbuf_cksum :: "memory \<Rightarrow> nat \<Rightarrow> nat \<Rightarrow> u16"
  pl_offload_ipv4_cksum :: u64
  pl_offload_udp_cksum :: u64
  pl_flag_ipv4 :: u64
  pl_flag_ip_cksum :: u64
  pl_flag_udp_cksum :: u64

text \<open>Lines 194-201: the size of the cache per core; \<open>opt\<close> is the option \<open>tx-mempool-size\<close>.\<close>

definition tx_mempool_size :: "u32 option \<Rightarrow> u32" where
  "tx_mempool_size opt = (case opt of None \<Rightarrow> 256 - 1 | Some n \<Rightarrow> n)"

definition tx_cache_size :: "pool_api \<Rightarrow> u16 \<Rightarrow> u32 \<Rightarrow> u32" where
  "tx_cache_size api tx_burst_size mempool_size =
     (let cache = ucast tx_burst_size * 16;
          half = (mempool_size + 1) div 2;
          cache = (if cache > half then half else cache)
      in if cache > pl_cache_max api div 4 then pl_cache_max api div 4 else cache)"

text \<open>The arguments of \<open>make_scoped_mempool\<close> in line 204: number of buffers, cache size and data room.
  The parameters have 32, 32 and 16 bits.\<close>

definition tx_pool :: "pool_api \<Rightarrow> u16 \<Rightarrow> u32 option \<Rightarrow> nat \<Rightarrow> u64 \<Rightarrow> u32 \<times> u32 \<times> u16" where
  "tx_pool api tx_burst_size opt tx_jobs n =
     (let mempool_size = tx_mempool_size opt
      in (ucast (ucast mempool_size * of_nat tx_jobs :: u64), tx_cache_size api tx_burst_size mempool_size,
          ucast (ucast (pl_headroom api) + n)))"

section \<open>The packet in every buffer\<close>

text \<open>The destination is an IP and a MAC address; \<open>fake_buffer\<close> is zeroed.\<close>

definition fake_buffer :: rte_mbuf where
  "fake_buffer = \<lparr>buf_id = 0, mem = (\<lambda>_. 0), data_len = 0, pkt_len = 0, nb_segs = 0, seg_next = None,
                  l2_len = 0, l3_len = 0, l4_len = 0, ol_flags = 0\<rparr>"

definition template_headers ::
  "dev_cfg \<Rightarrow> u64 \<Rightarrow> u32 \<times> byte list \<Rightarrow> u16 \<Rightarrow> u8 \<Rightarrow> u16 \<Rightarrow> rte_mbuf" where
  "template_headers cfg n dest dst_port time_to_live src_port =
     (let b = make_udp fake_buffer n;
          ip4hdr = unat (l2_len b);
          udphdr = unat (l2_len b) + unat (l3_len b);
          m = store (mem b) 6 (mac_addr cfg);
          m = store m 0 (snd dest);
          m = stw m (ip4hdr + 12) (ip4_addr cfg);
          m = stw m (ip4hdr + 16) (fst dest);
          m = stw m (ip4hdr + 8) time_to_live;
          m = stw m (udphdr + 2) dst_port;
          m = stw m udphdr (bswap src_port)
      in b\<lparr>mem := m\<rparr>)"

definition template_cksum :: "pool_api \<Rightarrow> dev_cfg \<Rightarrow> rte_mbuf \<Rightarrow> memory \<times> u64" where
  "template_cksum api cfg b =
     (let ip4hdr = unat (l2_len b);
          udphdr = unat (l2_len b) + unat (l3_len b);
          ip_off = tx_offloads cfg AND pl_offload_ipv4_cksum api \<noteq> 0;
          udp_off = tx_offloads cfg AND pl_offload_udp_cksum api \<noteq> 0;
          flags = (if ip_off then pl_flag_ipv4 api OR pl_flag_ip_cksum api else 0);
          m = (if ip_off then mem b else stw (mem b) (ip4hdr + 10) (pl_ipv4_cksum api (mem b) ip4hdr));
          flags = (if udp_off then flags OR pl_flag_udp_cksum api else flags)
      in (stw m (udphdr + 6) (if udp_off then pl_phdr_cksum api m ip4hdr flags else pl_mbuf_cksum api m ip4hdr udphdr),
          flags))"

definition pool_template ::
  "pool_api \<Rightarrow> dev_cfg \<Rightarrow> u64 \<Rightarrow> u32 \<times> byte list \<Rightarrow> u16 \<Rightarrow> u8 \<Rightarrow> u16 \<Rightarrow> memory \<times> u64" where
  "pool_template api cfg n dest dst_port time_to_live src_port =
     (let b = template_headers cfg n dest dst_port time_to_live src_port;
          (m, flags) = template_cksum api cfg b
      in (at_offset (msg_header_size b)
            (set_message_size (ucast n) \<circ> set_message_type type_Ping \<circ> set_seqn 0) m, flags))"

text \<open>The \<open>memcpy\<close> of one buffer; \<open>room\<close> is the number of bytes behind \<open>rte_pktmbuf_mtod\<close>.\<close>

definition fill_buffer :: "nat \<Rightarrow> nat \<Rightarrow> memory \<Rightarrow> rte_mbuf \<Rightarrow> rte_mbuf option" where
  "fill_buffer room bytes packet b =
     (if room < bytes then None else Some (b\<lparr>mem := store (mem b) 0 (fetch packet 0 bytes)\<rparr>))"

fun fill_buffers :: "nat \<Rightarrow> nat \<Rightarrow> memory \<Rightarrow> rte_mbuf list \<Rightarrow> rte_mbuf list option" where
  "fill_buffers room bytes packet [] = Some []"
| "fill_buffers room bytes packet (b # bs) =
     (case fill_buffer room bytes packet b of
        None \<Rightarrow> None
      | Some b \<Rightarrow> map_option (Cons b) (fill_buffers room bytes packet bs))"

text \<open>\<open>bulk\<close> is what \<open>rte_pktmbuf_alloc_bulk\<close> returned for all buffers of the pool; \<open>Inl\<close> is the
  exception, \<open>Inr\<close> the buffers given back to the pool, their number and the flags. The source port
  is the result of \<open>device::next_src_port\<close>.\<close>

definition configure_sockperf_packet_pool ::
  "pool_api \<Rightarrow> dev_cfg \<Rightarrow> u16 \<Rightarrow> int + rte_mbuf list \<Rightarrow> nat \<Rightarrow> u64 \<Rightarrow> u32 \<times> byte list \<Rightarrow> u16 \<Rightarrow> u8 \<Rightarrow>
     (int + rte_mbuf list \<times> nat \<times> u64) option" where
  "configure_sockperf_packet_pool api cfg src_port bulk room n dest dst_port time_to_live =
     (let (packet, flags) = pool_template api cfg n dest dst_port time_to_live src_port;
          bytes = unat (14 + 20 + 8 + n)
      in case bulk of
           Inl e \<Rightarrow> Some (Inl e)
         | Inr buffers \<Rightarrow>
             map_option (\<lambda>bs. Inr (bs, length buffers, flags)) (fill_buffers room bytes packet buffers))"

section \<open>The plan\<close>

text \<open>Whatever the options, the payload holds a header, and the throughput test sends nothing or at
  least one burst; something is tested.\<close>

theorem plan_tests_ok:
  "header_size \<le> unat (tp_payload_size (plan_tests burst throughput latency bytes))
   \<and> (let n = tp_throughput (plan_tests burst throughput latency bytes) in n = 0 \<or> ucast burst \<le> n)
   \<and> (tp_throughput (plan_tests burst throughput latency bytes) \<noteq> 0
      \<or> tp_latency (plan_tests burst throughput latency bytes) \<noteq> 0)"
  by (auto simp: plan_tests_def Let_def header_size_def default_latency_n_packets_def
      default_throughput_n_packets_def not_less)

text \<open>The arguments for the pool respect what \<open>rte_pktmbuf_pool_create\<close> documents: the cache is at most
  a quarter of the largest one, and one and a half caches fit into the pool, for every pool of at least
  three buffers per sender whose size fits into 32 bits.\<close>

theorem tx_pool_cache_ok:
  assumes "tx_pool api burst opt jobs n = (buffers_n, cache, room)" and "0 < jobs"
    and "3 \<le> unat (tx_mempool_size opt)" and "unat (tx_mempool_size opt) * jobs < 2 ^ 32"
    and "unat (tx_mempool_size opt) < 2 ^ 32 - 1"
  shows "unat cache \<le> unat (pl_cache_max api) div 4 \<and> 3 * unat cache \<le> 2 * unat buffers_n"
proof -
  let ?m = "unat (tx_mempool_size opt)"
  have half: "unat ((tx_mempool_size opt + 1) div 2) = (?m + 1) div 2"
    using assms(5) by (simp add: unat_div unat_add_small)
  have quarter: "unat (pl_cache_max api div 4) = unat (pl_cache_max api) div 4"
    by (simp add: unat_div)
  have c: "cache = tx_cache_size api burst (tx_mempool_size opt)"
    and total: "buffers_n = ucast (ucast (tx_mempool_size opt) * of_nat jobs :: u64)"
    using assms(1) by (simp_all add: tx_pool_def Let_def)
  have le: "unat cache \<le> unat (pl_cache_max api) div 4" "unat cache \<le> (?m + 1) div 2"
    unfolding c tx_cache_size_def Let_def half [symmetric] quarter [symmetric]
    by (auto simp: word_le_nat_alt [symmetric] not_less)
  have "?m * jobs < 2 ^ 64" using assms(4) by simp
  moreover have "1 * jobs \<le> ?m * jobs" using assms(3) by (intro mult_le_mono1) simp
  then have "jobs < 2 ^ 32" using assms(4) by linarith
  then have "jobs < 2 ^ 64" by simp
  moreover have "unat (ucast (tx_mempool_size opt) :: u64) = ?m" by (rule unat_ucast_up) simp
  ultimately have "unat (ucast (tx_mempool_size opt) * of_nat jobs :: u64) = ?m * jobs"
    by (simp only: unat_word_ariths unat_of_nat_mod) simp
  then have "unat buffers_n = ?m * jobs" unfolding total using assms(4) by (simp only: unat_ucast_mod) simp
  moreover have "?m \<le> ?m * jobs" using assms(2) by simp
  ultimately show ?thesis using le assms(3) by linarith
qed


theorem tx_pool_cache_ok_witness:
  "unat (fst (snd (tx_pool \<lparr>pl_headroom = 128, pl_cache_max = 512, pl_ipv4_cksum = (\<lambda>_ _. 0), pl_phdr_cksum = (\<lambda>_ _ _. 0),
      pl_mbuf_cksum = (\<lambda>_ _ _. 0), pl_offload_ipv4_cksum = 2, pl_offload_udp_cksum = 4, pl_flag_ipv4 = 1,
      pl_flag_ip_cksum = 2, pl_flag_udp_cksum = 4\<rparr> 32 None 2 14))) \<le> 128"
  (is "unat (fst (snd (tx_pool ?api 32 None 2 14))) \<le> 128")
proof -
  obtain buffers_n cache room where p: "tx_pool ?api 32 None 2 14 = (buffers_n, cache, room)" by (metis prod_cases3)
  show ?thesis using tx_pool_cache_ok [OF p] by (simp add: p tx_mempool_size_def)
qed

section \<open>The buffers\<close>

text \<open>Line 204 gives the pool a data room of headroom and payload only. \<open>rte_pktmbuf_pool_create\<close> counts
  the headroom as part of the data room, so the copy of headers and payload writes 42 bytes behind the
  end of every buffer.\<close>

theorem pool_room_too_small:
  assumes "tx_pool api burst opt jobs n = (buffers_n, cache, room)" and "unat n < 2 ^ 64 - 42"
  shows "configure_sockperf_packet_pool api cfg src_port (Inr (b # bs)) (unat room - unat (pl_headroom api)) n
           dest dst_port ttl = None"
proof -
  have room: "room = ucast (ucast (pl_headroom api) + n)" using assms(1) by (simp add: tx_pool_def Let_def)
  have "unat (ucast (pl_headroom api) + n :: u64) \<le> unat (ucast (pl_headroom api) :: u64) + unat n"
    by (simp add: unat_word_ariths)
  moreover have "unat room \<le> unat (ucast (pl_headroom api) + n :: u64)" by (simp add: room unat_ucast_mod)
  moreover have "unat (ucast (pl_headroom api) :: u64) = unat (pl_headroom api)" by (simp add: unat_ucast_up)
  ultimately have "unat room - unat (pl_headroom api) \<le> unat n" by linarith
  moreover have "unat (42 + n) = 42 + unat n" using assms(2) by (simp add: unat_add_small)
  ultimately show ?thesis
    by (simp add: configure_sockperf_packet_pool_def fill_buffer_def split: prod.split)
qed

lemma fill_buffers_nth:
  "fill_buffers room bytes packet bs = Some bs' \<Longrightarrow>
     length bs' = length bs \<and> (\<forall>i < length bs. bs' ! i = (bs ! i)\<lparr>mem := store (mem (bs ! i)) 0 (fetch packet 0 bytes)\<rparr>)"
  by (induction bs arbitrary: bs') (auto simp: fill_buffer_def nth_Cons split: option.splits if_splits nat.splits)

lemma store_fetch: "i < k \<Longrightarrow> store m 0 (fetch p 0 k) i = p i"
  by (simp add: store_apply)


lemma at_offset_below:
  "i + k \<le> off \<Longrightarrow> fetch (at_offset off f m) i k = fetch m i k" "i < off \<Longrightarrow> at_offset off f m i = m i"
  by (auto simp: at_offset_def intro: nth_equalityI)

lemma ldw_at_offset:
  "i + LENGTH('a) div 8 \<le> off \<Longrightarrow> (ldw (at_offset off f m) i :: 'a::len word) = ldw m i"
  by (simp add: ldw_def at_offset_below)

lemma ldw_from_offset: "ldw (from_offset m off) i = ldw m (off + i)"
  by (simp add: ldw_def from_offset_def fetch_def add.assoc)

lemma ldw_store_fetch:
  "i + LENGTH('a) div 8 \<le> k \<Longrightarrow> (ldw (store m 0 (fetch p 0 k)) i :: 'a::len word) = ldw p i"
  "i + j \<le> k \<Longrightarrow> fetch (store m 0 (fetch p 0 k)) i j = fetch p i j"
  by (auto simp: ldw_def store_apply intro!: arg_cong [of _ _ of_le] arg_cong [of _ _ of_nat] nth_equalityI)

text \<open>The bytes of the template that the senders rely on.\<close>

lemma template_fields:
  fixes api cfg n dest dst_port ttl src_port
  assumes "length (mac_addr cfg) = 6" and "length (snd dest) = 6"
  defines "p \<equiv> fst (pool_template api cfg n dest dst_port ttl src_port)"
  shows "fetch p 0 6 = snd dest" "fetch p 6 6 = mac_addr cfg" "ldw p 12 = bswap RTE_ETHER_TYPE_IPV4"
    "p 22 = ttl" "p 23 = IPPROTO_UDP" "ldw p 26 = ip4_addr cfg" "ldw p 30 = fst dest"
    "ldw p 34 = bswap src_port" "ldw p 36 = dst_port" "ldw p 38 = bswap (ucast (8 + n) :: u16)"
    "message_size (from_offset p 42) = ucast n"
proof -
  let ?b = "template_headers cfg n dest dst_port ttl src_port"
  have len: "l2_len ?b = 14" "l3_len ?b = 20" "l4_len ?b = 8"
    by (simp_all add: template_headers_def Let_def make_udp_lengths)
  have off: "msg_header_size ?b = 42" by (simp add: msg_header_size_def len)
  have p: "p = at_offset 42 (set_message_size (ucast n) \<circ> set_message_type type_Ping \<circ> set_seqn 0)
      (fst (template_cksum api cfg ?b))"
    by (simp add: p_def pool_template_def off Let_def split: prod.split)
  note m = template_headers_def Let_def make_udp_lengths make_udp_mem assms(1,2)
  show "fetch p 0 6 = snd dest" "fetch p 6 6 = mac_addr cfg" "ldw p 12 = bswap RTE_ETHER_TYPE_IPV4"
    "p 22 = ttl" "p 23 = IPPROTO_UDP" "ldw p 26 = ip4_addr cfg" "ldw p 30 = fst dest"
    "ldw p 34 = bswap src_port" "ldw p 36 = dst_port" "ldw p 38 = bswap (ucast (8 + n) :: u16)"
    by (simp_all add: p at_offset_below ldw_at_offset template_cksum_def len mem_simps m)
  show "message_size (from_offset p 42) = ucast n"
    by (simp add: p from_at_offset header_defs mem_simps)
qed


lemma prepare_packet_below:
  "i + k \<le> 40 \<Longrightarrow> fetch (mem (prepare_packet uf pc uc s t flags n b)) i k = fetch (mem b) i k"
  by (simp add: prepare_packet_def prepare_packet_headers_def msg_header_size_def Let_def mem_simps at_offset_below)

lemma prepare_packet_ldw:
  "i + LENGTH('a) div 8 \<le> 40 \<Longrightarrow> (ldw (mem (prepare_packet uf pc uc s t flags n b)) i :: 'a::len word) = ldw (mem b) i"
  by (simp add: ldw_def prepare_packet_below)

lemma fill_buffers_enough:
  "bytes \<le> room \<Longrightarrow> fill_buffers room bytes packet bs = Some (map (\<lambda>b. b\<lparr>mem := store (mem b) 0 (fetch packet 0 bytes)\<rparr>) bs)"
  by (induction bs) (simp_all add: fill_buffer_def)

text \<open>A pool buffer prepared by a sender, field by field: \<open>sent_packet m\<close> are the MAC addresses, the
  protocol, time to live, addresses and ports, and the three fields of the message header.\<close>

definition sent_packet ::
  "memory \<Rightarrow> (byte list \<times> byte list \<times> u16) \<times> (u8 \<times> u8 \<times> u32 \<times> u32) \<times> (u16 \<times> u16) \<times> seqn_t \<times> u16 \<times> message_size_t" where
  "sent_packet m = ((fetch m 0 6, fetch m 6 6, ldw m 12), (m 22, m 23, ldw m 26, ldw m 30), (ldw m 34, ldw m 36),
     seqn (from_offset m 42), message_type (from_offset m 42), message_size (from_offset m 42))"

text \<open>C15: the buffers that a pool with enough room holds after the configuration are complete packets once a
  sender prepared them: addressed from the device to the destination, with the chosen ports and time to
  live, and with a message header that carries the sender's sequence number and the payload size,
  although the sender writes only the number, the type and the checksum.\<close>

theorem pool_packet_complete:
  assumes "length (mac_addr cfg) = 6" and "length (snd dest) = 6"
    and "header_size \<le> unat n" and "unat n < 2 ^ 64 - 42" and "42 + unat n \<le> room"
  shows "\<exists>bs' flags. configure_sockperf_packet_pool api cfg src_port (Inr bs) room n dest dst_port ttl =
           Some (Inr (bs', length bs, flags)) \<and> map buf_id bs' = map buf_id bs
       \<and> (\<forall>b \<in> set bs'. sent_packet (mem (prepare_packet uf pc uc s type_Ping flags n b)) =
            ((snd dest, mac_addr cfg, bswap RTE_ETHER_TYPE_IPV4), (ttl, IPPROTO_UDP, ip4_addr cfg, fst dest),
             (bswap src_port, dst_port), s, type_Ping, ucast n))"
proof -
  obtain p flags where p: "pool_template api cfg n dest dst_port ttl src_port = (p, flags)" by fastforce
  note fields = template_fields [OF assms(1,2), of api n dst_port ttl src_port, unfolded p fst_conv]
  let ?f = "\<lambda>b :: rte_mbuf. b\<lparr>mem := store (mem b) 0 (fetch p 0 (42 + unat n))\<rparr>"
  have sz: "unat (42 + n) = 42 + unat n" using assms(4) by (simp add: unat_add_small)
  have conf: "configure_sockperf_packet_pool api cfg src_port (Inr bs) room n dest dst_port ttl =
      Some (Inr (map ?f bs, length bs, flags))"
    using assms(5) by (simp add: configure_sockperf_packet_pool_def p sz fill_buffers_enough)
  have fetch_b: "fetch (mem (prepare_packet uf pc uc s type_Ping flags n (?f b))) i k = fetch p i k"
    if "i + k \<le> 40" for b i k
    using that by (simp add: prepare_packet_below ldw_store_fetch)
  have byte: "mem (prepare_packet uf pc uc s type_Ping flags n (?f b)) i = p i" if "i < 40" for b i
    using fetch_b [of i 1 b] that by (simp add: fetch_def)
  have size: "message_size (from_offset (mem (?f b)) 42) = message_size (from_offset p 42)" for b
    using assms(3) by (simp add: message_size_def ldw_from_offset header_size_def ldw_store_fetch)
  have "sent_packet (mem (prepare_packet uf pc uc s type_Ping flags n (?f b))) =
     ((snd dest, mac_addr cfg, bswap RTE_ETHER_TYPE_IPV4), (ttl, IPPROTO_UDP, ip4_addr cfg, fst dest),
      (bswap src_port, dst_port), s, type_Ping, ucast n)" for b
    using fields size [of b]
    by (simp add: sent_packet_def fetch_b byte prepare_packet_payload prepare_packet_ldw
        ldw_store_fetch header_defs mem_simps)
  with conf show ?thesis by auto
qed


definition example_pool :: pool_api where
  "example_pool = \<lparr>pl_headroom = 128, pl_cache_max = 512, pl_ipv4_cksum = (\<lambda>_ _. 0), pl_phdr_cksum = (\<lambda>_ _ _. 0),
      pl_mbuf_cksum = (\<lambda>_ _ _. 0), pl_offload_ipv4_cksum = 2, pl_offload_udp_cksum = 4, pl_flag_ipv4 = 1,
      pl_flag_ip_cksum = 2, pl_flag_udp_cksum = 4\<rparr>"

theorem pool_packet_complete_witness:
  "\<exists>bs' flags. configure_sockperf_packet_pool example_pool example_cfg 9000 (Inr [fake_buffer]) 100 14
      (0x0200000a, [2, 0, 0, 0, 0, 2]) 7 64 = Some (Inr (bs', 1, flags)) \<and> map buf_id bs' = [0]
    \<and> (\<forall>b \<in> set bs'. fst (sent_packet (mem (prepare_packet 4 (\<lambda>_. 0) (\<lambda>_. 0) 5 type_Ping flags 14 b))) =
          ([2, 0, 0, 0, 0, 2], [2, 0, 0, 0, 0, 1], bswap RTE_ETHER_TYPE_IPV4))"
proof -
  have "length (mac_addr example_cfg) = 6" by (simp add: example_cfg_def)
  from pool_packet_complete [OF this, of "(0x0200000a, [2, 0, 0, 0, 0, 2])" 14 100 example_pool 9000 "[fake_buffer]" 7 64
      4 "\<lambda>_. 0" "\<lambda>_. 0" 5]
  obtain bs' flags where bs': "configure_sockperf_packet_pool example_pool example_cfg 9000 (Inr [fake_buffer]) 100 14
      (0x0200000a, [2, 0, 0, 0, 0, 2]) 7 64 = Some (Inr (bs', 1, flags))" "map buf_id bs' = [0]"
    "\<forall>b \<in> set bs'. fst (sent_packet (mem (prepare_packet 4 (\<lambda>_. 0) (\<lambda>_. 0) 5 type_Ping flags 14 b))) =
      ([2, 0, 0, 0, 0, 2], mac_addr example_cfg, bswap RTE_ETHER_TYPE_IPV4)"
    by (auto simp: header_size_def fake_buffer_def)
  then show ?thesis by (auto simp: example_cfg_def)
qed

theorem pool_room_too_small_witness:
  "configure_sockperf_packet_pool example_pool example_cfg 9000 (Inr [fake_buffer])
     (unat (snd (snd (tx_pool example_pool 32 None 1 14))) - 128) 14 (0x0200000a, [2, 0, 0, 0, 0, 2]) 7 64 = None"
proof -
  obtain k c room where "tx_pool example_pool 32 None 1 14 = (k, c, room)" by (metis prod_cases3)
  from pool_room_too_small [OF this, of example_cfg 9000 fake_buffer "[]" "(0x0200000a, [2, 0, 0, 0, 0, 2])" 7 64] this
  show ?thesis by (simp add: example_pool_def)
qed

section \<open>The port of the answers\<close>

text \<open>The port that \<open>run\<close> binds the receive channel to (line 163), and the counter after it.\<close>

definition channel_port :: "nat \<Rightarrow> u16 \<Rightarrow> u16 \<Rightarrow> (u16 \<times> u16) option" where
  "channel_port fuel config counter =
     map_option (\<lambda>(port, counter). (bswap (ucast (ucast port + 1 :: u32)), counter)) (next_src_port fuel config counter)"

text \<open>The receive channel is bound to the port that the packets are sent from, which is requested from
  the device only later: the answers arrive at the channel. The one exception is the configured port
  65535, after which the counter wraps.\<close>

theorem answers_reach_channel:
  assumes "channel_port (Suc fuel) config config = Some (port, counter)"
    and "next_src_port (Suc fuel) config counter = Some (src_port, counter')"
  shows "port = bswap src_port \<longleftrightarrow> config \<noteq> 65535"
proof -
  have "unat config < 4294967295" using unsigned_less [of config, where 'a = nat] by simp
  then have small: "Suc (unat config mod 4294967296) mod 4294967296 = Suc (unat config)" by simp
  have "ucast (ucast config + 1 :: u32) = config + 1"
    by (simp only: word_unat_eq_iff unat_ucast_mod unat_word_ariths) (simp add: small)
  then have port: "port = bswap (config + 1)" "counter = config + 1"
    using assms(1) by (auto simp: channel_port_def Let_def)
  show ?thesis
  proof (cases "config = 65535")
    case True
    then show ?thesis using assms(2) port by (auto simp: Let_def bswap_inject)
  next
    case False
    then have "unat config \<noteq> 65535" by (simp add: word_unat_eq_iff)
    then have "unat config + 1 < 2 ^ 16" using unsigned_less [of config, where 'a = nat] by simp
    then have "\<not> config + 1 < config" by (simp add: word_less_nat_alt unat_add_small)
    then show ?thesis using assms(2) port False by (auto simp: Let_def)
  qed
qed


theorem answers_reach_channel_witness:
  "bswap (9001 :: u16) = bswap (9001 :: u16) \<and> channel_port 1 9000 9000 = Some (bswap 9001, 9001)
   \<and> next_src_port 1 9000 9001 = Some (9001, 9002)
   \<and> channel_port 1 65535 65535 = Some (0, 0) \<and> next_src_port 1 65535 0 = Some (1, 1) \<and> (0 :: u16) \<noteq> bswap 1"
  using answers_reach_channel [of 0 9000 "bswap 9001" 9001 9001 9002] answers_reach_channel [of 0 65535 0 0 1 1]
  by (simp add: channel_port_def word_eval)

end
