(* ===== verification/Sockperf_Warmup.thy ===== *)
theory Sockperf_Warmup
  imports Sockperf_Tx Device_Tx
begin

text \<open>
  The two single-packet exchanges of \<open>sockperf_cli/utils.cpp\<close>: \<open>tx_job::warmup\<close>, which sends numbered
  warm-up messages through a ring and runs the transmit jobs itself until an answer arrives, and
  \<open>latency_test_job\<close>, which sends one message at a time and measures the time to its answer. The program
  state \<open>'s\<close> is left open; each operation of \<open>probe_api\<close>, reading the last message and the stop flag
  included, returns a new state, which includes what the receiving core did meanwhile. Time stamps are
  nanoseconds. \<open>None\<close> stands for fuel that does not cover a loop, for a missing ring, or for a division
  by zero in a clock.
\<close>

section \<open>Environment\<close>

record 's probe_api =
  pb_alloc :: "'s \<Rightarrow> rte_mbuf option \<times> 's"
  pb_free :: "rte_mbuf \<Rightarrow> 's \<Rightarrow> 's"
  pb_enque :: "nat \<Rightarrow> rte_mbuf \<Rightarrow> 's \<Rightarrow> bool \<times> 's"
  pb_tx_burst :: "u64 option \<Rightarrow> rte_mbuf \<Rightarrow> 's \<Rightarrow> bool \<times> 's"
  pb_last :: "'s \<Rightarrow> message_info option \<times> 's"
  pb_suspended :: "'s \<Rightarrow> bool \<times> 's"
  pb_clock :: "'s \<Rightarrow> u64 option \<times> 's"
  pb_timer :: "'s \<Rightarrow> u64 option \<times> 's"
  pb_delay :: "'s \<Rightarrow> 's"
  pb_udp_flag :: u64
  pb_phdr_cksum :: "memory \<Rightarrow> u16"
  pb_udp_cksum :: "memory \<Rightarrow> u16"

definition prepare_warmup :: "'s probe_api \<Rightarrow> u64 \<Rightarrow> u64 \<Rightarrow> u64 \<Rightarrow> rte_mbuf \<Rightarrow> rte_mbuf" where
  "prepare_warmup api flags n s b =
     prepare_packet (pb_udp_flag api) (pb_phdr_cksum api) (pb_udp_cksum api) (warmup s) type_Ping flags n b"

section \<open>Warming up\<close>

datatype warm_result = Warm error_code | Warm_exception | Warm_null

text \<open>Lines 303-314, the part of a round that has or obtains a buffer and offers it to the ring.\<close>

definition warm_buffer ::
  "'s probe_api \<Rightarrow> send_job \<Rightarrow> nat \<Rightarrow> nat \<Rightarrow> u64 \<times> rte_mbuf option \<times> 's \<Rightarrow> u64 \<times> rte_mbuf option \<times> 's" where
  "warm_buffer api job ring i = (\<lambda>(sq, buffer, s).
     if i mod 16 = 0 then
       (case (case buffer of
                Some b \<Rightarrow> (sq, Some b, s)
              | None \<Rightarrow>
                  (case pb_alloc api s of
                     (None, s) \<Rightarrow> (sq, None, s)
                   | (Some b, s) \<Rightarrow>
                       (sq + 1, Some (prepare_warmup api (sj_ol_flags job) (sj_payload_size job) (sq + 1) b), s))) of
          (sq, None, s) \<Rightarrow> (sq, None, s)
        | (sq, Some b, s) \<Rightarrow> (let (ok, s) = pb_enque api ring b s in (sq, if ok then None else Some b, s)))
     else (sq, buffer, s))"

text \<open>The loop of lines 302-320. \<open>now k\<close> is the \<open>k\<close>-th reading of the system clock, in milliseconds.\<close>

primrec warm_send ::
  "nat \<Rightarrow> 's probe_api \<Rightarrow> ('j \<Rightarrow> 's \<Rightarrow> job_state option \<times> 's) \<Rightarrow> (nat \<Rightarrow> int) \<Rightarrow> int \<Rightarrow> send_job \<Rightarrow> nat \<Rightarrow> nat \<Rightarrow>
     u64 \<times> rte_mbuf option \<times> 's \<Rightarrow> 'j list \<Rightarrow> (warm_result option \<times> nat \<times> 'j list \<times> u64 \<times> rte_mbuf option \<times> 's) option" where
  "warm_send 0 api process now timeout job ring i st jobs = None"
| "warm_send (Suc fuel) api process now timeout job ring i st jobs =
     (case st of (sq, buffer, s) \<Rightarrow>
      case pb_last api s of (msg, s) \<Rightarrow>
      case (if msg \<noteq> None \<and> \<not> sq < 16 then (True, s) else pb_suspended api s) of (leave, s) \<Rightarrow>
      if leave then Some (None, i, jobs, sq, buffer, s)
      else case warm_buffer api job ring i (sq, buffer, s) of (sq, buffer, s) \<Rightarrow>
           if jobs = [] then Some (Some (Warm (Generic owner_dead)), i, jobs, sq, buffer, s)
           else if now (Suc i) - now 0 > timeout then Some (Some (Warm (Generic timed_out)), i, jobs, sq, buffer, s)
           else case run_jobs_once process (jobs, s) of
                  (None, jobs, s) \<Rightarrow> Some (Some Warm_exception, i, jobs, sq, buffer, s)
                | (Some _, jobs, s) \<Rightarrow> warm_send fuel api process now timeout job ring (Suc i) (sq, buffer, s) jobs)"

text \<open>The loop of lines 322-323; \<open>k0\<close> is the number of the clock reading in line 321.\<close>

primrec warm_wait ::
  "nat \<Rightarrow> 's probe_api \<Rightarrow> ('j \<Rightarrow> 's \<Rightarrow> job_state option \<times> 's) \<Rightarrow> (nat \<Rightarrow> int) \<Rightarrow> int \<Rightarrow> nat \<Rightarrow> nat \<Rightarrow>
     u64 \<Rightarrow> 'j list \<Rightarrow> 's \<Rightarrow> (warm_result \<times> 'j list \<times> 's) option" where
  "warm_wait 0 api process now timeout k0 k sq jobs s = None"
| "warm_wait (Suc fuel) api process now timeout k0 k sq jobs s =
     (case pb_suspended api s of
        (True, s) \<Rightarrow> Some (Warm No_error, jobs, s)
      | (False, s) \<Rightarrow>
          (case pb_last api s of
             (None, s) \<Rightarrow> Some (Warm_null, jobs, s)
           | (Some msg, s) \<Rightarrow>
               if mi_seqn msg \<noteq> warmup sq \<and> now k - now k0 < timeout then
                 (case run_jobs_once process (jobs, s) of
                    (None, jobs, s) \<Rightarrow> Some (Warm_exception, jobs, s)
                  | (Some _, jobs, s) \<Rightarrow> warm_wait fuel api process now timeout k0 (Suc k) sq jobs s)
               else Some (Warm No_error, jobs, s)))"

text \<open>The \<open>unique_ptr\<close> frees the buffer it still holds when the function is left.\<close>

definition drop_buffer :: "'s probe_api \<Rightarrow> rte_mbuf option \<Rightarrow> 's \<Rightarrow> 's" where
  "drop_buffer api buffer s = (case buffer of None \<Rightarrow> s | Some b \<Rightarrow> pb_free api b s)"

definition tx_job_warmup ::
  "nat \<Rightarrow> 's probe_api \<Rightarrow> ('j \<Rightarrow> 's \<Rightarrow> job_state option \<times> 's) \<Rightarrow> (nat \<Rightarrow> int) \<Rightarrow> int \<Rightarrow> send_job \<Rightarrow> tx_side \<Rightarrow>
     'j list \<Rightarrow> 's \<Rightarrow> (warm_result \<times> 'j list \<times> 's) option" where
  "tx_job_warmup fuel api process now timeout job side jobs s =
     (case tx_ring side 0 of
        None \<Rightarrow> None
      | Some ring \<Rightarrow>
          (case warm_send fuel api process now timeout job ring 0 (0, None, s) jobs of
             None \<Rightarrow> None
           | Some (Some res, _, jobs, _, buffer, s) \<Rightarrow> Some (res, jobs, drop_buffer api buffer s)
           | Some (None, i, jobs, sq, buffer, s) \<Rightarrow>
               map_option (\<lambda>(res, jobs, s). (res, jobs, drop_buffer api buffer s))
                 (warm_wait fuel api process now timeout (Suc i) (i + 2) sq jobs s)))"

section \<open>Warming up ends\<close>

text \<open>The state keeps the last message once there is one: \<open>heard\<close> holds from then on. The stop flag stays
  set.\<close>

definition keeps_messages :: "'s probe_api \<Rightarrow> ('j \<Rightarrow> 's \<Rightarrow> job_state option \<times> 's) \<Rightarrow> ('s \<Rightarrow> bool) \<Rightarrow> bool" where
  "keeps_messages api process heard \<longleftrightarrow>
     (\<forall>s. heard (snd (pb_last api s)) = (fst (pb_last api s) \<noteq> None))
   \<and> (\<forall>s. heard s \<longrightarrow> fst (pb_last api s) \<noteq> None \<and> heard (snd (pb_suspended api s)))
   \<and> (\<forall>j s. heard s \<longrightarrow> heard (snd (process j s)))
   \<and> (\<forall>s. fst (pb_suspended api s) \<longrightarrow> fst (pb_suspended api (snd (pb_suspended api s))))"

lemma keeps_messages_facts:
  assumes "keeps_messages api process heard"
  shows "pb_last api s = (m, s') \<Longrightarrow> heard s' \<longleftrightarrow> m \<noteq> None" and "heard s \<Longrightarrow> pb_last api s = (m, s') \<Longrightarrow> m \<noteq> None"
    and "heard s \<Longrightarrow> pb_suspended api s = (b, s') \<Longrightarrow> heard s'"
    and "heard s \<Longrightarrow> run_jobs_once process (jobs, s) = (st, jobs', s') \<Longrightarrow> heard s'"
    and "pb_suspended api s = (True, s') \<Longrightarrow> fst (pb_suspended api s')"
proof -
  have last: "heard (snd (pb_last api s)) \<longleftrightarrow> fst (pb_last api s) \<noteq> None"
    and keep: "heard s \<Longrightarrow> fst (pb_last api s) \<noteq> None \<and> heard (snd (pb_suspended api s))"
    and flag: "fst (pb_suspended api s) \<Longrightarrow> fst (pb_suspended api (snd (pb_suspended api s)))" for s
    using assms by (simp_all add: keeps_messages_def)
  show "pb_last api s = (m, s') \<Longrightarrow> heard s' \<longleftrightarrow> m \<noteq> None" using last [of s] by simp
  show "heard s \<Longrightarrow> pb_last api s = (m, s') \<Longrightarrow> m \<noteq> None" using keep [of s] by simp
  show "heard s \<Longrightarrow> pb_suspended api s = (b, s') \<Longrightarrow> heard s'" using keep [of s] by simp
  show "pb_suspended api s = (True, s') \<Longrightarrow> fst (pb_suspended api s')" using flag [of s] by simp
  have "steady_jobs process heard" using assms by unfold_locales (simp add: keeps_messages_def)
  from steady_jobs.run_jobs_once_inv [OF this]
  show "heard s \<Longrightarrow> run_jobs_once process (jobs, s) = (st, jobs', s') \<Longrightarrow> heard s'" by metis
qed

lemma warm_wait_returns:
  assumes "keeps_messages api process heard" and "\<forall>i j. now i + int j \<le> now (i + j)"
    and "timeout < int (k + fuel) - int k0" and "k0 \<le> k" and "0 < fuel" and "heard s \<or> fst (pb_suspended api s)"
  shows "\<exists>res jobs' s'. warm_wait fuel api process now timeout k0 k sq jobs s = Some (res, jobs', s') \<and> res \<noteq> Warm_null"
  using assms(3-6)
proof (induction fuel arbitrary: k jobs s)
  case (Suc fuel)
  note facts = keeps_messages_facts [OF assms(1)]
  obtain stop s1 m s2 where p: "pb_suspended api s = (stop, s1)" "pb_last api s1 = (m, s2)" by fastforce
  show ?case
  proof (cases stop)
    case False
    with Suc.prems(4) p have "heard s" by simp
    then have "m \<noteq> None" "heard s2" using facts(1-3) p by blast+
    then obtain msg where m: "m = Some msg" by blast
    show ?thesis
    proof (cases "mi_seqn msg \<noteq> warmup sq \<and> now k - now k0 < timeout")
      case True
      obtain st jobs2 s3 where r: "run_jobs_once process (jobs, s2) = (st, jobs2, s3)" by (metis prod_cases3)
      have "now k0 + int (k - k0) \<le> now k" using assms(2) Suc.prems(2) by (metis le_add_diff_inverse)
      then have "0 < fuel" using True Suc.prems(1,2) by linarith
      moreover have "heard s3" using facts(4) r \<open>heard s2\<close> by blast
      ultimately have "\<exists>res jobs' s'. warm_wait fuel api process now timeout k0 (Suc k) sq jobs2 s3 = Some (res, jobs', s')
          \<and> res \<noteq> Warm_null" using Suc.prems by (intro Suc.IH) simp_all
      then show ?thesis using p False m True r by (cases st) simp_all
    next
      case no: False
      then show ?thesis using p False m by auto
    qed
  qed (use p in simp)
qed simp

lemma warm_send_returns:
  assumes "keeps_messages api process heard" and "\<forall>i j. now i + int j \<le> now (i + j)"
    and "timeout < int (i + fuel)" and "0 < fuel"
  shows "\<exists>res i' jobs' sq' buffer' s'. warm_send fuel api process now timeout job ring i st jobs =
      Some (res, i', jobs', sq', buffer', s') \<and> res \<noteq> Some Warm_null
      \<and> (res = None \<longrightarrow> heard s' \<or> fst (pb_suspended api s'))"
  using assms(3,4)
proof (induction fuel arbitrary: i st jobs)
  case (Suc fuel)
  obtain sq buffer s where st: "st = (sq, buffer, s)" by (rule prod_cases3)
  obtain m s1 where p: "pb_last api s = (m, s1)" by fastforce
  obtain leave s2 where l: "(if m \<noteq> None \<and> \<not> sq < 16 then (True, s1) else pb_suspended api s1) = (leave, s2)" by fastforce
  obtain sq3 buffer3 s3 where b: "warm_buffer api job ring i (sq, buffer, s2) = (sq3, buffer3, s3)" by (rule prod_cases3)
  obtain o4 jobs4 s4 where r: "run_jobs_once process (jobs, s3) = (o4, jobs4, s4)" by (metis prod_cases3)
  show ?case
  proof (cases "\<not> leave \<and> jobs \<noteq> [] \<and> \<not> now (Suc i) - now 0 > timeout \<and> o4 \<noteq> None")
    case True
    have "now 0 + int (Suc i) \<le> now (Suc i)" using assms(2) by (metis add_0)
    then have "0 < fuel" using True Suc.prems(1) by linarith
    then have "\<exists>res i' jobs' sq' buffer' s'. warm_send fuel api process now timeout job ring (Suc i) (sq3, buffer3, s4) jobs4 =
      Some (res, i', jobs', sq', buffer', s') \<and> res \<noteq> Some Warm_null
      \<and> (res = None \<longrightarrow> heard s' \<or> fst (pb_suspended api s'))" using Suc.prems by (intro Suc.IH) simp_all
    then show ?thesis using True st p l b r by auto
  next
    case False
    have "heard s2 \<or> fst (pb_suspended api s2)" if leave
    proof (cases "m \<noteq> None \<and> \<not> sq < 16")
      case True
      with l p keeps_messages_facts(1) [OF assms(1)] show ?thesis by auto
    next
      case no: False
      with l that have "pb_suspended api s1 = (True, s2)" by auto
      then show ?thesis using keeps_messages_facts(5) [OF assms(1)] by blast
    qed
    with False show ?thesis using st p l b r by auto
  qed
qed simp


text \<open>C24: warming up ends: while the system clock advances by at least a millisecond per reading, it returns
  within \<open>timeout\<close> rounds of either loop, for whatever the pool, the ring and the receiving core do, and it
  never reads through a null pointer for the last message, since a message once seen stays.\<close>

theorem warmup_returns:
  assumes "keeps_messages api process heard" and "\<forall>i j. now i + int j \<le> now (i + j)"
    and "timeout < int fuel" and "0 < fuel" and "tx_ring side 0 = Some ring"
  shows "\<exists>res jobs' s'. tx_job_warmup fuel api process now timeout job side jobs s = Some (res, jobs', s')
       \<and> res \<noteq> Warm_null"
proof -
  obtain res i jobs1 sq buffer s1 where
    send: "warm_send fuel api process now timeout job ring 0 (0, None, s) jobs = Some (res, i, jobs1, sq, buffer, s1)"
      "res \<noteq> Some Warm_null" "res = None \<longrightarrow> heard s1 \<or> fst (pb_suspended api s1)"
    using warm_send_returns [OF assms(1,2) _ assms(4), where i = 0 and timeout = timeout and job = job and ring = ring
        and st = "(0, None, s)" and jobs = jobs] assms(3) by (metis add_0)
  show ?thesis
  proof (cases res)
    case None
    then obtain res' jobs' s' where
      "warm_wait fuel api process now timeout (Suc i) (i + 2) sq jobs1 s1 = Some (res', jobs', s')" "res' \<noteq> Warm_null"
      using warm_wait_returns [OF assms(1,2), where timeout = timeout and k = "i + 2" and fuel = fuel and ?k0.0 = "Suc i"
          and s = s1 and sq = sq and jobs = jobs1] send(3) assms(3,4) by auto
    with None send(1) assms(5) show ?thesis by (simp add: tx_job_warmup_def)
  next
    case (Some r)
    with send(1,2) assms(5) show ?thesis by (simp add: tx_job_warmup_def)
  qed
qed

section \<open>Warming up keeps no buffer\<close>

definition probe_owner_ok :: "'s probe_api \<Rightarrow> ('j \<Rightarrow> 's \<Rightarrow> job_state option \<times> 's) \<Rightarrow> ('s \<Rightarrow> nat multiset) \<Rightarrow> bool" where
  "probe_owner_ok api process held \<longleftrightarrow>
     (\<forall>s b s'. pb_alloc api s = (b, s') \<longrightarrow> held s' = held s + mset (map buf_id (case b of None \<Rightarrow> [] | Some b \<Rightarrow> [b])))
   \<and> (\<forall>b s. held (pb_free api b s) = held s - {#buf_id b#})
   \<and> (\<forall>ring b s ok s'. pb_enque api ring b s = (ok, s') \<longrightarrow> held s' = (if ok then held s - {#buf_id b#} else held s))
   \<and> (\<forall>t b s ok s'. pb_tx_burst api t b s = (ok, s') \<longrightarrow> held s' = (if ok then held s - {#buf_id b#} else held s))
   \<and> (\<forall>s. held (snd (pb_last api s)) = held s \<and> held (snd (pb_suspended api s)) = held s
        \<and> held (snd (pb_clock api s)) = held s \<and> held (snd (pb_timer api s)) = held s \<and> held (pb_delay api s) = held s)
   \<and> (\<forall>j s. held (snd (process j s)) = held s)"

abbreviation buffer_ids :: "rte_mbuf option \<Rightarrow> nat multiset" where
  "buffer_ids buffer \<equiv> mset (map buf_id (case buffer of None \<Rightarrow> [] | Some b \<Rightarrow> [b]))"

lemma buf_id_prepare_warmup [simp]: "buf_id (prepare_warmup api flags n s b) = buf_id b"
  by (simp add: prepare_warmup_def prepare_packet_def prepare_packet_headers_def Let_def)


lemma probe_owner_facts:
  assumes "probe_owner_ok api process held"
  shows "pb_alloc api s = (b, s') \<Longrightarrow> held s' = held s + buffer_ids b"
    and "held (pb_free api b0 s) = held s - {#buf_id b0#}"
    and "pb_enque api ring b0 s = (ok, s') \<Longrightarrow> held s' = (if ok then held s - {#buf_id b0#} else held s)"
    and "pb_tx_burst api t b0 s = (ok, s') \<Longrightarrow> held s' = (if ok then held s - {#buf_id b0#} else held s)"
    and "pb_last api s = (m, s') \<Longrightarrow> held s' = held s" and "pb_suspended api s = (x, s') \<Longrightarrow> held s' = held s"
    and "pb_clock api s = (c, s') \<Longrightarrow> held s' = held s" and "pb_timer api s = (c, s') \<Longrightarrow> held s' = held s"
    and "held (pb_delay api s) = held s"
    and "run_jobs_once process (jobs, s) = (st, jobs', s') \<Longrightarrow> held s' = held s"
proof -
  have quiet: "held (snd (pb_last api s)) = held s \<and> held (snd (pb_suspended api s)) = held s
      \<and> held (snd (pb_clock api s)) = held s \<and> held (snd (pb_timer api s)) = held s \<and> held (pb_delay api s) = held s" for s
    using assms unfolding probe_owner_ok_def by blast
  show "pb_last api s = (m, s') \<Longrightarrow> held s' = held s" and "pb_suspended api s = (x, s') \<Longrightarrow> held s' = held s"
    and "pb_clock api s = (c, s') \<Longrightarrow> held s' = held s" and "pb_timer api s = (c, s') \<Longrightarrow> held s' = held s"
    and "held (pb_delay api s) = held s"
    using quiet [of s] by simp_all
  have "steady_jobs process (\<lambda>t. held t = h)" for h using assms by unfold_locales (simp add: probe_owner_ok_def)
  from steady_jobs.run_jobs_once_inv [OF this, of jobs s st jobs' s' "held s"]
  show "run_jobs_once process (jobs, s) = (st, jobs', s') \<Longrightarrow> held s' = held s" by simp
qed (use assms in \<open>unfold probe_owner_ok_def, blast\<close>)+

lemma warm_buffer_held:
  assumes "probe_owner_ok api process held" and "warm_buffer api job ring i (sq, buffer, s) = (sq', buffer', s')"
    and "held s = h + buffer_ids buffer"
  shows "held s' = h + buffer_ids buffer'"
proof -
  obtain a s1 where a: "pb_alloc api s = (a, s1)" by fastforce
  note facts = probe_owner_facts [OF assms(1)]
  have offer: "held s3 = h + buffer_ids (if ok then None else Some b)"
    if "pb_enque api ring b s2 = (ok, s3)" and "held s2 = h + {#buf_id b#}" for b s2 ok s3
    using facts(3) [OF that(1)] that(2) by simp
  show ?thesis
  proof (cases "i mod 16 = 0")
    case True
    show ?thesis
    proof (cases buffer)
      case None
      show ?thesis
      proof (cases a)
        case (Some b)
        then have "held s1 = h + {#buf_id (prepare_warmup api (sj_ol_flags job) (sj_payload_size job) (sq + 1) b)#}"
          using facts(1) [OF a] assms(3) None by simp
        then show ?thesis using assms(2) True None Some a offer
          by (auto simp: warm_buffer_def Let_def split: prod.splits)
      qed (use assms(2,3) True None a facts(1) [OF a] in \<open>simp add: warm_buffer_def\<close>)
    next
      case (Some b)
      then show ?thesis using assms(2,3) True offer by (auto simp: warm_buffer_def Let_def split: prod.splits)
    qed
  qed (use assms(2,3) in \<open>simp add: warm_buffer_def\<close>)
qed

lemma warm_send_held:
  assumes "probe_owner_ok api process held"
  shows "warm_send fuel api process now timeout job ring i (sq, buffer, s) jobs = Some (res, i', jobs', sq', buffer', s') \<Longrightarrow>
     held s = h + buffer_ids buffer \<Longrightarrow> held s' = h + buffer_ids buffer'"
proof (induction fuel arbitrary: i sq buffer s jobs)
  case (Suc fuel)
  note facts = probe_owner_facts [OF assms]
  obtain m s1 where p: "pb_last api s = (m, s1)" by fastforce
  obtain leave s2 where l: "(if m \<noteq> None \<and> \<not> sq < 16 then (True, s1) else pb_suspended api s1) = (leave, s2)" by fastforce
  obtain sq3 buffer3 s3 where b: "warm_buffer api job ring i (sq, buffer, s2) = (sq3, buffer3, s3)" by (rule prod_cases3)
  obtain o4 jobs4 s4 where r: "run_jobs_once process (jobs, s3) = (o4, jobs4, s4)" by (metis prod_cases3)
  have "held s2 = held s1" using l facts(6) [of s1] by (auto split: if_splits)
  then have h2: "held s2 = h + buffer_ids buffer" using facts(5) [OF p] Suc.prems(2) by simp
  have h3: "held s3 = h + buffer_ids buffer3" by (rule warm_buffer_held [OF assms b h2])
  then have h4: "held s4 = h + buffer_ids buffer3" using facts(10) [OF r] by simp
  show ?case
    using Suc.prems(1) p l b r h2 h3 h4 Suc.IH [OF _ h4] by (auto split: if_splits option.splits)
qed simp

lemma warm_wait_held:
  assumes "probe_owner_ok api process held"
  shows "warm_wait fuel api process now timeout k0 k sq jobs s = Some (res, jobs', s') \<Longrightarrow> held s' = held s"
proof (induction fuel arbitrary: k jobs s)
  case (Suc fuel)
  note facts = probe_owner_facts [OF assms]
  obtain stop s1 m s2 where p: "pb_suspended api s = (stop, s1)" "pb_last api s1 = (m, s2)" by fastforce
  obtain st jobs2 s3 where r: "run_jobs_once process (jobs, s2) = (st, jobs2, s3)" by (metis prod_cases3)
  show ?case
    using Suc.prems p r facts(5) [OF p(2)] facts(6) [OF p(1)] facts(10) [OF r] Suc.IH
    by (auto split: if_splits option.splits bool.splits)
qed simp

text \<open>C25: warming up leaves no buffer behind: the one it holds when it ends, in whatever way, is freed, and
  every other one was handed to the ring.\<close>

theorem warmup_conserves:
  assumes "probe_owner_ok api process held"
    and "tx_job_warmup fuel api process now timeout job side jobs s = Some (res, jobs', s')"
  shows "held s' = held s"
proof -
  obtain ring where ring: "tx_ring side 0 = Some ring" using assms(2) by (auto simp: tx_job_warmup_def split: option.splits)
  obtain r i jobs1 sq buffer s1 where
    send: "warm_send fuel api process now timeout job ring 0 (0, None, s) jobs = Some (r, i, jobs1, sq, buffer, s1)"
    using assms(2) ring by (auto simp: tx_job_warmup_def split: option.splits)
  have h1: "held s1 = held s + buffer_ids buffer" by (rule warm_send_held [OF assms(1) send]) simp
  have drop: "held (drop_buffer api buffer t) = held s" if "held t = held s1" for t
    using that h1 probe_owner_facts(2) [OF assms(1)] by (simp add: drop_buffer_def split: option.split)
  show ?thesis
    using assms(2) ring send drop warm_wait_held [OF assms(1)]
    by (auto simp: tx_job_warmup_def split: option.splits)
qed


text \<open>Buffers numbered upwards, a ring that takes them or not, and an echo of what it takes. The state is
  the next buffer, the last message and the buffers held.\<close>

definition echo :: "rte_mbuf \<Rightarrow> message_info" where
  "echo b = \<lparr>mi_seqn = seqn (from_offset (mem b) 42), mi_received_ts = 9, mi_enqueued_ts = 9\<rparr>"

definition example_probe :: "bool \<Rightarrow> (nat \<times> message_info option \<times> nat multiset) probe_api" where
  "example_probe accept =
     \<lparr>pb_alloc = (\<lambda>(k, m, h). (Some ((example_frame (\<lambda>_. 0) 0)\<lparr>buf_id := k\<rparr>), (Suc k, m, h + {#k#}))),
      pb_free = (\<lambda>b (k, m, h). (k, m, h - {#buf_id b#})),
      pb_enque = (\<lambda>_ b (k, m, h). if accept then (True, (k, Some (echo b), h - {#buf_id b#})) else (False, (k, m, h))),
      pb_tx_burst = (\<lambda>_ b (k, m, h). if accept then (True, (k, Some (echo b), h - {#buf_id b#})) else (False, (k, m, h))),
      pb_last = (\<lambda>(k, m, h). (m, (k, m, h))), pb_suspended = (\<lambda>s. (False, s)),
      pb_clock = (\<lambda>s. (Some 5, s)), pb_timer = (\<lambda>s. (Some 5, s)), pb_delay = (\<lambda>s. s),
      pb_udp_flag = 1, pb_phdr_cksum = (\<lambda>_. 0), pb_udp_cksum = (\<lambda>_. 0)\<rparr>"

definition idle_process :: "nat \<Rightarrow> 's \<Rightarrow> job_state option \<times> 's" where
  "idle_process j s = (Some Idling, s)"

definition example_ring :: tx_side where
  "example_ring = \<lparr>per_core_queue = (\<lambda>_. no_txq), tx_queues = 0, tx_jobs_n = 1, svc_tx_n = 1\<rparr>"

lemma example_probe_keeps: "keeps_messages (example_probe accept) idle_process (\<lambda>(_, m, _). m \<noteq> None)"
  by (simp add: keeps_messages_def example_probe_def idle_process_def)

lemma example_probe_owner: "probe_owner_ok (example_probe accept) idle_process (\<lambda>(_, _, h). h)"
  by (auto simp: probe_owner_ok_def example_probe_def idle_process_def example_frame_def)

theorem warmup_returns_witness:
  "\<exists>res jobs' s'. tx_job_warmup 6 (example_probe True) idle_process int 5 (make_send_job 2 0 3 0 14) example_ring [0] (0, None, {#}) =
     Some (res, jobs', s') \<and> res \<noteq> Warm_null"
  by (rule warmup_returns [OF example_probe_keeps, of int 5 6 example_ring 0])
    (simp_all add: example_ring_def tx_ring_def)

theorem warmup_conserves_witness:
  "\<exists>res jobs' s'. tx_job_warmup (Suc 0) (example_probe False) idle_process int (- 1) (make_send_job 2 0 3 0 14) example_ring [0]
     (0, None, {#}) = Some (res, jobs', s') \<and> snd (snd s') = {#}"
proof -
  obtain res jobs' s' where w: "tx_job_warmup (Suc 0) (example_probe False) idle_process int (- 1) (make_send_job 2 0 3 0 14)
      example_ring [0] (0, None, {#}) = Some (res, jobs', s')"
    by (auto simp: tx_job_warmup_def example_ring_def tx_ring_def warm_buffer_def example_probe_def)
  from warmup_conserves [OF example_probe_owner w] w show ?thesis by (cases s') auto
qed

end
