(* ===== verification/Sockperf_Latency.thy ===== *)
theory Sockperf_Latency
  imports Sockperf_Warmup
begin

text \<open>
  The latency test, \<open>latency_test_job\<close> of \<open>sockperf_cli/utils.cpp\<close>: one message at a time, sent with a
  warm-up number, and the time until the answer with the same number is seen. Samples are kept in an
  array of 1024 that is reported and emptied when it is full. They are nanoseconds here; the program
  converts them to microseconds for the report. \<open>la_log\<close> records for every message the answer that was
  accepted for it. The numbers of packets are below \<open>2^64 - 1\<close>.
\<close>

section \<open>The job\<close>

record latency_test_job =
  lj_packets2send :: nat
  lj_ol_flags :: u64
  lj_payload_size :: u64
  lj_disable_clock :: bool

text \<open>The members of the device that the job reads, two offload flags, and what
  \<open>rte_mbuf_dyn_rx_timestamp_register\<close> would return.\<close>

record latency_dev =
  ld_clock_enabled :: bool
  ld_clock_hz :: u64
  ld_rx_offloads :: u64
  ld_tx_offloads :: u64
  ld_rx_offload_timestamp :: u64
  ld_tx_offload_send_on_timestamp :: u64
  ld_register :: "u64 option"

record 's latency_state =
  la_seqn :: nat
  la_samples :: "int list"
  la_reports :: "int list list"
  la_log :: "(nat \<times> (message_info \<times> int) option) list"
  la_env :: 's

definition use_dev_clock :: "latency_test_job \<Rightarrow> latency_dev \<Rightarrow> bool" where
  "use_dev_clock job dev \<longleftrightarrow> \<not> lj_disable_clock job \<and> ld_clock_enabled dev
     \<and> ld_rx_offloads dev AND ld_rx_offload_timestamp dev = ld_rx_offload_timestamp dev"

definition tx_timestamp_flag :: "latency_test_job \<Rightarrow> latency_dev \<Rightarrow> u64" where
  "tx_timestamp_flag job dev =
     (if \<not> use_dev_clock job dev \<or> ld_tx_offloads dev AND ld_tx_offload_send_on_timestamp dev = 0 then 0
      else case ld_register dev of None \<Rightarrow> 0 | Some flag \<Rightarrow> flag)"

text \<open>Lines 197-205: the sending time, and the value written into the time stamp field of the buffer.\<close>

definition sending_time ::
  "'s probe_api \<Rightarrow> latency_test_job \<Rightarrow> latency_dev \<Rightarrow> 's \<Rightarrow> (u64 \<times> u64 option \<times> 's) option" where
  "sending_time api job dev s =
     (if use_dev_clock job dev then
        (case pb_clock api s of
           (None, s) \<Rightarrow> None
         | (Some t, s) \<Rightarrow>
             if tx_timestamp_flag job dev \<noteq> 0
             then map_option (\<lambda>ticks. (t + 10000, Some ticks, s)) (mul_div (t + 10000) (ld_clock_hz dev) NS_PER_S)
             else Some (t, None, s))
      else (case pb_timer api s of (None, s) \<Rightarrow> None | (Some t, s) \<Rightarrow> Some (t, None, s)))"

text \<open>The loop of lines 208-227; the result is the answer with its time, or nothing.\<close>

fun wait_answer ::
  "nat \<Rightarrow> 's probe_api \<Rightarrow> latency_test_job \<Rightarrow> latency_dev \<Rightarrow> u64 \<Rightarrow> 's \<Rightarrow> ((message_info \<times> u64) option \<times> 's) option" where
  "wait_answer i api job dev expected s =
     (case pb_suspended api s of
        (True, s) \<Rightarrow> Some (None, s)
      | (False, s) \<Rightarrow>
          (case pb_last api s of (m, s) \<Rightarrow>
             if map_option mi_seqn m = Some expected then
               map_option (\<lambda>t. (Some (the m, t), s))
                 (if use_dev_clock job dev then timestamp_fix (ld_clock_hz dev) (mi_received_ts (the m))
                  else Some (mi_enqueued_ts (the m)))
             else (case i of 0 \<Rightarrow> Some (None, s) | Suc i \<Rightarrow> wait_answer i api job dev expected (pb_delay api s))))"

declare wait_answer.simps [simp del]

text \<open>Lines 212-216: the array is reported and emptied before a sample is added to a full one.\<close>

abbreviation "max_samples \<equiv> 1024 :: nat"

definition add_sample :: "int \<Rightarrow> 's latency_state \<Rightarrow> 's latency_state" where
  "add_sample x st =
     (if length (la_samples st) = max_samples
      then st\<lparr>la_reports := la_reports st @ [la_samples st], la_samples := [x]\<rparr>
      else st\<lparr>la_samples := la_samples st @ [x]\<rparr>)"

definition answered :: "u64 \<Rightarrow> (message_info \<times> u64) option \<Rightarrow> 's latency_state \<Rightarrow> 's latency_state" where
  "answered sent_time a st =
     (case a of
        None \<Rightarrow> st\<lparr>la_log := la_log st @ [(la_seqn st, None)]\<rparr>
      | Some (msg, t) \<Rightarrow>
          (let x = sint (t - sent_time)
           in add_sample x (st\<lparr>la_log := la_log st @ [(la_seqn st, Some (msg, x))]\<rparr>)))"

text \<open>The body of the loop, lines 195-232.\<close>

definition latency_round ::
  "'s probe_api \<Rightarrow> latency_test_job \<Rightarrow> latency_dev \<Rightarrow> 's latency_state \<Rightarrow> 's latency_state option" where
  "latency_round api job dev st =
     (case pb_alloc api (la_env st) of
        (None, s) \<Rightarrow> Some (st\<lparr>la_env := s\<rparr>)
      | (Some b, s) \<Rightarrow>
          (let b = prepare_warmup api (lj_ol_flags job OR tx_timestamp_flag job dev) (lj_payload_size job)
                     (of_nat (la_seqn st)) b
           in case sending_time api job dev s of
                None \<Rightarrow> None
              | Some (sent_time, tx_ticks, s) \<Rightarrow>
                  (case pb_tx_burst api tx_ticks b s of
                     (False, s) \<Rightarrow> Some (st\<lparr>la_env := pb_free api b s\<rparr>)
                   | (True, s) \<Rightarrow>
                       map_option (\<lambda>(a, s). (answered sent_time a st)\<lparr>la_seqn := la_seqn st + 1, la_env := s\<rparr>)
                         (wait_answer (nat (snd (retry 500))) api job dev (warmup (of_nat (la_seqn st))) s))))"

fun latency_loop ::
  "nat \<Rightarrow> 's probe_api \<Rightarrow> latency_test_job \<Rightarrow> latency_dev \<Rightarrow> 's latency_state \<Rightarrow> 's latency_state option" where
  "latency_loop 0 api job dev st = None"
| "latency_loop (Suc fuel) api job dev st =
     (if la_seqn st < lj_packets2send job + 1 then
        (case pb_suspended api (la_env st) of
           (True, s) \<Rightarrow> Some (st\<lparr>la_env := s\<rparr>)
         | (False, s) \<Rightarrow>
             (case latency_round api job dev (st\<lparr>la_env := s\<rparr>) of
                None \<Rightarrow> None
              | Some st \<Rightarrow> latency_loop fuel api job dev st))
      else Some st)"

text \<open>The last samples are reported when the loop is left.\<close>

definition latency_process ::
  "nat \<Rightarrow> 's probe_api \<Rightarrow> latency_test_job \<Rightarrow> latency_dev \<Rightarrow> 's \<Rightarrow> (job_state \<times> 's latency_state) option" where
  "latency_process fuel api job dev s =
     map_option (\<lambda>st. (Done, st\<lparr>la_reports := la_reports st @ [la_samples st]\<rparr>))
       (latency_loop fuel api job dev \<lparr>la_seqn = 1, la_samples = [], la_reports = [], la_log = [], la_env = s\<rparr>)"

section \<open>Samples and their messages\<close>

definition log_samples :: "(nat \<times> (message_info \<times> int) option) list \<Rightarrow> int list" where
  "log_samples log = concat (map (\<lambda>(_, a). case a of None \<Rightarrow> [] | Some (_, x) \<Rightarrow> [x]) log)"

definition latency_inv :: "'s latency_state \<Rightarrow> bool" where
  "latency_inv st \<longleftrightarrow> 1 \<le> la_seqn st \<and> map fst (la_log st) = [1..<la_seqn st]
     \<and> (\<forall>k msg x. (k, Some (msg, x)) \<in> set (la_log st) \<longrightarrow> mi_seqn msg = warmup (of_nat k))
     \<and> concat (la_reports st) @ la_samples st = log_samples (la_log st)
     \<and> (\<forall>r \<in> set (la_reports st). length r = max_samples) \<and> length (la_samples st) \<le> max_samples"

lemma wait_answer_seqn:
  "wait_answer i api job dev expected s = Some (Some (msg, t), s') \<Longrightarrow> mi_seqn msg = expected"
proof (induction i arbitrary: s)
  case 0
  then show ?case
    by (auto simp: wait_answer.simps [of 0] split: prod.splits bool.splits if_splits option.splits)
next
  case (Suc i)
  then show ?case
    by (auto simp: wait_answer.simps [of "Suc i"] split: prod.splits bool.splits if_splits option.splits)
qed

lemma answered_inv:
  assumes "latency_inv st" and "\<forall>msg t. a = Some (msg, t) \<longrightarrow> mi_seqn msg = warmup (of_nat (la_seqn st))"
  shows "latency_inv ((answered sent_time a st)\<lparr>la_seqn := la_seqn st + 1, la_env := s\<rparr>)"
proof (cases a)
  case None
  then show ?thesis using assms by (auto simp: latency_inv_def answered_def log_samples_def)
next
  case (Some p)
  obtain msg t where "p = (msg, t)" by fastforce
  with Some assms show ?thesis
    by (auto simp: latency_inv_def answered_def add_sample_def log_samples_def Let_def)
qed

lemma latency_round_inv:
  assumes "latency_inv st" and "latency_round api job dev st = Some st'"
  shows "latency_inv st'"
proof -
  have "latency_inv (st\<lparr>la_env := s\<rparr>)" for s using assms(1) by (simp add: latency_inv_def)
  moreover have "latency_inv ((answered t a st)\<lparr>la_seqn := Suc (la_seqn st), la_env := s\<rparr>)"
    if "wait_answer i api job dev (warmup (of_nat (la_seqn st))) s0 = Some (a, s)" for t a s i s0
    using answered_inv [OF assms(1), where a = a and sent_time = t and s = s] that by (auto dest: wait_answer_seqn)
  ultimately show ?thesis
    using assms(2) by (auto simp: latency_round_def Let_def split: prod.splits option.splits bool.splits)
qed

lemma latency_loop_inv:
  "latency_loop fuel api job dev st = Some st' \<Longrightarrow> latency_inv st \<Longrightarrow> latency_inv st'"
proof (induction fuel arbitrary: st)
  case (Suc fuel)
  have env: "latency_inv (st\<lparr>la_env := s\<rparr>)" for s using Suc.prems(2) by (simp add: latency_inv_def)
  with Suc show ?case
    by (auto split: if_splits prod.splits bool.splits option.splits dest: latency_round_inv [OF env])
qed simp


lemma latency_round_seqn: "latency_round api job dev st = Some st' \<Longrightarrow> la_seqn st' \<le> Suc (la_seqn st)"
  by (auto simp: latency_round_def Let_def split: prod.splits option.splits bool.splits)

lemma latency_loop_seqn:
  "latency_loop fuel api job dev st = Some st' \<Longrightarrow> la_seqn st \<le> lj_packets2send job + 1 \<Longrightarrow>
     la_seqn st' \<le> lj_packets2send job + 1"
proof (induction fuel arbitrary: st)
  case (Suc fuel)
  then show ?case
    by (auto split: if_splits prod.splits bool.splits option.splits) (fastforce dest: latency_round_seqn)
qed simp

lemma latency_samples_lemma:
  assumes "latency_process fuel api job dev s = Some (r, st)"
  shows "map fst (la_log st) = [1..<la_seqn st] \<and> la_seqn st \<le> lj_packets2send job + 1
       \<and> (\<forall>k msg x. (k, Some (msg, x)) \<in> set (la_log st) \<longrightarrow> mi_seqn msg = warmup (of_nat k))
       \<and> concat (la_reports st) = log_samples (la_log st) \<and> (\<forall>r \<in> set (la_reports st). length r \<le> max_samples)"
proof -
  let ?st = "\<lparr>la_seqn = 1, la_samples = [], la_reports = [], la_log = [], la_env = s\<rparr>"
  obtain st1 where st1: "latency_loop fuel api job dev ?st = Some st1"
    "st = st1\<lparr>la_reports := la_reports st1 @ [la_samples st1]\<rparr>"
    using assms by (auto simp: latency_process_def)
  have "latency_inv ?st" by (simp add: latency_inv_def log_samples_def)
  then have "latency_inv st1" by (rule latency_loop_inv [OF st1(1)])
  moreover have "la_seqn st1 \<le> lj_packets2send job + 1" by (rule latency_loop_seqn [OF st1(1)]) simp
  ultimately show ?thesis using st1(2) by (auto simp: latency_inv_def)
qed

text \<open>What goes out: \<open>wire\<close> reads off the environment the packets that the device accepted, in order; only a burst that is
  accepted adds one.\<close>

definition wire_ok :: "'s probe_api \<Rightarrow> ('s \<Rightarrow> rte_mbuf list) \<Rightarrow> bool" where
  "wire_ok api wire \<longleftrightarrow>
     (\<forall>t b s ok s'. pb_tx_burst api t b s = (ok, s') \<longrightarrow> wire s' = (if ok then wire s @ [b] else wire s))
   \<and> (\<forall>s. wire (snd (pb_alloc api s)) = wire s \<and> wire (snd (pb_last api s)) = wire s
        \<and> wire (snd (pb_suspended api s)) = wire s \<and> wire (snd (pb_clock api s)) = wire s
        \<and> wire (snd (pb_timer api s)) = wire s \<and> wire (pb_delay api s) = wire s)
   \<and> (\<forall>b s. wire (pb_free api b s) = wire s)"

lemma wire_keeps:
  assumes "wire_ok api wire"
  shows "pb_alloc api s = (x1, s') \<Longrightarrow> wire s' = wire s" and "pb_last api s = (x2, s') \<Longrightarrow> wire s' = wire s"
    and "pb_suspended api s = (x3, s') \<Longrightarrow> wire s' = wire s" and "pb_clock api s = (x4, s') \<Longrightarrow> wire s' = wire s"
    and "pb_timer api s = (x4, s') \<Longrightarrow> wire s' = wire s" and "wire (pb_delay api s) = wire s" and "wire (pb_free api b s) = wire s"
    and "pb_tx_burst api t b s = (ok, s') \<Longrightarrow> wire s' = (if ok then wire s @ [b] else wire s)"
  using assms unfolding wire_ok_def by (metis snd_conv)+

lemma sending_time_wire:
  assumes "wire_ok api wire" and "sending_time api job dev s = Some (t, ticks, s')"
  shows "wire s' = wire s"
  using assms(2) wire_keeps(4,5) [OF assms(1)]
  by (auto simp: sending_time_def split: if_splits prod.splits option.splits)

lemma wait_answer_wire:
  assumes "wire_ok api wire"
  shows "wait_answer i api job dev expected s = Some (a, s') \<Longrightarrow> wire s' = wire s"
proof (induction i arbitrary: s)
  case 0
  then show ?case using wire_keeps(2,3) [OF assms]
    by (auto simp: wait_answer.simps [of 0] split: prod.splits bool.splits if_splits option.splits)
next
  case (Suc i)
  then show ?case using wire_keeps(2,3,6) [OF assms]
    by (auto simp: wait_answer.simps [of "Suc i"] split: prod.splits bool.splits if_splits option.splits)
qed

text \<open>The packets on the wire carry the numbers of the messages so far.\<close>

definition wire_inv :: "('s \<Rightarrow> rte_mbuf list) \<Rightarrow> rte_mbuf list \<Rightarrow> 's latency_state \<Rightarrow> bool" where
  "wire_inv wire w0 st \<longleftrightarrow> 1 \<le> la_seqn st \<and> (\<exists>sent. wire (la_env st) = w0 @ sent
     \<and> map packet_seqn sent = map (\<lambda>k. warmup (of_nat k)) [1..<la_seqn st])"

lemma latency_round_wire:
  assumes "wire_ok api wire" and "wire_inv wire w0 st" and "latency_round api job dev st = Some st'"
  shows "wire_inv wire w0 st'"
proof -
  have ans: "la_seqn ((answered t a st)\<lparr>la_seqn := k, la_env := s\<rparr>) = k" "la_env ((answered t a st)\<lparr>la_seqn := k, la_env := s\<rparr>) = s" for t a k s
    by simp_all
  obtain b s1 where al: "pb_alloc api (la_env st) = (b, s1)" by fastforce
  show ?thesis
  proof (cases b)
    case None
    then show ?thesis using assms al wire_keeps(1) [OF assms(1) al] by (auto simp: latency_round_def wire_inv_def)
  next
    case (Some b)
    let ?b = "prepare_warmup api (lj_ol_flags job OR tx_timestamp_flag job dev) (lj_payload_size job) (of_nat (la_seqn st)) b"
    obtain t ticks s2 where st: "sending_time api job dev s1 = Some (t, ticks, s2)"
      using assms(3) al Some by (auto simp: latency_round_def Let_def split: option.splits)
    obtain ok s3 where tx: "pb_tx_burst api ticks ?b s2 = (ok, s3)" by fastforce
    have w2: "wire s2 = wire (la_env st)" using wire_keeps(1) [OF assms(1) al] sending_time_wire [OF assms(1) st] by simp
    have w3: "wire s3 = (if ok then wire (la_env st) @ [?b] else wire (la_env st))" using wire_keeps(8) [OF assms(1) tx] w2 by simp
    show ?thesis
    proof (cases ok)
      case False
      then show ?thesis
        using assms(2,3) al Some st tx w3 wire_keeps(7) [OF assms(1)] by (auto simp: latency_round_def Let_def wire_inv_def)
    next
      case True
      then obtain a s4 where wa: "wait_answer (nat (snd (retry 500))) api job dev (warmup (of_nat (la_seqn st))) s3 = Some (a, s4)"
        and st': "st' = (answered t a st)\<lparr>la_seqn := la_seqn st + 1, la_env := s4\<rparr>"
        using assms(3) al Some st tx by (auto simp: latency_round_def Let_def)
      have w4: "wire s4 = wire (la_env st) @ [?b]" using wait_answer_wire [OF assms(1) wa] w3 True by simp
      have "packet_seqn ?b = warmup (of_nat (la_seqn st))" by (simp add: prepare_warmup_def packet_seqn_prepared)
      then show ?thesis using assms(2) w4 unfolding wire_inv_def st' ans by (auto simp: map_append)
    qed
  qed
qed

lemma latency_loop_wire:
  assumes "wire_ok api wire"
  shows "latency_loop fuel api job dev st = Some st' \<Longrightarrow> wire_inv wire w0 st \<Longrightarrow> wire_inv wire w0 st'"
proof (induction fuel arbitrary: st)
  case (Suc fuel)
  have env: "wire_inv wire w0 (st\<lparr>la_env := s\<rparr>)" if "pb_suspended api (la_env st) = (x, s)" for x s
    using Suc.prems(2) wire_keeps(3) [OF assms that] by (simp add: wire_inv_def)
  with Suc show ?case
    by (auto split: if_splits prod.splits bool.splits option.splits dest: latency_round_wire [OF assms env])
qed simp

text \<open>C18: every sample of the latency test belongs to its own message: the packets that go out carry the warm-up numbers
  1, 2, 3, ... without gaps and at most as many as asked for, a sample is taken only from an answer that carries the number of the packet
  just sent, and the reports contain all samples, in order and each once, at most 1024 at a time.\<close>

theorem latency_samples:
  assumes "latency_process fuel api job dev s = Some (r, st)" and "wire_ok api wire"
  shows "\<exists>sent. wire (la_env st) = wire s @ sent \<and> length sent \<le> lj_packets2send job
       \<and> map packet_seqn sent = map (\<lambda>k. warmup (of_nat k)) [1..<Suc (length sent)]
       \<and> map fst (la_log st) = [1..<Suc (length sent)]
       \<and> (\<forall>k msg x. (k, Some (msg, x)) \<in> set (la_log st) \<longrightarrow> mi_seqn msg = packet_seqn (sent ! (k - 1)))
       \<and> concat (la_reports st) = log_samples (la_log st) \<and> (\<forall>r \<in> set (la_reports st). length r \<le> max_samples)"
proof -
  note log = latency_samples_lemma [OF assms(1)]
  let ?st = "\<lparr>la_seqn = 1, la_samples = [], la_reports = [], la_log = [], la_env = s\<rparr>"
  obtain st1 where st1: "latency_loop fuel api job dev ?st = Some st1"
    "st = st1\<lparr>la_reports := la_reports st1 @ [la_samples st1]\<rparr>"
    using assms(1) by (auto simp: latency_process_def)
  have "wire_inv wire (wire s) ?st" by (simp add: wire_inv_def)
  then have "wire_inv wire (wire s) st1" by (rule latency_loop_wire [OF assms(2) st1(1)])
  then obtain sent where sent: "wire (la_env st) = wire s @ sent" "1 \<le> la_seqn st"
    "map packet_seqn sent = map (\<lambda>k. warmup (of_nat k)) [1..<la_seqn st]"
    using st1(2) by (auto simp: wire_inv_def)
  have n: "la_seqn st = Suc (length sent)" using arg_cong [OF sent(3), of length] sent(2) by simp
  have own: "mi_seqn msg = packet_seqn (sent ! (k - 1))" if "(k, Some (msg, x)) \<in> set (la_log st)" for k msg x
  proof -
    have "k \<in> set [1..<Suc (length sent)]" using that log n by (metis fst_conv image_eqI list.set_map)
    then have k: "1 \<le> k" "k - 1 < length sent" by auto
    then have "packet_seqn (sent ! (k - 1)) = map packet_seqn sent ! (k - 1)" by simp
    also have "\<dots> = warmup (of_nat k)" using k unfolding sent(3) n by (simp del: upt_Suc)
    finally show ?thesis using that log by metis
  qed
  show ?thesis
    by (rule exI [of _ sent]) (use sent n log own in auto)
qed

section \<open>The test ends\<close>

text \<open>A pool that does not run dry, a device that accepts the packet, and clocks that can be read.\<close>

definition probe_ready :: "'s probe_api \<Rightarrow> bool" where
  "probe_ready api \<longleftrightarrow> (\<forall>s. fst (pb_alloc api s) \<noteq> None \<and> fst (pb_clock api s) \<noteq> None \<and> fst (pb_timer api s) \<noteq> None)
     \<and> (\<forall>t b s. fst (pb_tx_burst api t b s))"

lemma wait_answer_returns:
  assumes "ld_clock_hz dev \<noteq> 0"
  shows "\<exists>a s'. wait_answer i api job dev expected s = Some (a, s')"
proof (induction i arbitrary: s)
  case 0
  then show ?case using assms
    by (auto simp: wait_answer.simps [of 0] timestamp_fix_def mul_div_def Let_def split: prod.splits bool.splits)
next
  case (Suc i)
  then show ?case using assms
    by (auto simp: wait_answer.simps [of "Suc i"] timestamp_fix_def mul_div_def Let_def split: prod.splits bool.splits)
qed

lemma sending_time_returns: "probe_ready api \<Longrightarrow> \<exists>t ticks s'. sending_time api job dev s = Some (t, ticks, s')"
proof -
  assume "probe_ready api"
  then have "fst (pb_clock api s) \<noteq> None" "fst (pb_timer api s) \<noteq> None" unfolding probe_ready_def by blast+
  then obtain t s1 t' s1' where "pb_clock api s = (Some t, s1)" "pb_timer api s = (Some t', s1')"
    by (metis option.exhaust prod.collapse)
  then show ?thesis by (simp add: sending_time_def mul_div_def Let_def)
qed

lemma latency_round_returns:
  assumes "probe_ready api" and "ld_clock_hz dev \<noteq> 0"
  shows "\<exists>st'. latency_round api job dev st = Some st' \<and> la_seqn st' = Suc (la_seqn st)"
proof -
  have "fst (pb_alloc api (la_env st)) \<noteq> None" using assms(1) unfolding probe_ready_def by blast
  then obtain b s1 where a: "pb_alloc api (la_env st) = (Some b, s1)" by (metis option.exhaust prod.collapse)
  obtain t ticks s2 where t: "sending_time api job dev s1 = Some (t, ticks, s2)"
    using sending_time_returns [OF assms(1)] by blast
  have tx: "fst (pb_tx_burst api ticks b s2)" for b using assms(1) unfolding probe_ready_def by blast
  then obtain s3 where s3: "pb_tx_burst api ticks (prepare_warmup api (lj_ol_flags job OR tx_timestamp_flag job dev)
      (lj_payload_size job) (of_nat (la_seqn st)) b) s2 = (True, s3)" by (metis (full_types) prod.collapse)
  obtain a s4 where "wait_answer (nat (snd (retry 500))) api job dev (warmup (of_nat (la_seqn st))) s3 = Some (a, s4)"
    using wait_answer_returns [OF assms(2)] by metis
  with a t s3 show ?thesis by (simp add: latency_round_def)
qed

lemma latency_loop_returns:
  assumes "probe_ready api" and "ld_clock_hz dev \<noteq> 0"
  shows "lj_packets2send job + 1 - la_seqn st < fuel \<Longrightarrow> \<exists>st'. latency_loop fuel api job dev st = Some st'
     \<and> (lj_packets2send job + 1 \<le> la_seqn st' \<or> (\<exists>s. fst (pb_suspended api s)))"
proof (induction fuel arbitrary: st)
  case (Suc fuel)
  obtain stop s where p: "pb_suspended api (la_env st) = (stop, s)" by fastforce
  obtain st1 where st1: "latency_round api job dev (st\<lparr>la_env := s\<rparr>) = Some st1" "la_seqn st1 = Suc (la_seqn st)"
    using latency_round_returns [OF assms, of job "st\<lparr>la_env := s\<rparr>"] by auto
  show ?case
  proof (cases "la_seqn st < lj_packets2send job + 1 \<and> \<not> stop")
    case True
    then show ?thesis using p st1 Suc.IH [of st1] Suc.prems by auto
  next
    case False
    then show ?thesis using p by (auto intro: exI [of _ "la_env st"])
  qed
qed simp

lemma latency_finishes_lemma:
  assumes "probe_ready api" and "ld_clock_hz dev \<noteq> 0" and "lj_packets2send job < fuel"
  shows "\<exists>st. latency_process fuel api job dev s = Some (Done, st)
       \<and> (la_seqn st = lj_packets2send job + 1 \<or> (\<exists>s. fst (pb_suspended api s)))"
proof -
  let ?st = "\<lparr>la_seqn = 1, la_samples = [], la_reports = [], la_log = [], la_env = s\<rparr>"
  obtain st where st: "latency_loop fuel api job dev ?st = Some st"
    "lj_packets2send job + 1 \<le> la_seqn st \<or> (\<exists>s. fst (pb_suspended api s))"
    using latency_loop_returns [OF assms(1,2), of job ?st fuel] assms(3) by auto
  moreover have "la_seqn st \<le> lj_packets2send job + 1" by (rule latency_loop_seqn [OF st(1)]) simp
  ultimately show ?thesis by (auto simp: latency_process_def)
qed

text \<open>C26: the latency test ends, whatever answers arrive: each message is waited for at most six times, so
  that with a pool and a device that take part all messages are sent, unless the stop flag is set.\<close>

theorem latency_finishes:
  assumes "probe_ready api" and "ld_clock_hz dev \<noteq> 0" and "lj_packets2send job < fuel"
  shows "\<exists>st. latency_process fuel api job dev s = Some (Done, st)
       \<and> (la_seqn st = lj_packets2send job + 1 \<or> (\<exists>s. fst (pb_suspended api s)))"
  using assms by (rule latency_finishes_lemma)

text \<open>A message without a hardware time stamp carries the enqueue time, in nanoseconds, as its
  \<open>received_ts\<close>; with the device clock in use the job converts it as if it were ticks.\<close>

theorem latency_mixes_units:
  assumes "use_dev_clock job dev" and "pb_suspended api s = (False, s1)" and "pb_last api s1 = (Some msg, s2)"
    and "mi_seqn msg = expected" and "mi_received_ts msg = mi_enqueued_ts msg"
  shows "wait_answer i api job dev expected s =
     map_option (\<lambda>t. (Some (msg, t), s2)) (mul_div (mi_enqueued_ts msg) NS_PER_S (ld_clock_hz dev))"
  using assms by (simp add: wait_answer.simps [of i] timestamp_fix_def)

definition example_dev :: "bool \<Rightarrow> latency_dev" where
  "example_dev clock = \<lparr>ld_clock_enabled = clock, ld_clock_hz = 500000000, ld_rx_offloads = 1, ld_tx_offloads = 0,
      ld_rx_offload_timestamp = 1, ld_tx_offload_send_on_timestamp = 2, ld_register = None\<rparr>"

definition example_latency :: latency_test_job where
  "example_latency = \<lparr>lj_packets2send = 2, lj_ol_flags = 0, lj_payload_size = 14, lj_disable_clock = False\<rparr>"

lemma example_probe_ready: "probe_ready (example_probe True)"
  by (simp add: probe_ready_def example_probe_def)

theorem latency_finishes_witness:
  "\<exists>st. latency_process 3 (example_probe True) example_latency (example_dev False) (0, None, {#}) = Some (Done, st)
     \<and> la_seqn st = 3"
  using latency_finishes [OF example_probe_ready, of "example_dev False" example_latency 3 "(0, None, {#})"]
  by (simp add: example_dev_def example_latency_def example_probe_def)

text \<open>A device that keeps what it accepted, and answers at once.\<close>

definition taping_probe :: "(message_info option \<times> rte_mbuf list) probe_api" where
  "taping_probe =
     \<lparr>pb_alloc = (\<lambda>s. (Some (example_frame (\<lambda>_. 0) 0), s)), pb_free = (\<lambda>_ s. s), pb_enque = (\<lambda>_ _ s. (False, s)),
      pb_tx_burst = (\<lambda>_ b (m, w). (True, (Some (echo b), w @ [b]))),
      pb_last = (\<lambda>s. (fst s, s)), pb_suspended = (\<lambda>s. (False, s)),
      pb_clock = (\<lambda>s. (Some 5, s)), pb_timer = (\<lambda>s. (Some 5, s)), pb_delay = (\<lambda>s. s),
      pb_udp_flag = 1, pb_phdr_cksum = (\<lambda>_. 0), pb_udp_cksum = (\<lambda>_. 0)\<rparr>"

lemma taping_ok: "wire_ok taping_probe snd" "probe_ready taping_probe"
  by (auto simp: wire_ok_def probe_ready_def taping_probe_def)

theorem latency_samples_witness:
  "\<exists>st. latency_process 3 taping_probe example_latency (example_dev False) (None, []) = Some (Done, st)
     \<and> map packet_seqn (snd (la_env st)) = [warmup 1, warmup 2] \<and> concat (la_reports st) = log_samples (la_log st)"
proof -
  have "\<exists>st. latency_process 3 taping_probe example_latency (example_dev False) (None, []) = Some (Done, st)
      \<and> (la_seqn st = lj_packets2send example_latency + 1 \<or> (\<exists>s. fst (pb_suspended taping_probe s)))"
    by (rule latency_finishes_lemma [OF taping_ok(2)]) (simp_all add: example_dev_def example_latency_def)
  then obtain st where st: "latency_process 3 taping_probe example_latency (example_dev False) (None, []) = Some (Done, st)"
    "la_seqn st = 3"
    by (auto simp: taping_probe_def example_latency_def)
  obtain sent where s: "snd (la_env st) = sent" "map packet_seqn sent = map (\<lambda>k. warmup (of_nat k)) [1..<Suc (length sent)]"
    "map fst (la_log st) = [1..<Suc (length sent)]" "concat (la_reports st) = log_samples (la_log st)"
    using latency_samples [OF st(1) taping_ok(1)] by auto
  have l: "map fst (la_log st) = [1..<3]" using latency_samples_lemma [OF st(1)] st(2) by simp
  have "length sent = 2" using arg_cong [OF s(3), of length] arg_cong [OF l, of length] by (simp del: upt_Suc)
  with s st(1) show ?thesis by (auto simp: upt_rec)
qed

theorem latency_mixes_units_witness:
  "wait_answer 0 (example_probe True) example_latency (example_dev True) 7
     (0, Some \<lparr>mi_seqn = 7, mi_received_ts = 9, mi_enqueued_ts = 9\<rparr>, {#}) =
   Some (Some (\<lparr>mi_seqn = 7, mi_received_ts = 9, mi_enqueued_ts = 9\<rparr>, 18),
     (0, Some \<lparr>mi_seqn = 7, mi_received_ts = 9, mi_enqueued_ts = 9\<rparr>, {#}))"
  using latency_mixes_units [of example_latency "example_dev True" "example_probe True" "(0, Some \<lparr>mi_seqn = 7, mi_received_ts = 9, mi_enqueued_ts = 9\<rparr>, {#})"]
  by (simp add: use_dev_clock_def example_dev_def example_latency_def example_probe_def mul_div_def)

end
