(* ===== verification/Sockperf_Report.thy ===== *)
theory Sockperf_Report
  imports Sockperf_Latency
begin

text \<open>
  The figures the benchmark reports: \<open>dump_latencies\<close> of \<open>sockperf_cli/utils.cpp\<close>, which summarises the samples of
  the latency test, and the rate that \<open>tx_job::process\<close> prints at the end of the throughput test. The type \<open>'d\<close>
  stands for \<open>double\<close>: its values are ordered, and the operations that round, the standard \<open>std::midpoint\<close>, and
  \<open>mode\<close> of Boost are fields of \<open>double_api\<close>. A report is the tuple of values that the log line contains.
\<close>

section \<open>Latencies\<close>

record 'd double_api =
  d_of_ns :: "int \<Rightarrow> 'd"
  d_zero :: 'd
  d_add :: "'d \<Rightarrow> 'd \<Rightarrow> 'd"
  d_div :: "'d \<Rightarrow> nat \<Rightarrow> 'd"
  d_midpoint :: "'d \<Rightarrow> 'd \<Rightarrow> 'd"
  d_mode :: "'d list \<Rightarrow> 'd list"
  d_string :: "'d \<Rightarrow> string"

record 'd latency_report =
  lr_average :: 'd
  lr_median :: 'd
  lr_modes :: string
  lr_min :: 'd
  lr_max :: 'd
  lr_count :: nat
  lr_packet_size :: nat
  lr_payload_size :: nat

text \<open>Lines 154-162: the modes with a comma behind each, less the last character.\<close>

definition modes_txt :: "('d \<Rightarrow> string) \<Rightarrow> 'd list \<Rightarrow> string" where
  "modes_txt to_s modes = butlast (foldl (\<lambda>l r. l @ to_s r @ '','') [] modes)"

definition dump_latencies :: "'d::linorder double_api \<Rightarrow> nat \<Rightarrow> 'd list \<Rightarrow> 'd latency_report option" where
  "dump_latencies ops bytes latencies =
     (if latencies = [] then None
      else
        (let latencies = sort latencies;
             half = length latencies div 2;
             median = (if half * 2 = length latencies then d_midpoint ops (latencies ! (half - 1)) (latencies ! half)
                       else latencies ! half);
             average = d_div ops (foldl (d_add ops) (d_zero ops) latencies) (length latencies)
         in Some \<lparr>lr_average = average, lr_median = median, lr_modes = modes_txt (d_string ops) (d_mode ops latencies),
                  lr_min = hd latencies, lr_max = last latencies, lr_count = length latencies,
                  lr_packet_size = packet_size bytes, lr_payload_size = bytes\<rparr>))"

text \<open>What the latency test prints in the end.\<close>

definition latency_reports :: "'d::linorder double_api \<Rightarrow> latency_test_job \<Rightarrow> 's latency_state \<Rightarrow> 'd latency_report list" where
  "latency_reports ops job st =
     List.map_filter (\<lambda>xs. dump_latencies ops (unat (lj_payload_size job)) (map (d_of_ns ops) xs)) (la_reports st)"

section \<open>A summary\<close>

text \<open>\<open>m\<close> is a median of the list: at most half of it lies on either side.\<close>

definition is_median :: "'d::linorder \<Rightarrow> 'd list \<Rightarrow> bool" where
  "is_median m xs \<longleftrightarrow> 2 * length (filter (\<lambda>x. x < m) xs) \<le> length xs \<and> 2 * length (filter (\<lambda>x. m < x) xs) \<le> length xs"

definition summarises :: "'d::linorder list \<Rightarrow> 'd latency_report \<Rightarrow> bool" where
  "summarises xs rep \<longleftrightarrow> xs \<noteq> [] \<and> lr_min rep = Min (set xs) \<and> lr_max rep = Max (set xs)
     \<and> is_median (lr_median rep) xs \<and> lr_count rep = length xs"

text \<open>\<open>std::midpoint\<close> lies between its arguments.\<close>

definition midpoint_ok :: "'d::linorder double_api \<Rightarrow> bool" where
  "midpoint_ok ops \<longleftrightarrow> (\<forall>a b. a \<le> b \<longrightarrow> a \<le> d_midpoint ops a b \<and> d_midpoint ops a b \<le> b)"

lemma length_filter_sort: "length (filter P (sort xs)) = length (filter P (xs :: 'd::linorder list))"
  by (metis mset_filter mset_sort size_mset)

lemma sorted_below:
  assumes "sorted ys" and "i \<le> length ys" and "\<forall>j. i \<le> j \<longrightarrow> j < length ys \<longrightarrow> m \<le> ys ! j"
  shows "length (filter (\<lambda>x. x < m) ys) \<le> i"
proof -
  have "filter (\<lambda>x. x < m) (drop i ys) = []"
    using assms(3) by (auto simp: filter_empty_conv in_set_conv_nth not_less)
  then have "filter (\<lambda>x. x < m) ys = filter (\<lambda>x. x < m) (take i ys)"
    by (metis append_Nil2 append_take_drop_id filter_append)
  then show ?thesis by (metis length_filter_le length_take min.bounded_iff)
qed

lemma sorted_above:
  assumes "sorted ys" and "i \<le> length ys" and "\<forall>j < i. ys ! j \<le> m"
  shows "length (filter (\<lambda>x. m < x) ys) \<le> length ys - i"
proof -
  have "filter (\<lambda>x. m < x) (take i ys) = []"
    using assms(3) by (auto simp: filter_empty_conv in_set_conv_nth not_less)
  then have "filter (\<lambda>x. m < x) ys = filter (\<lambda>x. m < x) (drop i ys)"
    by (metis append_Nil append_take_drop_id filter_append)
  then show ?thesis by (metis length_drop length_filter_le)
qed

lemma sorted_median:
  assumes "sorted ys" and "ys \<noteq> []" and "midpoint_ok ops" and "half = length ys div 2"
    and "m = (if half * 2 = length ys then d_midpoint ops (ys ! (half - 1)) (ys ! half) else ys ! half)"
  shows "is_median m ys"
proof -
  have half: "half < length ys" using assms(2,4) by (cases ys) auto
  have mono: "ys ! i \<le> ys ! j" if "i \<le> j" "j < length ys" for i j using assms(1) that by (rule sorted_nth_mono)
  have upper: "m \<le> ys ! half"
    using assms(3,5) mono [of "half - 1" half] half by (auto simp: midpoint_ok_def)
  have below: "length (filter (\<lambda>x. x < m) ys) \<le> half"
  proof (intro sorted_below [OF assms(1)] allI impI)
    show "half \<le> length ys" using half by simp
    show "m \<le> ys ! j" if "half \<le> j" "j < length ys" for j using upper mono [OF that] by simp
  qed
  have above: "length (filter (\<lambda>x. m < x) ys) \<le> length ys - (if half * 2 = length ys then half else half + 1)"
  proof (intro sorted_above [OF assms(1)] allI impI)
    fix j assume j: "j < (if half * 2 = length ys then half else half + 1)"
    show "ys ! j \<le> m"
    proof (cases "half * 2 = length ys")
      case True
      with j have "ys ! j \<le> ys ! (half - 1)" using mono half by simp
      also have "\<dots> \<le> m" using assms(3,5) True mono [of "half - 1" half] half by (simp add: midpoint_ok_def)
      finally show ?thesis .
    qed (use j mono half assms(5) in simp)
  qed (use half in simp)
  show ?thesis unfolding is_median_def using below above assms(4) by (auto split: if_splits)
qed

lemma sorted_ends:
  assumes "sorted ys" and "ys \<noteq> []"
  shows "hd ys = Min (set ys)" and "last ys = Max (set ys)"
proof -
  have "ys ! 0 \<le> y \<and> y \<le> ys ! (length ys - 1)" if y: "y \<in> set ys" for y
  proof -
    obtain i where "i < length ys" "y = ys ! i" using y by (auto simp: in_set_conv_nth)
    then show ?thesis using sorted_nth_mono [OF assms(1)] by auto
  qed
  then show "hd ys = Min (set ys)" "last ys = Max (set ys)"
    using assms(2) by (auto simp: hd_conv_nth last_conv_nth intro!: Min_eqI [symmetric] Max_eqI [symmetric])
qed

lemma dump_latencies_summarises:
  assumes "dump_latencies ops bytes xs = Some rep" and "midpoint_ok ops"
  shows "summarises xs rep"
proof -
  have ne: "xs \<noteq> []" "sort xs \<noteq> []" using assms(1) by (auto simp: dump_latencies_def split: if_splits) (metis mset_sort mset_zero_iff)
  have rep: "lr_min rep = hd (sort xs)" "lr_max rep = last (sort xs)" "lr_count rep = length xs"
    "lr_median rep = (if length (sort xs) div 2 * 2 = length (sort xs)
       then d_midpoint ops (sort xs ! (length (sort xs) div 2 - 1)) (sort xs ! (length (sort xs) div 2)) else sort xs ! (length (sort xs) div 2))"
    using assms(1) by (auto simp: dump_latencies_def Let_def split: if_splits)
  have "is_median (lr_median rep) (sort xs)" by (rule sorted_median [OF sorted_sort ne(2) assms(2) refl rep(4)])
  then have "is_median (lr_median rep) xs" by (simp add: is_median_def length_filter_sort)
  then show ?thesis
    using ne rep sorted_ends [OF sorted_sort ne(2)] by (simp add: summarises_def)
qed

text \<open>Every block of samples that is not empty has its report.\<close>

lemma map_filter_blocks:
  assumes "\<And>xs. f xs = None \<longleftrightarrow> xs = []"
  shows "list_all2 (\<lambda>xs rep. f xs = Some rep) (filter (\<lambda>xs. xs \<noteq> []) xss) (List.map_filter f xss)"
proof (induction xss)
  case (Cons xs xss)
  then show ?case using assms [of xs] by (cases "f xs") (simp_all add: List.map_filter_simps)
qed (simp add: List.map_filter_simps)

lemma concat_filter_nonempty: "concat (filter (\<lambda>xs. xs \<noteq> []) xss) = concat xss"
  by (induction xss) auto

text \<open>C19: the reports of the latency test cover every sample once: the samples, in the order in which they were taken, are divided into
  blocks of at most 1024, there is one report for each block, in the same order, and it gives the smallest, the largest, a median and the
  number of the samples of its block.\<close>

theorem latency_reports_correct:
  assumes "latency_process fuel api job dev s = Some (r, st)" and "midpoint_ok ops"
  shows "\<exists>blocks. concat blocks = log_samples (la_log st)
       \<and> list_all2 (\<lambda>xs rep. length xs \<le> max_samples \<and> summarises (map (d_of_ns ops) xs) rep) blocks (latency_reports ops job st)"
proof -
  have log: "concat (la_reports st) = log_samples (la_log st)" "\<forall>r \<in> set (la_reports st). length r \<le> max_samples"
    using latency_samples_lemma [OF assms(1)] by simp_all
  let ?f = "\<lambda>xs. dump_latencies ops (unat (lj_payload_size job)) (map (d_of_ns ops) xs)"
  let ?blocks = "filter (\<lambda>xs. xs \<noteq> []) (la_reports st)"
  have "list_all2 (\<lambda>xs rep. ?f xs = Some rep) ?blocks (latency_reports ops job st)"
    unfolding latency_reports_def by (rule map_filter_blocks) (simp add: dump_latencies_def Let_def)
  then have "list_all2 (\<lambda>xs rep. length xs \<le> max_samples \<and> summarises (map (d_of_ns ops) xs) rep) ?blocks (latency_reports ops job st)"
    by (rule list.rel_mono_strong) (use log(2) dump_latencies_summarises [OF _ assms(2)] in auto)
  then show ?thesis using log(1) by (intro exI [of _ ?blocks]) (simp add: concat_filter_nonempty)
qed

definition int_ops :: "int double_api" where
  "int_ops = \<lparr>d_of_ns = (\<lambda>x. x), d_zero = 0, d_add = (+), d_div = (\<lambda>x n. x div int n), d_midpoint = (\<lambda>a b. (a + b) div 2),
     d_mode = (\<lambda>xs. xs), d_string = (\<lambda>_. ''0'')\<rparr>"

theorem latency_reports_correct_witness:
  "\<exists>st blocks. latency_process 3 taping_probe example_latency (example_dev False) (None, []) = Some (Done, st)
     \<and> concat blocks = log_samples (la_log st)
     \<and> list_all2 (\<lambda>xs rep. length xs \<le> max_samples \<and> summarises xs rep) blocks (latency_reports int_ops example_latency st)"
proof -
  obtain st where st: "latency_process 3 taping_probe example_latency (example_dev False) (None, []) = Some (Done, st)"
    using latency_finishes_lemma [OF taping_ok(2), of "example_dev False" example_latency 3 "(None, [])"]
    by (auto simp: example_dev_def example_latency_def)
  have "midpoint_ok int_ops" by (auto simp: midpoint_ok_def int_ops_def)
  from latency_reports_correct [OF st this] st show ?thesis by (auto simp: int_ops_def)
qed

text \<open>The modes are separated by commas.\<close>

lemma modes_txt_join: "modes_txt to_s (m # ms) = concat (map (\<lambda>x. to_s x @ '','') (butlast (m # ms))) @ to_s (last (m # ms))"
proof -
  have f: "foldl (\<lambda>l r. l @ to_s r @ '','') l xs = l @ concat (map (\<lambda>x. to_s x @ '','') xs)" for l xs
    by (induction xs arbitrary: l) simp_all
  have "concat (map (\<lambda>x. to_s x @ '','') (m # ms)) =
      concat (map (\<lambda>x. to_s x @ '','') (butlast (m # ms))) @ to_s (last (m # ms)) @ '',''"
    by (subst append_butlast_last_id [of "m # ms", symmetric]) (simp_all only: list.distinct map_append concat_append, simp_all)
  then show ?thesis unfolding modes_txt_def f by (simp add: butlast_append)
qed

section \<open>The rate of a sender\<close>

text \<open>Lines 286-292: the number of packets per second in the log line of \<open>tx_job::process\<close>, and the bytes.\<close>

definition send_rate :: "u64 \<Rightarrow> u64 \<Rightarrow> u64" where
  "send_rate s dev_dur = s * 1000000000 div (if dev_dur = 0 then 1 else dev_dur)"

definition bytes_sent :: "u64 \<Rightarrow> u64 \<Rightarrow> u64" where
  "bytes_sent s n = s * (42 + n)"

text \<open>The sender reports more packets than it sent: its sequence number starts at 1, and it also counts the
  packets that it still holds; the figure itself is exact as long as the product fits into 64 bits.\<close>

theorem send_rate_overcounts:
  assumes "send_api_ok api" and "job = make_send_job burst queue_id packets flags n"
    and "send_loop fuel tries api junk job (send_start job buffers ts r) = Some s"
    and "ss_seqn s * 1000000000 < 2 ^ 64" and "dev_dur \<noteq> 0"
  shows "unat (send_rate (of_nat (ss_seqn s)) dev_dur) =
           (length (ss_sent s) + ss_offset s + 1) * 1000000000 div unat dev_dur"
proof -
  have "numbered job (send_start job buffers ts r)"
    using assms(2) by (simp add: numbered_def send_start_def make_send_job_def Let_def unat_gt_0)
  then have num: "numbered job s" using send_loop_numbered [OF assms(1) _ assms(3)] by blast
  then have "size (mset (map packet_seqn (ss_sent s)) + mset (map packet_seqn (take (ss_offset s) (ss_buffers s)))) =
      size (mset (map (\<lambda>k. make_seqn (sj_queue_id job) (of_nat k)) [2..<Suc (ss_seqn s)]))"
    unfolding numbered_def by metis
  then have "length (ss_sent s) + ss_offset s = ss_seqn s - 1"
    using num by (auto simp: numbered_def simp del: upt_Suc split: if_splits)
  moreover have "1 \<le> ss_seqn s" using num by (simp add: numbered_def)
  ultimately have "length (ss_sent s) + ss_offset s + 1 = ss_seqn s" by simp
  moreover have "unat (of_nat (ss_seqn s) * 1000000000 :: u64) = ss_seqn s * 1000000000"
    using assms(4) by (simp add: unat_word_ariths unat_of_nat_mod)
  ultimately show ?thesis using assms(5) by (simp add: send_rate_def unat_div)
qed

end
