(* ===== verification/Sockperf_Run.thy ===== *)
theory Sockperf_Run
  imports Sockets Sockperf_Pool Config
begin

text \<open>
  The benchmark driver \<open>run\<close> of \<open>sockperf_cli/sockperf.cpp\<close> with the scope guard \<open>job_sentry\<close> of
  \<open>dpdkx/jobs.{hpp,cpp}\<close>: which jobs are launched on which cores in which order, when the jobs are told to
  stop, which cores are waited for, and the early returns. What the called operations report is a
  \<open>run_input\<close>; an exception of a call is a \<open>None\<close> or a \<open>False\<close> there and ends \<open>run\<close> like an early return, since
  \<open>main\<close> catches it after the guard has acted. The result is the list of actions in order.
\<close>

section \<open>Actions\<close>

datatype run_event =
    Launch_rx nat nat
  | Launch_latency nat
  | Launch_sender nat nat
  | Run_latency
  | Run_sender nat
  | Warm_up
  | Delay
  | Wait_core nat
  | Stop_jobs
  | Wait_all
  | Evaluate

text \<open>\<open>ri_channel_ok\<close>: \<open>make_rx_channel\<close> throws no exception. \<open>ri_mac_ok\<close>: the address was given and parsed, or resolved. \<open>ri_device\<close>: the numbers of receive and
  transmit jobs of the device that was built and started, for given queue counts. \<open>ri_waiting k\<close>: the
  receiving core is idle at the \<open>k\<close>-th look at it.\<close>

record run_input =
  ri_address_ok :: bool
  ri_devices :: "(string + device_config list)"
  ri_sockets :: "socket list"
  ri_cores :: "nat list"
  ri_main_core :: nat
  ri_txq :: u16
  ri_device :: "dev_queues \<Rightarrow> (nat \<times> nat) option"
  ri_throughput :: u64
  ri_latency :: u64
  ri_payload_size :: u64
  ri_channel_ok :: bool
  ri_mac_ok :: bool
  ri_pool_ok :: bool
  ri_no_warmup :: bool
  ri_warmup_ok :: bool
  ri_wait_for :: int
  ri_waiting :: "nat \<Rightarrow> bool"
  ri_received :: nat

section \<open>The tests\<close>

definition latency_events :: "nat \<Rightarrow> nat list \<Rightarrow> nat \<Rightarrow> run_event list" where
  "latency_events main_core cores n_rx =
     (if last cores = main_core then [Run_latency]
      else [Launch_latency (cores ! n_rx), Wait_core (cores ! n_rx)])"

text \<open>Lines 258-266: waiting for the receiver, with the retries of \<open>dpdkx::retry\<close>.\<close>

fun receive_wait :: "nat \<Rightarrow> nat \<Rightarrow> (nat \<Rightarrow> bool) \<Rightarrow> run_event list" where
  "receive_wait retries k waiting =
     (if waiting k then []
      else case retries of 0 \<Rightarrow> [Stop_jobs] | Suc retries \<Rightarrow> Delay # receive_wait retries (Suc k) waiting)"

declare receive_wait.simps [simp del]

definition throughput_events :: "run_input \<Rightarrow> nat list \<Rightarrow> nat \<Rightarrow> nat \<Rightarrow> run_event list" where
  "throughput_events inp cores n_rx n_send =
     (let (launches, self) = send_launches (ri_main_core inp) cores n_rx n_send
      in map (\<lambda>(j, c). Launch_sender j c) launches
         @ (case self of Some j \<Rightarrow> [Run_sender j] | None \<Rightarrow> [])
         @ map (\<lambda>(j, c). Wait_core c) launches
         @ receive_wait (nat (snd (retry (ri_wait_for inp)))) 0 (ri_waiting inp))"

text \<open>Lines 228-289.\<close>

definition test_events :: "run_input \<Rightarrow> test_plan \<Rightarrow> nat list \<Rightarrow> nat \<Rightarrow> nat \<Rightarrow> run_event list" where
  "test_events inp plan cores n_rx n_tx =
     (if tp_latency plan \<noteq> 0 then latency_events (ri_main_core inp) cores n_rx else [])
     @ (if tp_throughput plan \<noteq> 0 then throughput_events inp cores n_rx n_tx else [])
     @ [Stop_jobs] @ map Wait_core (take n_rx cores) @ (if ri_received inp \<noteq> 0 then [Evaluate] else [])"

section \<open>The driver\<close>

text \<open>\<open>job_sentry::~job_sentry\<close>.\<close>

definition job_sentry :: "run_event list" where
  "job_sentry = [Stop_jobs, Wait_all]"

text \<open>Lines 159-289, with the guard that acts whenever the function is left.\<close>

definition run_jobs_phase :: "run_input \<Rightarrow> test_plan \<Rightarrow> nat list \<Rightarrow> nat \<Rightarrow> nat \<Rightarrow> run_event list" where
  "run_jobs_phase inp plan cores n_rx n_tx =
     (if \<not> ri_channel_ok inp then [] else map (\<lambda>(j, c). Launch_rx j c) (rx_launches cores n_rx))
     @ (if \<not> ri_channel_ok inp \<or> \<not> ri_mac_ok inp \<or> \<not> ri_pool_ok inp then []
        else if min (length cores - n_rx) n_tx < n_tx then []
        else if ri_no_warmup inp then test_events inp plan cores n_rx n_tx
        else Warm_up # (if ri_warmup_ok inp then test_events inp plan cores n_rx n_tx else []))
     @ job_sentry"

text \<open>The queue counts of a device configuration that \<open>run\<close> adjusts.\<close>

definition config_queues :: "device_config \<Rightarrow> dev_queues" where
  "config_queues c = \<lparr>dq_rx = pc_nb_queues (di_rxportconf (dc_info c)), dq_tx = pc_nb_queues (di_txportconf (dc_info c)),
     dq_socket_id = dc_socket_id c\<rparr>"

definition run :: "run_input \<Rightarrow> run_event list" where
  "run inp =
     (if \<not> ri_address_ok inp then []
      else case ri_devices inp of
        Inl e \<Rightarrow> []
      | Inr [] \<Rightarrow> []
      | Inr (c # _) \<Rightarrow>
          (case choose_socket (dc_socket_id c) (ri_sockets inp) of
             None \<Rightarrow> []
           | Some s \<Rightarrow>
               (let cores = span_of (ri_cores inp) s
                in case plan_queues (length cores) (ri_txq inp) (adjust_to_socket (ri_cores inp) s (config_queues c)) of
                     None \<Rightarrow> []
                   | Some q \<Rightarrow>
                       (case ri_device inp q of
                          None \<Rightarrow> []
                        | Some (n_rx, n_tx) \<Rightarrow>
                            run_jobs_phase inp
                              (plan_tests (pc_burst_size (di_txportconf (dc_info c))) (ri_throughput inp) (ri_latency inp) (ri_payload_size inp))
                              cores n_rx n_tx))))"

section \<open>Orderly runs\<close>

text \<open>
  The discipline of cores, checked along the list of actions. \<open>C\<close> are the cores that may be used, \<open>rc\<close> are the cores that run a receive job,
  \<open>tc\<close> those that run a sender or the latency test, which end by themselves. A core gets a job only when it is
  free, and never the main core \<open>m\<close>, which runs the driver. A core with a receive job is waited for only after
  the stop flag was set, for otherwise the wait may never end. The statistics are evaluated only when no core
  runs a job, and none runs one at the end.
\<close>

fun orderly :: "nat set \<Rightarrow> nat \<Rightarrow> nat set \<Rightarrow> nat set \<Rightarrow> bool \<Rightarrow> run_event list \<Rightarrow> bool" where
  "orderly C m rc tc stopped [] = (rc = {} \<and> tc = {})"
| "orderly C m rc tc stopped (ev # evs) =
     (case ev of
        Launch_rx j c \<Rightarrow> c \<in> C - ({m} \<union> rc \<union> tc) \<and> \<not> stopped \<and> orderly C m (insert c rc) tc stopped evs
      | Launch_latency c \<Rightarrow> c \<in> C - ({m} \<union> rc \<union> tc) \<and> \<not> stopped \<and> orderly C m rc (insert c tc) stopped evs
      | Launch_sender j c \<Rightarrow> c \<in> C - ({m} \<union> rc \<union> tc) \<and> \<not> stopped \<and> orderly C m rc (insert c tc) stopped evs
      | Wait_core c \<Rightarrow> (c \<in> rc \<longrightarrow> stopped) \<and> orderly C m (rc - {c}) (tc - {c}) stopped evs
      | Stop_jobs \<Rightarrow> orderly C m rc tc True evs
      | Wait_all \<Rightarrow> (rc = {} \<or> stopped) \<and> orderly C m {} {} stopped evs
      | Evaluate \<Rightarrow> rc = {} \<and> tc = {} \<and> orderly C m rc tc stopped evs
      | _ \<Rightarrow> orderly C m rc tc stopped evs)"

lemma orderly_rx_launches:
  "distinct (map snd ls) \<Longrightarrow> snd ` set ls \<inter> ({m} \<union> rc \<union> tc) = {} \<Longrightarrow> snd ` set ls \<subseteq> C \<Longrightarrow>
     orderly C m rc tc False (map (\<lambda>(j, c). Launch_rx j c) ls @ evs) = orderly C m (rc \<union> snd ` set ls) tc False evs"
  by (induction ls arbitrary: rc) auto

lemma orderly_sender_launches:
  "distinct (map snd ls) \<Longrightarrow> snd ` set ls \<inter> ({m} \<union> rc \<union> tc) = {} \<Longrightarrow> snd ` set ls \<subseteq> C \<Longrightarrow>
     orderly C m rc tc False (map (\<lambda>(j, c). Launch_sender j c) ls @ evs) = orderly C m rc (tc \<union> snd ` set ls) False evs"
  by (induction ls arbitrary: tc) auto

lemma orderly_waits:
  "stopped \<or> rc \<inter> set cs = {} \<Longrightarrow>
     orderly C m rc tc stopped (map Wait_core cs @ evs) = orderly C m (rc - set cs) (tc - set cs) stopped evs"
proof (induction cs arbitrary: rc tc)
  case (Cons c cs)
  have "rc - {c} - set cs = rc - set (c # cs)" "tc - {c} - set cs = tc - set (c # cs)" by auto
  with Cons show ?case by auto
qed simp

text \<open>Waiting for the receiver sets the stop flag or leaves it.\<close>

lemma orderly_receive_wait:
  "(\<And>stopped. orderly C m rc tc stopped evs) \<Longrightarrow> orderly C m rc tc False (receive_wait retries k waiting @ evs)"
proof (induction retries arbitrary: k)
  case 0
  then show ?case by (simp add: receive_wait.simps [of 0])
next
  case (Suc retries)
  then show ?case by (simp add: receive_wait.simps [of "Suc retries"])
qed

lemma orderly_finish:
  "orderly C m (set cs) {} stopped (Stop_jobs # map Wait_core cs @ (if received \<noteq> 0 then [Evaluate] else []) @ job_sentry)"
  by (simp add: orderly_waits job_sentry_def)

text \<open>Cores of a socket: the main core is the last one if it is there at all.\<close>

lemma main_not_early:
  assumes "distinct cores" and "m \<in> set cores \<longrightarrow> last cores = m" and "n + (if last cores = m then 1 else 0) \<le> length cores"
  shows "m \<notin> set (take n cores)"
proof
  assume "m \<in> set (take n cores)"
  then obtain i where i: "i < n" "i < length cores" "cores ! i = m" by (auto simp: in_set_conv_nth)
  then have "last cores = m" using assms(2) nth_mem by blast
  then have "cores ! (length cores - 1) = m" using i(2) by (subst last_conv_nth [symmetric]) auto
  then have "i = length cores - 1" using assms(1) i by (metis diff_less less_nat_zero_code nat_neq_iff nth_eq_iff_index_eq zero_less_one)
  with i assms(3) \<open>last cores = m\<close> show False by simp
qed

lemma send_launches_cores:
  assumes "distinct cores" and "m \<in> set cores \<longrightarrow> last cores = m" and "n_rx + n_tx \<le> length cores" and "0 < n_tx"
    and "send_launches m cores n_rx n_tx = (ls, self)"
  shows "distinct (map snd ls)" and "snd ` set ls \<inter> ({m} \<union> set (take n_rx cores)) = {}"
    and "snd ` set ls \<subseteq> set cores"
proof -
  let ?k = "if last cores = m then n_tx - 1 else n_tx"
  have ls: "map snd ls = take ?k (drop n_rx cores)"
    using assms(3,5) by (auto simp: send_launches_def Let_def map_snd_zip_take min_def)
  show "distinct (map snd ls)" unfolding ls using assms(1) by simp
  have "m \<notin> set (take (n_rx + ?k) cores)" using assms by (intro main_not_early) auto
  then have "m \<notin> set (map snd ls)" unfolding ls by (simp add: take_add)
  moreover have "set (take n_rx cores) \<inter> set (map snd ls) = {}"
    unfolding ls using set_take_disj_set_drop_if_distinct [OF assms(1), of n_rx n_rx] by (auto dest: in_set_takeD)
  ultimately show "snd ` set ls \<inter> ({m} \<union> set (take n_rx cores)) = {}" by auto
  have "set (map snd ls) \<subseteq> set cores" unfolding ls by (auto dest: in_set_takeD in_set_dropD)
  then show "snd ` set ls \<subseteq> set cores" by simp
qed


lemma orderly_latency:
  assumes "distinct cores" and "m \<in> set cores \<longrightarrow> last cores = m" and "n_rx < length cores"
    and "orderly C m (set (take n_rx cores)) {} False evs"
    and "set cores \<subseteq> C"
  shows "orderly C m (set (take n_rx cores)) {} False (latency_events m cores n_rx @ evs)"
proof (cases "last cores = m")
  case True
  then show ?thesis using assms(4) by (simp add: latency_events_def)
next
  case False
  have "cores ! n_rx \<notin> set (take n_rx cores)"
    using assms(1,3) by (auto simp: in_set_conv_nth nth_eq_iff_index_eq)
  moreover have "cores ! n_rx \<noteq> m" using False assms(2,3) nth_mem by blast
  moreover have "cores ! n_rx \<in> C" using assms(3,5) nth_mem by blast
  ultimately show ?thesis using False assms(4) by (simp add: latency_events_def)
qed

lemma orderly_throughput:
  assumes "distinct cores" and "ri_main_core inp \<in> set cores \<longrightarrow> last cores = ri_main_core inp"
    and "n_rx + n_tx \<le> length cores" and "0 < n_tx"
    and "\<And>stopped. orderly C (ri_main_core inp) (set (take n_rx cores)) {} stopped evs" and "set cores \<subseteq> C"
  shows "orderly C (ri_main_core inp) (set (take n_rx cores)) {} False (throughput_events inp cores n_rx n_tx @ evs)"
proof -
  let ?m = "ri_main_core inp" and ?R = "set (take n_rx cores)"
  obtain ls self where l: "send_launches ?m cores n_rx n_tx = (ls, self)" by fastforce
  note c = send_launches_cores [OF assms(1-4) l]
  let ?tail = "receive_wait (nat (snd (retry (ri_wait_for inp)))) 0 (ri_waiting inp) @ evs"
  have waits: "map (\<lambda>(j, c). Wait_core c) ls = map Wait_core (map snd ls)" by (simp add: case_prod_beta comp_def)
  have "orderly C ?m ?R {} False ?tail" by (rule orderly_receive_wait) (rule assms(5))
  then have "orderly C ?m ?R (snd ` set ls) False (map Wait_core (map snd ls) @ ?tail)"
    using c(2) by (subst orderly_waits) (auto simp: Diff_triv Int_commute)
  then have "orderly C ?m ?R (snd ` set ls) False
      ((case self of Some j \<Rightarrow> [Run_sender j] | None \<Rightarrow> []) @ map Wait_core (map snd ls) @ ?tail)"
    by (simp split: option.split)
  then show ?thesis
    using c(1,2) subset_trans [OF c(3) assms(6)] by (simp add: throughput_events_def l waits orderly_sender_launches del: map_map)
qed

lemma run_jobs_phase_orderly:
  assumes "distinct cores" and "ri_main_core inp \<in> set cores \<longrightarrow> last cores = ri_main_core inp"
    and "n_rx + n_tx \<le> length cores" and "0 < n_tx" and "set cores \<subseteq> C"
  shows "orderly C (ri_main_core inp) {} {} False (run_jobs_phase inp plan cores n_rx n_tx)"
proof -
  let ?m = "ri_main_core inp" and ?R = "set (take n_rx cores)"
  let ?fin = "Stop_jobs # map Wait_core (take n_rx cores) @ (if ri_received inp \<noteq> 0 then [Evaluate] else []) @ job_sentry"
  have fin: "orderly C ?m ?R {} stopped ?fin" for stopped by (rule orderly_finish)
  have thr: "orderly C ?m ?R {} False ((if tp_throughput plan \<noteq> 0 then throughput_events inp cores n_rx n_tx else []) @ ?fin)"
    using orderly_throughput [OF assms(1-4) fin assms(5)] fin by simp
  have tests: "orderly C ?m ?R {} False (test_events inp plan cores n_rx n_tx @ job_sentry)"
    using orderly_latency [OF assms(1,2) _ thr assms(5)] thr assms(3,4) by (simp add: test_events_def)
  have sentry: "orderly C ?m ?R {} False job_sentry" by (simp add: job_sentry_def)
  have rx: "map snd (rx_launches cores n_rx) = take n_rx cores"
    using assms(3) by (simp add: rx_launches_def map_snd_zip_take min_def)
  then have R: "snd ` set (rx_launches cores n_rx) = ?R" by (metis list.set_map)
  have "?m \<notin> ?R" using assms by (intro main_not_early) auto
  then have "orderly C ?m {} {} False (map (\<lambda>(j, c). Launch_rx j c) (rx_launches cores n_rx) @ evs) = orderly C ?m ?R {} False evs" for evs
    using assms(1,5) rx R by (subst orderly_rx_launches) (auto dest: in_set_takeD)
  then show ?thesis using tests sentry by (simp add: run_jobs_phase_def) (simp add: job_sentry_def)
qed

text \<open>The cores \<open>run\<close> may use: those of the socket of the first device, or of the first socket if that has none.\<close>

definition run_cores :: "(nat \<Rightarrow> nat) \<Rightarrow> nat list \<Rightarrow> run_input \<Rightarrow> nat set" where
  "run_cores to_socket lcores inp =
     (case ri_devices inp of
        Inr (c # _) \<Rightarrow> {l \<in> set lcores. to_socket l = run_socket to_socket lcores (dc_socket_id c)}
      | _ \<Rightarrow> {})"

text \<open>C4: the driver keeps the discipline of cores on every path, for every machine, all options and whatever
  the called operations report, provided the device has a transmit job and no more jobs than queues: jobs are launched
  only on free cores of the socket of the device, or of the first socket if the device is on none, and
  never on the main core; no receive job is waited for before the jobs were told to stop, the statistics are
  evaluated when no job runs, and on every exit, early returns and exceptions included, no job is left running.\<close>

theorem run_orderly:
  assumes "socket_configuration to_socket (ri_main_core inp) lcores = (ri_sockets inp, ri_cores inp)"
    and "distinct lcores" and "ri_main_core inp \<in> set lcores"
    and "\<forall>q n_rx n_tx. ri_device inp q = Some (n_rx, n_tx) \<longrightarrow> n_rx \<le> unat (dq_rx q) \<and> n_tx \<le> unat (dq_tx q) \<and> 0 < n_tx"
  shows "orderly (run_cores to_socket lcores inp) (ri_main_core inp) {} {} False (run inp)"
proof -
  have phase: "orderly {l \<in> set lcores. to_socket l = run_socket to_socket lcores i} (ri_main_core inp) {} {} False (run_jobs_phase inp plan (span_of (ri_cores inp) s) n_rx n_tx)"
    if s: "choose_socket i (ri_sockets inp) = Some s" and q: "plan_queues (length (span_of (ri_cores inp) s)) txq q0 = Some q"
      and d: "ri_device inp q = Some (n_rx, n_tx)" for i s txq q0 q n_rx n_tx plan
  proof (rule run_jobs_phase_orderly)
    note mem = choose_socket_mem [OF s]
    have mset: "mset (span_of (ri_cores inp) s) = mset (filter (\<lambda>l. to_socket l = sk_socket_id s) lcores)"
      using socket_span(1) [OF assms(1) mem] .
    then show "distinct (span_of (ri_cores inp) s)" using assms(2) by (metis distinct_filter mset_eq_imp_distinct_iff)
    show "ri_main_core inp \<in> set (span_of (ri_cores inp) s) \<longrightarrow> last (span_of (ri_cores inp) s) = ri_main_core inp"
      using mset_eq_setD [OF mset] socket_span(2) [OF assms(1) mem assms(3)] by auto
    show "n_rx + n_tx \<le> length (span_of (ri_cores inp) s)" "0 < n_tx"
      using plan_queues_fits [OF q] assms(4) d by fastforce+
    show "set (span_of (ri_cores inp) s) \<subseteq> {l \<in> set lcores. to_socket l = run_socket to_socket lcores i}"
      using mset_eq_setD [OF mset] choose_socket_id [OF assms(1) s] by auto
  qed
  then show ?thesis
    unfolding run_def run_cores_def Let_def by (auto split: sum.split list.split option.split)
qed


text \<open>Three cores on one socket, one receive and two transmit jobs, both tests; the receiver needs one more
  look.\<close>

definition example_ports :: portconf where
  "example_ports = \<lparr>pc_nb_queues = 1, pc_burst_size = 32, pc_ring_size = 0\<rparr>"

definition example_config :: device_config where
  "example_config = default_device 0 0 [2, 0, 0, 0, 0, 1] \<lparr>di_driver_name = ''net_x'', di_max_rx_queues = 4, di_max_tx_queues = 4,
     di_rx_offload_capa = 0, di_tx_offload_capa = 0, di_rxportconf = example_ports, di_txportconf = example_ports\<rparr> 0"

definition example_input :: run_input where
  "example_input = \<lparr>ri_address_ok = True, ri_devices = Inr [example_config],
     ri_sockets = [\<lparr>sk_socket_id = 0, sk_offset = 0, sk_size = 3\<rparr>], ri_cores = [2, 1, 0], ri_main_core = 0, ri_txq = 2,
     ri_device = (\<lambda>q. if dq_tx q = 0 then None else Some (unat (dq_rx q), unat (dq_tx q))), ri_throughput = 0, ri_latency = 0,
     ri_payload_size = 14, ri_channel_ok = True, ri_mac_ok = True, ri_pool_ok = True, ri_no_warmup = False, ri_warmup_ok = True,
     ri_wait_for = 300, ri_waiting = (\<lambda>k. 0 < k), ri_received = 7\<rparr>"

theorem run_orderly_witness:
  "orderly {0, 1, 2} 0 {} {} False (run example_input)
   \<and> run example_input = [Launch_rx 0 2, Warm_up, Run_latency, Launch_sender 0 1, Run_sender 1, Wait_core 1, Delay,
        Stop_jobs, Wait_core 2, Evaluate, Stop_jobs, Wait_all]"
proof -
  have c: "socket_configuration (\<lambda>_. 0) 0 [0, 1, 2] = ([\<lparr>sk_socket_id = 0, sk_offset = 0, sk_size = 3\<rparr>], [2, 1, 0])"
    by code_simp
  have "orderly (run_cores (\<lambda>_. 0) [0, 1, 2] example_input) (ri_main_core example_input) {} {} False (run example_input)"
    by (rule run_orderly [of "\<lambda>_. 0" example_input "[0, 1, 2]"])
      (simp_all add: example_input_def c unat_gt_0 del: One_nat_def split: if_splits)
  moreover have "run example_input = [Launch_rx 0 2, Warm_up, Run_latency, Launch_sender 0 1, Run_sender 1, Wait_core 1, Delay,
        Stop_jobs, Wait_core 2, Evaluate, Stop_jobs, Wait_all]"
    by (simp add: run_def example_input_def example_config_def default_device_def example_ports_def choose_socket_def
        span_of_def adjust_to_socket_def plan_queues_def config_queues_def run_jobs_phase_def rx_launches_def
        test_events_def latency_events_def throughput_events_def send_launches_def plan_tests_def
        default_latency_n_packets_def default_throughput_n_packets_def header_size_def retry_def
        receive_wait.simps job_sentry_def Let_def upt_rec)
  moreover have "run_cores (\<lambda>_. 0) [0, 1, 2] example_input = {0, 1, 2}"
    by (auto simp: run_cores_def example_input_def run_socket_def)
  ultimately show ?thesis by (simp add: example_input_def)
qed

end
