(* ===== verification/Sockperf_Main.thy ===== *)
theory Sockperf_Main
  imports Sockperf_Pool
begin

text \<open>
  The entry of the benchmark, \<open>sockperf_cli/main.cpp\<close>: the table of options, \<open>parse_config\<close>, and \<open>main\<close> with its
  handlers. Boost.Program_options and the log configuration are fields of \<open>main_api\<close>: the map of variables has
  the unknown type \<open>'vm\<close>, the result of a parser the type \<open>'p\<close>. An \<open>Inl\<close> is an exception. What the program does
  is a list of events.
\<close>

section \<open>Options\<close>

datatype option_value =
    Number nat
  | Switch bool
  | Milliseconds nat
  | Text string

text \<open>\<open>os_short\<close> is what the name has behind its comma.\<close>

record option_spec =
  os_long :: string
  os_short :: "string option"
  os_required :: bool
  os_default :: "option_value option"
  os_implicit :: "option_value option"

abbreviation opt :: "string \<Rightarrow> string option \<Rightarrow> option_value option \<Rightarrow> option_value option \<Rightarrow> option_spec" where
  "opt long short def implicit \<equiv>
     \<lparr>os_long = long, os_short = short, os_required = False, os_default = def, os_implicit = implicit\<rparr>"

abbreviation switch :: "string \<Rightarrow> string option \<Rightarrow> option_spec" where
  "switch long short \<equiv> opt long short (Some (Switch False)) (Some (Switch True))"

definition common_options :: "option_spec list" where
  "common_options =
     [\<lparr>os_long = ''destination'', os_short = Some ''d'', os_required = True, os_default = None, os_implicit = None\<rparr>,
      opt ''destination-mac'' (Some ''m'') None None,
      opt ''ttl'' None (Some (Number 64)) None,
      opt ''payload-size'' (Some ''s'') (Some (Number header_size)) None,
      switch ''cpu-cycles-latency'' (Some ''r''),
      opt ''latency-test'' (Some ''l'') (Some (Number 0)) (Some (Number (unat default_latency_n_packets))),
      opt ''throughput-test'' (Some ''t'') (Some (Number 0)) (Some (Number (unat default_throughput_n_packets))),
      switch ''no-warmup'' None,
      opt ''burst-size'' (Some ''b'') None None,
      opt ''txq'' None (Some (Number 1)) None,
      opt ''tx-mempool-size'' None (Some (Number (1024 * 4 - 1))) None,
      opt ''wait-for'' (Some ''w'') (Some (Milliseconds 5000)) None,
      switch ''detailed-stats'' None,
      opt ''buckets'' (Some ''b'') None None,
      switch ''verbose'' (Some ''v'')]"

definition general_options :: "option_spec list" where
  "general_options = [opt ''help'' (Some ''h'') None None, opt ''config'' (Some ''c'') (Some (Text ''config.ini'')) None]"

definition eal_options :: "option_spec list" where
  "eal_options = [opt ''eal.*'' None None (Some (Text [])), opt ''eal.vdev'' (Some ''vdev'') None None]"

text \<open>What the command line accepts; a configuration file accepts all but the general options.\<close>

definition all_options :: "option_spec list" where
  "all_options = general_options @ common_options @ eal_options"

text \<open>The options that a short option names.\<close>

definition short_matches :: "string \<Rightarrow> option_spec list \<Rightarrow> string list" where
  "short_matches c opts = map os_long (filter (\<lambda>x. os_short x = Some c) opts)"

section \<open>The program\<close>

datatype main_error =
    Options_error string
  | Std_error string
  | Other_error

datatype 'vm main_event =
    Help_out
  | Help_err
  | Error_message string
  | Log_from_options
  | Log_default
  | Run 'vm

record ('vm, 'p, 'f) main_api =
  ma_command_line :: "main_error + 'p"
  ma_empty :: 'vm
  ma_store :: "'p \<Rightarrow> 'vm \<Rightarrow> main_error + 'vm"
  ma_help :: "'vm \<Rightarrow> bool"
  ma_config :: "'vm \<Rightarrow> string \<times> bool"
  ma_open :: "string \<Rightarrow> 'f option"
  ma_parse_file :: "'f \<Rightarrow> main_error + 'p"
  ma_init_log :: "'p \<Rightarrow> 'vm \<Rightarrow> main_error + bool"
  ma_default_log :: "'vm \<Rightarrow> main_error option"
  ma_notify :: "'vm \<Rightarrow> main_error option"
  ma_run :: "'vm \<Rightarrow> main_error option"

text \<open>The log is set up from options that the description does not know, or by default; both may throw.\<close>

definition setup_log :: "('vm, 'p, 'f) main_api \<Rightarrow> 'p \<Rightarrow> 'vm \<Rightarrow> main_error + 'vm main_event list" where
  "setup_log api parsed vm =
     (case ma_init_log api parsed vm of
        Inl e \<Rightarrow> Inl e
      | Inr True \<Rightarrow> Inr [Log_from_options]
      | Inr False \<Rightarrow> (case ma_default_log api vm of Some e \<Rightarrow> Inl e | None \<Rightarrow> Inr [Log_default]))"

text \<open>\<open>parse_config\<close> changes the map of variables and returns whether there was a file; \<open>Inl\<close> is an exception.\<close>

definition parse_config ::
  "('vm, 'p, 'f) main_api \<Rightarrow> 'vm \<Rightarrow> main_error + bool \<times> 'vm \<times> 'vm main_event list" where
  "parse_config api vm =
     (let (config_filename, defaulted) = ma_config api vm
      in case ma_open api config_filename of
           None \<Rightarrow>
             if \<not> defaulted then Inl (Std_error (''can't open configuration file '' @ [CHR 0x22] @ config_filename @ [CHR 0x22]))
             else Inr (False, vm, [])
         | Some ifs \<Rightarrow>
             (case ma_parse_file api ifs of
                Inl e \<Rightarrow> Inl e
              | Inr parsed \<Rightarrow>
                  (case ma_store api parsed vm of
                     Inl e \<Rightarrow> Inl e
                   | Inr vm \<Rightarrow> map_sum id (\<lambda>events. (True, vm, events)) (setup_log api parsed vm))))"

text \<open>The \<open>try\<close> block of \<open>main\<close>: the events, and the exception that ended it.\<close>

definition main_try :: "('vm, 'p, 'f) main_api \<Rightarrow> 'vm main_event list \<times> main_error option" where
  "main_try api =
     (case ma_command_line api of
        Inl e \<Rightarrow> ([], Some e)
      | Inr parsed \<Rightarrow>
          (case ma_store api parsed (ma_empty api) of
             Inl e \<Rightarrow> ([], Some e)
           | Inr vm \<Rightarrow>
               if ma_help api vm then ([Help_out], None)
               else
                 (case parse_config api vm of
                    Inl e \<Rightarrow> ([], Some e)
                  | Inr (found, vm, events) \<Rightarrow>
                      (case (if found then Inr events else setup_log api parsed vm) of
                         Inl e \<Rightarrow> ([], Some e)
                       | Inr events \<Rightarrow>
                           (case ma_notify api vm of
                              Some e \<Rightarrow> (events, Some e)
                            | None \<Rightarrow> (events @ [Run vm], ma_run api vm))))))"

definition handle :: "main_error \<Rightarrow> 'vm main_event list" where
  "handle e = (case e of
       Options_error what \<Rightarrow> [Error_message (''error : '' @ what), Help_err]
     | Std_error what \<Rightarrow> [Error_message (''error : '' @ what)]
     | Other_error \<Rightarrow> [Error_message ''miserably failed:('']) "

definition main :: "('vm, 'p, 'f) main_api \<Rightarrow> 'vm main_event list \<times> int" where
  "main api = (case main_try api of (events, e) \<Rightarrow> (events @ (case e of None \<Rightarrow> [] | Some e \<Rightarrow> handle e), 0))"

section \<open>Properties\<close>

text \<open>Every option has a name of its own, and every short option but \<open>-b\<close>: \<open>burst-size\<close> and \<open>buckets\<close> share it.\<close>

theorem short_options_clash:
  "distinct (map os_long all_options)
   \<and> (\<forall>c. length (short_matches c all_options) \<le> 1 \<or> c = ''b'')
   \<and> short_matches ''b'' all_options = [''burst-size'', ''buckets'']"
proof -
  have "length (short_matches c all_options) \<le> 1" if "c \<noteq> ''b''" for c
    using that by (auto simp: short_matches_def all_options_def general_options_def common_options_def eal_options_def)
  moreover have "distinct (map os_long all_options)" "short_matches ''b'' all_options = [''burst-size'', ''buckets'']"
    by (simp_all add: short_matches_def all_options_def general_options_def common_options_def eal_options_def)
  ultimately show ?thesis by blast
qed

text \<open>\<open>boost::program_options::store\<close> does not change a value that is set and not defaulted. \<open>given vm k\<close> is
  such a value.\<close>

definition store_keeps :: "('vm, 'p, 'f) main_api \<Rightarrow> ('vm \<Rightarrow> string \<Rightarrow> 'v option) \<Rightarrow> bool" where
  "store_keeps api given \<longleftrightarrow>
     (\<forall>p vm vm' k v. ma_store api p vm = Inr vm' \<longrightarrow> given vm k = Some v \<longrightarrow> given vm' k = Some v)"

text \<open>What has happened when the configuration is read: the options \<open>p\<close> of the command line gave \<open>vm0\<close>; a
  configuration file that can be opened was read into \<open>q\<close> and stored in \<open>vm\<close>, and only a file whose name is the
  default may be missing.\<close>

definition configured :: "('vm, 'p, 'f) main_api \<Rightarrow> 'vm \<Rightarrow> 'p \<Rightarrow> 'vm \<Rightarrow> bool" where
  "configured api vm0 q vm \<longleftrightarrow>
     (\<exists>p. ma_command_line api = Inr p \<and> ma_store api p (ma_empty api) = Inr vm0 \<and> \<not> ma_help api vm0
        \<and> (case ma_open api (fst (ma_config api vm0)) of
             None \<Rightarrow> snd (ma_config api vm0) \<and> q = p \<and> vm = vm0
           | Some f \<Rightarrow> ma_parse_file api f = Inr q \<and> ma_store api q vm0 = Inr vm))"

text \<open>The exceptions in front of the benchmark, each under the call that throws it.\<close>

inductive throws :: "('vm, 'p, 'f) main_api \<Rightarrow> main_error \<Rightarrow> bool" for api where
  command_line: "ma_command_line api = Inl e \<Longrightarrow> throws api e"
| store: "ma_command_line api = Inr p \<Longrightarrow> ma_store api p (ma_empty api) = Inl e \<Longrightarrow> throws api e"
| open_file: "ma_command_line api = Inr p \<Longrightarrow> ma_store api p (ma_empty api) = Inr vm0 \<Longrightarrow> \<not> ma_help api vm0 \<Longrightarrow>
    ma_config api vm0 = (f, False) \<Longrightarrow> ma_open api f = None \<Longrightarrow>
    throws api (Std_error (''can't open configuration file '' @ [CHR 0x22] @ f @ [CHR 0x22]))"
| parse_file: "ma_command_line api = Inr p \<Longrightarrow> ma_store api p (ma_empty api) = Inr vm0 \<Longrightarrow> \<not> ma_help api vm0 \<Longrightarrow>
    ma_config api vm0 = (f, defaulted) \<Longrightarrow> ma_open api f = Some i \<Longrightarrow> ma_parse_file api i = Inl e \<Longrightarrow> throws api e"
| store_file: "ma_command_line api = Inr p \<Longrightarrow> ma_store api p (ma_empty api) = Inr vm0 \<Longrightarrow> \<not> ma_help api vm0 \<Longrightarrow>
    ma_config api vm0 = (f, defaulted) \<Longrightarrow> ma_open api f = Some i \<Longrightarrow> ma_parse_file api i = Inr q \<Longrightarrow>
    ma_store api q vm0 = Inl e \<Longrightarrow> throws api e"
| init_log: "configured api vm0 q vm \<Longrightarrow> ma_init_log api q vm = Inl e \<Longrightarrow> throws api e"
| default_log: "configured api vm0 q vm \<Longrightarrow> ma_init_log api q vm = Inr False \<Longrightarrow> ma_default_log api vm = Some e \<Longrightarrow>
    throws api e"
| notify: "configured api vm0 q vm \<Longrightarrow> setup_log api q vm = Inr log \<Longrightarrow> ma_notify api vm = Some e \<Longrightarrow> throws api e"

lemma configured_keeps:
  "configured api vm0 q vm \<Longrightarrow> store_keeps api given \<Longrightarrow> given vm0 k = Some v \<Longrightarrow> given vm k = Some v"
  unfolding store_keeps_def configured_def by (auto split: option.splits)

lemma setup_log_events: "setup_log api q vm = Inr log \<Longrightarrow> log \<in> {[Log_from_options], [Log_default]}"
  by (auto simp: setup_log_def split: sum.splits bool.splits option.splits)

text \<open>The way through the \<open>try\<close> block: once the configuration is read, what \<open>main\<close> does depends on the log, on
  \<open>notify\<close> and on the benchmark; otherwise it asked for help or one of the calls in front threw.\<close>

lemma main_try_configured:
  "configured api vm0 q vm \<Longrightarrow> main_try api =
     (case setup_log api q vm of
        Inl e \<Rightarrow> ([], Some e)
      | Inr log \<Rightarrow> (case ma_notify api vm of Some e \<Rightarrow> (log, Some e) | None \<Rightarrow> (log @ [Run vm], ma_run api vm)))"
  by (auto simp: configured_def main_try_def parse_config_def split: option.splits sum.splits prod.splits)

lemma throws_main_try:
  "throws api e \<Longrightarrow> \<exists>log. main_try api = (log, Some e) \<and> log \<in> {[], [Log_from_options], [Log_default]}"
proof (induction rule: throws.induct)
  case (init_log vm0 q vm e)
  then show ?case by (simp add: main_try_configured setup_log_def)
next
  case (default_log vm0 q vm e)
  then show ?case by (simp add: main_try_configured setup_log_def)
next
  case (notify vm0 q vm log e)
  then show ?case using setup_log_events [OF notify(2)] by (auto simp: main_try_configured)
qed (simp_all add: main_try_def parse_config_def)

lemma main_try_unconfigured:
  assumes "\<And>vm0 q vm. \<not> configured api vm0 q vm" and none: "\<And>e. \<not> throws api e"
  shows "main_try api = ([Help_out], None)"
proof -
  obtain p where p: "ma_command_line api = Inr p" using none throws.command_line by (cases "ma_command_line api") blast+
  obtain vm0 where vm0: "ma_store api p (ma_empty api) = Inr vm0"
    using none throws.store [OF p] by (cases "ma_store api p (ma_empty api)") blast+
  have "ma_help api vm0"
  proof (rule ccontr)
    assume h: "\<not> ma_help api vm0"
    obtain f defaulted where f: "ma_config api vm0 = (f, defaulted)" by fastforce
    show False
    proof (cases "ma_open api f")
      case None
      moreover have defaulted
      proof (rule ccontr)
        assume "\<not> defaulted"
        then have "ma_config api vm0 = (f, False)" using f by simp
        from throws.open_file [OF p vm0 h this None] none show False by blast
      qed
      ultimately show False using assms(1) [of vm0 p vm0] p vm0 h f by (simp add: configured_def)
    next
      case (Some i)
      obtain q where q: "ma_parse_file api i = Inr q"
        using none throws.parse_file [OF p vm0 h f Some] by (cases "ma_parse_file api i") blast+
      obtain vm where "ma_store api q vm0 = Inr vm"
        using none throws.store_file [OF p vm0 h f Some q] by (cases "ma_store api q vm0") blast+
      then show False using assms(1) [of vm0 q vm] p vm0 h f Some q by (simp add: configured_def)
    qed
  qed
  then show ?thesis using p vm0 by (simp add: main_try_def)
qed

lemma setup_log_done:
  assumes "configured api vm0 q vm" and none: "\<And>e. \<not> throws api e"
  obtains log where "setup_log api q vm = Inr log" "ma_notify api vm = None"
proof -
  obtain r where r: "ma_init_log api q vm = Inr r"
    using none throws.init_log [OF assms(1)] by (cases "ma_init_log api q vm") blast+
  have "ma_default_log api vm = None" if "\<not> r"
    using none throws.default_log [OF assms(1)] r that by (cases "ma_default_log api vm") auto
  then obtain log where log: "setup_log api q vm = Inr log" using r by (cases r) (auto simp: setup_log_def)
  moreover have "ma_notify api vm = None" using none throws.notify [OF assms(1) log] by (cases "ma_notify api vm") blast+
  ultimately show ?thesis by (rule that)
qed


text \<open>A command line that gives a destination, no configuration file, and a benchmark that throws.\<close>

definition example_main :: "(string list, string list, unit) main_api" where
  "example_main = \<lparr>ma_command_line = Inr [''destination''], ma_empty = [], ma_store = (\<lambda>p vm. Inr (vm @ p)), ma_help = (\<lambda>_. False),
     ma_config = (\<lambda>_. (''config.ini'', True)), ma_open = (\<lambda>_. None), ma_parse_file = (\<lambda>_. Inr []), ma_init_log = (\<lambda>_ _. Inr False),
     ma_default_log = (\<lambda>_. None), ma_notify = (\<lambda>vm. if ''destination'' \<in> set vm then None else Some (Options_error ''destination'')),
     ma_run = (\<lambda>_. Some (Std_error ''no device''))\<rparr>"

text \<open>The same with a configuration file that cannot be parsed.\<close>

definition example_bad_file :: "(string list, string list, unit) main_api" where
  "example_bad_file = example_main\<lparr>ma_open := (\<lambda>_. Some ()), ma_parse_file := (\<lambda>_. Inl (Options_error ''syntax''))\<rparr>"


end
