(* ===== verification/Spec2Isabelle.thy ===== *)
theory Spec2Isabelle
  imports Dpdk_Prelude Numerics Sockperf_Proto Mbuf Errors Jobs Device_Tx Device_Net Flow_Queue
    Device_Sinks Device_Attach Device_Rx Device_Setup Device_Run Device_Life Device_Time Config Described Device_Io Value_Parser
    Logging Resources Sockets Udp_Tx Udp_Delivery Sockperf_Stats Sockperf_Histogram Sockperf_Channel Sockperf_Tx Sockperf_Throughput Sockperf_Pool Sockperf_Warmup
    Sockperf_Latency Sockperf_Report Sockperf_Run Sockperf_Main
begin

text \<open>
  Verification of dpdk-tools: \<open>src/dpdkx\<close>, a C++ layer over DPDK with devices, channels and a cooperative
  scheduler, \<open>src/sockperf\<close>, the wire format of sockperf messages, and \<open>src/sockperf_cli\<close>, a throughput
  and latency benchmark built on both.

  \<^bold>\<open>The program and its parts.\<close> A \<open>dpdkx::device\<close> owns one network port. Its receive jobs
  (\<open>device::rx_job\<close>) poll hardware queues, hand UDP packets to the channels attached to their destination
  port and pass the rest to \<open>process_rx_packets\<close>, which answers ARP and ICMP echo requests and learns
  addresses. Its transmit jobs move buffers from rings to hardware queues. Other threads attach and detach
  channels in a table that the receive jobs read without a lock, resolve addresses, join multicast groups
  and put packets into rings. \<open>run_jobs\<close> runs a list of jobs on one core. The benchmark configures a device,
  launches receive jobs on some cores, and sends numbered packets, which the receive channel records and
  \<open>stats\<close> evaluates.

  \<^bold>\<open>Theories and the code they model.\<close>
  \<^item> \<open>Dpdk_Prelude\<close>: words, memory with little-endian loads and stores, byte swaps, shared lemmas.
  \<^item> \<open>Numerics\<close>: \<open>detail/numerics.hpp\<close>, \<open>detail/utils.cpp\<close>, \<open>utils.hpp\<close>: \<open>mul_div\<close> on both platforms, clock
    conversion and estimation, retries, link polling. \<open>mul_div\<close> is exact at every type; its \<open>WIN32\<close> branch agrees at
    64 bits and loses the upper half of the product at 32.
  \<^item> \<open>Errors\<close>: \<open>error.{hpp,cpp}\<close>, \<open>flow/error.{hpp,cpp}\<close>.
  \<^item> \<open>Mbuf\<close>: \<open>mbuf.cpp\<close>, \<open>detail/utils.hpp\<close>: header builders and the VLAN parser. \<open>update_l2size\<close> finds the
    network protocol behind any stack of tags that fits; a frame of 130 bytes of tags makes it loop forever.
  \<^item> \<open>Sockperf_Proto\<close>: \<open>sockperf/sockperf.hpp\<close>, \<open>sockperf/x.hpp\<close>: the message header and its round trips.
  \<^item> \<open>Jobs\<close>: \<open>jobs.cpp\<close>: \<open>run_jobs_once\<close> refines "run everything, the result is the least state returned";
    the loops return as soon as the stop flag is read, with one job or several; waiting for an address ends.
  \<^item> \<open>Device_Tx\<close>: transmit job, ring and queue selection, source ports, \<open>sink.cpp\<close>. Bursts are sent entirely or
    kept entirely unless the device accepts a part, in which case buffers are duplicated and lost.
  \<^item> \<open>Device_Net\<close>: \<open>ether_address\<close>, \<open>process_rx_packets\<close>, \<open>mcast.cpp\<close>: two devices that exchange an ARP
    request and its answer know each other's address; the echo reply has a checksum that passes the check unless
    everything behind it is zero; every buffer is returned or in a service ring.
  \<^item> \<open>Flow_Queue\<close>: \<open>flow/flow.cpp\<close>, \<open>flow/rx_queue.{hpp,cpp}\<close>: rules for an endpoint and reassignment.
  \<^item> \<open>Device_Sinks\<close>: \<open>attach_rx\<close>, \<open>detach_rx\<close>, \<open>join_mcast\<close>, \<open>leave_mcast\<close> over a store of tables, with what
    other threads do between load and exchange; membership refines a map of counters; what \<open>attach_rx\<close> puts into the
    table \<open>detach_rx\<close> removes, while a channel in a flow queue cannot be detached.
  \<^item> \<open>Device_Attach\<close>: \<open>detail/atomic_shared_ptr.hpp\<close> and the loop of \<open>attach_rx\<close> at the grain of its atomic operations:
    any number of threads under every schedule, up to what each returns; \<open>make_rx_channel\<close> of \<open>rx_channel.hpp\<close>.
  \<^item> \<open>Device_Rx\<close>: \<open>device::rx_job\<close>: every buffer of a burst is delivered, freed or passed on exactly once, in its log and in what
    the channels, the pool and the rings got, with all accesses inside the array for bursts of at most 256.
  \<^item> \<open>Config\<close>, \<open>Described\<close>: \<open>config/device.hpp\<close>, \<open>config/program_options.{hpp,cpp}\<close>, \<open>config/io.{hpp,cpp}\<close>:
    device configuration with its limits, loading described structures from options, printing them.
  \<^item> \<open>Device_Io\<close>, \<open>Value_Parser\<close>: \<open>io.{hpp,cpp}\<close>, \<open>x3-parser.hpp\<close> and \<open>parse_value\<close>: names of flags, the printed
    statistics of a port, the parser chosen for a type, reading one member and its error messages. An integer
    member is read from exactly the numbers in range, where one byte is read as four; a structure is loaded as
    its texts say or fails at the first that does not parse.
  \<^item> \<open>Device_Setup\<close>: the constructor of \<open>device\<close>, \<open>start\<close>, \<open>stop\<close> and the job lists: the queue layout.
  \<^item> \<open>Device_Life\<close>: what unwinding after an exception and the destructor release; nothing is left behind.
  \<^item> \<open>Device_Time\<close>: hardware time stamps of packets and when they are defined.
  \<^item> \<open>Resources\<close>: \<open>memory.hpp\<close>, \<open>mempool.cpp\<close>, \<open>detail/tx_ring.{hpp,cpp}\<close>, \<open>utils.cpp\<close>, \<open>detail/proxy/mem_fn.hpp\<close>: handles and what
    they own, as an inductive relation; a ring is never freed twice, and assigning to a handle loses one.
  \<^item> \<open>Logging\<close>: \<open>log.{hpp,cpp}\<close>, \<open>loggers.{hpp,cpp}\<close> and the console filter of the benchmark: which entries are
    written, with loggers that are registered at first use.
  \<^item> \<open>Device_Run\<close>: the device at work as an inductive relation that interleaves its jobs, the application and
    the network; the invariant that no reader leaves its table, and the step that breaks it.
  \<^item> \<open>Sockets\<close>: \<open>config/socket.cpp\<close> and the placement of jobs in \<open>sockperf_cli/sockperf.cpp\<close>.
  \<^item> \<open>Udp_Tx\<close>: \<open>udptx_channel.cpp\<close>: a datagram in one buffer or in a chain of segments.
  \<^item> \<open>Udp_Delivery\<close>: \<open>Udp_Tx\<close>, a network and \<open>Device_Rx\<close> together: the channel attached for a port gets the payloads
    sent to that port, in order and with a single call for a burst.
  \<^item> \<open>Sockperf_Stats\<close>, \<open>Sockperf_Channel\<close>, \<open>Sockperf_Tx\<close>, \<open>Sockperf_Pool\<close>, \<open>Sockperf_Warmup\<close>, \<open>Sockperf_Latency\<close>:
    \<open>sockperf_cli/stats.{hpp,cpp}\<close> and \<open>sockperf_cli/utils.{hpp,cpp}\<close>: the evaluation, the receive channel, the
    throughput sender, the packet pool, the warm-up exchange and the latency test.
  \<^item> \<open>Sockperf_Histogram\<close>, \<open>Sockperf_Report\<close>: the histograms of the evaluation with their edges and samples, the
    report of the latency test with least, greatest and median, and the rate the sender reports.
  \<^item> \<open>Sockperf_Throughput\<close>: sender, network, receive channel and evaluation together: what the channel records of
    the packets that arrive, and the false loss without detailed statistics. The closing theorem is below.
  \<^item> \<open>Sockperf_Run\<close>: \<open>run\<close> of \<open>sockperf_cli/sockperf.cpp\<close> as the list of launches, waits, stops and evaluations
    it performs, and the specification \<open>orderly\<close> of such lists over the cores of one socket.
  \<^item> \<open>Sockperf_Main\<close>: \<open>sockperf_cli/main.cpp\<close>: the table of options, the configuration file, the log, \<open>main\<close> and its handlers: which
    call throws decides whether the benchmark is entered and what is reported.

  \<^bold>\<open>Interfaces.\<close> \<open>wire_field\<close> and \<open>disjoint_fields\<close> (a stored header field is read back, and stores to other
  fields leave it) are interpreted on the three fields of the message header; \<open>steady_jobs\<close> (a virtual call
  keeps an invariant of the program state, so the scheduler does) on the jobs of a device; \<open>member_counter\<close>
  (counters behind a lookup) on the multicast table; \<open>readable\<close> (a parser that reads back what is printed, so a
  tuple is read back) on the unsigned parsers; \<open>rx_enqueue\<close> (who owns which buffer after a channel
  took a run) on both channel classes.

  \<^bold>\<open>Environment.\<close> DPDK, fmt, Boost and the \<open>utils\<close> submodule are not part of the sources. What the program uses
  of them is an argument of the definitions: the records \<open>tx_api\<close>, \<open>net_api\<close>, \<open>flow_api\<close>, \<open>setup_api\<close>,
  \<open>udptx_api\<close>, \<open>send_api\<close>, \<open>pool_api\<close>, \<open>probe_api\<close>, \<open>life_api\<close>, \<open>main_api\<close>, \<open>log_api\<close>, \<open>hist_api\<close>, \<open>x3_api\<close> hold functions over a state of their own, which every call
  changes, so that the model says nothing about it. Named predicates such as \<open>tx_api_ok\<close> and
  \<open>probe_owner_ok\<close> state the documented contracts that a theorem uses, and its witness satisfies them with
  concrete functions.

  \<^bold>\<open>Conventions.\<close> Integers have the width of the source where they can wrap; addresses of buffers, tables and
  channels are identities. Counters that stay below the length of an array or a retry count (the position of a transmit job,
  the index of the earliest packet, the rounds of the warm-up) are natural numbers. \<open>None\<close> stands for what the program must not do (access outside an array, division
  by zero, a null pointer) or for fuel that does not cover a loop; an exception or error code is a value of a
  sum or option type. Loops that depend on the environment take fuel. The theorems on their termination give
  an amount that suffices: for the VLAN parser 29 steps cover every frame below 126 bytes; for the sender
  the number of packets; for the warm-up the timeout in milliseconds, since the clock advances; for the
  latency test one step per message, the wait for an answer being counted in the code itself; \<open>run_jobs\<close>
  returns within 33 rounds once the stop flag stays set.

  \<^bold>\<open>Not modelled.\<close> The text of single log statements, apart from the reports above; the behaviour of fmt,
  Boost.Program_options, Boost.Spirit, Boost.Histogram and \<open>utils\<close>, which are parameters; floating-point
  arithmetic, a parameter where a report needs it; the bodies of owning pointers; \<open>detail/tx_queue.{hpp,cpp}\<close>, an older copy of
  \<open>tx_ring\<close> that is not built; code in comments; test programs. Memory ordering is not modelled: a step of a job
  is atomic in \<open>Device_Run\<close>, while \<open>attach_rx\<close> and \<open>detach_rx\<close> are also modelled with interference
  (\<open>Device_Sinks\<close>, \<open>Device_Attach\<close>), every load and exchange being one step.
\<close>

section \<open>The throughput test from end to end\<close>

text \<open>C3: the throughput test counts what the network lost. Senders on \<open>ntx\<close> queues run to the end of their
  loop, however the device splits their bursts; the network loses and reorders packets; the channel
  receives them in runs of any size, with or without hardware time stamps. Then the channel takes every
  run, the evaluation returns one report per queue, and the number of missing packets it reports for a queue
  is the number of sequence numbers between the first and the largest one recorded that did not arrive,
  provided no later packet of the queue has a smaller number than the first. Every queue must have been
  heard of, the sequence numbers stay below \<open>2^28\<close>, the statistics are detailed and at least three packets were recorded.\<close>

theorem throughput_counts_missing:
  assumes "send_api_ok api" and "\<forall>q < ntx. sender_ran api burst packets flags n q (st q)"
    and "ntx \<le> 128 \<and> packets + 6 * 65535 < 2 ^ 28" and "header_size \<le> unat n" and "unat n \<le> 65535 - 42" and "clock_hz \<noteq> 0"
    and "carried ntx st runs" and "length memory = packets * ntx * ntx"
    and "xs = take (packets * ntx) (map packet_seqn (arrivals runs))" and "3 \<le> length xs"
    and "\<forall>q < ntx. numbers q xs \<noteq> []"
  shows "\<exists>c reports rate. deliver_runs ts clock_hz runs (make_sockperf_channel memory packets ntx True) = Some c
       \<and> stats_process (ch_stats c) (usable_timestamps now (map (\<lambda>q. ts_data (ss_timestamps (st q))) [0..<ntx])) = Some (reports, rate)
       \<and> length reports = ntx
       \<and> (\<forall>q < ntx. (\<forall>k \<in> set (numbers q xs). hd (numbers q xs) \<le> k) \<longrightarrow>
            unat (fst (reports ! q)) = card (missing (numbers q xs)))"
proof -
  let ?ts = "map (\<lambda>q. ts_data (ss_timestamps (st q))) [0..<ntx]"
  let ?c0 = "make_sockperf_channel memory packets ntx True"
  have sp: "\<forall>q < ntx. \<forall>b \<in> set (ss_sent (st q)). countable b \<and> sent_number q (packet_seqn b)"
    "\<forall>q < ntx. distinct (map packet_seqn (ss_sent (st q)))" "\<forall>t \<in> set ?ts. t \<noteq> [] \<and> fst (hd t) = 1"
    using sender_packets [OF assms(1) _ _ _ assms(4,5)] assms(2,3) by auto
  note arr = carried_packets [OF assms(7) sp(2,1)]
  have pos: "0 < packets * ntx" using assms(9,10) by (cases "packets * ntx") auto
  note c0 = make_channel_roomy [OF pos _ assms(8)]
  obtain c where c: "deliver_runs ts clock_hz runs ?c0 = Some c" "roomy c" "recorded c = xs"
    "st_txq_n (ch_stats c) = st_txq_n (ch_stats ?c0)"
    using deliver_runs_recorded [OF assms(6) c0(1), of runs ts] arr(2) c0(2,3) assms(3,9) by auto
  have xs: "\<forall>x \<in> set xs. \<exists>q < ntx. sent_number q x"
    using arr(2) set_take_subset [of "packets * ntx" "map packet_seqn (arrivals runs)"] assms(9) by auto
  have d: "distinct (numbers q xs)" for q using arr(1) xs assms(9) by (intro distinct_numbers [where ntx = ntx]) simp_all
  have "\<forall>x \<in> set xs. queue_nr x < ntx \<and> 2 \<le> number x" using xs unfolding sent_number_def by metis
  moreover have "usable_timestamps now ?ts = ?ts" using sp(3) by (intro usable_timestamps_id) blast
  ultimately show ?thesis
    using stats_process_counts [OF c(2), of ?ts] c(3,4) c0(4) sp(3) assms(3,10,11) d c(1) by auto
qed

text \<open>One sender, bursts of two, three packets counted: the packets 2, 4 and 5 arrive, in two runs; one is
  reported missing.\<close>

lemma example_sender_ran:
  "\<exists>s. sender_ran (example_send 2) 2 3 0 20 0 s \<and> {2, 4, 5} \<subseteq> packet_seqn ` set (ss_sent s)"
proof -
  let ?s0 = "send_start example_sender [] (make_tx_timestamps 2 3) ()"
  have ok: "accepts (sj_burst_size example_sender) (example_send 2)" using example_send_ok(3) [of 2] by simp
  have num: "numbered example_sender ?s0" by (simp add: numbered_def send_start_def)
  have "send_loop 14 (Suc 0) (example_send 2) 0 example_sender ?s0 \<noteq> None"
    using num by (intro send_loop_full [OF example_send_ok(1,2) ok])
      (simp_all add: send_start_def make_tx_timestamps_def extra_packets_def)
  then obtain s where s: "send_loop 14 (Suc 0) (example_send 2) 0 example_sender ?s0 = Some s" by blast
  have "ss_offset s = 0"
    using send_loop_offset [OF example_send_ok(1,2) ok num _ s] by (simp add: send_start_def)
  then have all: "mset (map packet_seqn (ss_sent s)) = mset (map (\<lambda>k. make_seqn 0 (of_nat k)) [2..<Suc (ss_seqn s)])"
    and big: "13 < ss_seqn s"
    using send_loop_numbered [OF example_send_ok(1) num s] by (simp_all add: numbered_def make_send_job_def extra_packets_def Let_def del: upt_Suc)
  have "{2, 4, 5} \<subseteq> (\<lambda>k. make_seqn 0 (of_nat k)) ` {2..<Suc (ss_seqn s)}"
  proof
    fix x :: u64 assume "x \<in> {2, 4, 5}"
    then have "x = make_seqn 0 (of_nat (unat x))" "unat x \<in> {2..<Suc (ss_seqn s)}"
      using big by (auto simp: make_seqn_def)
    then show "x \<in> (\<lambda>k. make_seqn 0 (of_nat k)) ` {2..<Suc (ss_seqn s)}" by blast
  qed
  also have "\<dots> = packet_seqn ` set (ss_sent s)" using mset_eq_setD [OF all] by (simp only: set_map set_upt)
  finally have "{2, 4, 5} \<subseteq> packet_seqn ` set (ss_sent s)" .
  moreover have "sender_ran (example_send 2) 2 3 0 20 0 s"
    unfolding sender_ran_def by (intro exI [of _ 14] exI [of _ "Suc 0"] exI [of _ 0] exI [of _ "[]"] exI) (simp add: s)
  ultimately show ?thesis by blast
qed

lemma example_numbers: "numbers 0 [2, 4, 5] = [2, 4, 5]" "missing [2, 4, 5] = {3}"
proof -
  show "numbers 0 [2, 4, 5] = [2, 4, 5]"
    by (simp add: numbers_def number_def queue_nr_def split_seqn_def)
  have "Max {2, 4, 5 :: nat} = 5" by (simp add: max_def)
  then show "missing [2, 4, 5] = {3}" unfolding missing_def by auto
qed

theorem throughput_counts_missing_witness:
  "\<exists>s b2 b4 b5 c reports rate. sender_ran (example_send 2) 2 3 0 20 0 s
     \<and> map packet_seqn [b2, b4, b5] = [2, 4, 5]
     \<and> deliver_runs (\<lambda>_. None) 1 [(7, [b2]), (9, [b4, b5])] (make_sockperf_channel (replicate 3 zero_info) 3 1 True) = Some c
     \<and> stats_process (ch_stats c) (usable_timestamps 0 [ts_data (ss_timestamps s)]) = Some (reports, rate) \<and> unat (fst (reports ! 0)) = 1"
proof -
  obtain s b2 b4 b5 where s: "sender_ran (example_send 2) 2 3 0 20 0 s"
    and b: "b2 \<in> set (ss_sent s)" "b4 \<in> set (ss_sent s)" "b5 \<in> set (ss_sent s)" "map packet_seqn [b2, b4, b5] = [2, 4, 5]"
    using example_sender_ran by (auto simp: image_iff)
  let ?runs = "[(7, [b2]), (9, [b4, b5])]"
  have arr: "arrivals ?runs = [b2, b4, b5]" by (simp add: arrivals_def)
  have "b2 \<noteq> b4" "b2 \<noteq> b5" "b4 \<noteq> b5" using b(4) by auto
  then have "mset [b2, b4, b5] \<subseteq># mset (ss_sent s)"
    using b by (auto simp: insert_subset_eq_iff in_diff_count)
  then have "carried 1 (\<lambda>_. s) ?runs" by (simp add: carried_def arr)
  moreover have "take (3 * 1) (map packet_seqn (arrivals ?runs)) = [2, 4, 5]" using b(4) arr by simp
  ultimately have "\<exists>c reports rate. deliver_runs (\<lambda>_. None) 1 ?runs (make_sockperf_channel (replicate 3 zero_info) 3 1 True) = Some c
      \<and> stats_process (ch_stats c) (usable_timestamps 0 (map (\<lambda>q. ts_data (ss_timestamps s)) [0..<1])) = Some (reports, rate) \<and> length reports = 1
      \<and> (\<forall>q < 1. (\<forall>k \<in> set (numbers q [2, 4, 5]). hd (numbers q [2, 4, 5]) \<le> k) \<longrightarrow>
           unat (fst (reports ! q)) = card (missing (numbers q [2, 4, 5])))"
    using s by (intro throughput_counts_missing [where n = 20 and burst = 2 and flags = 0, OF example_send_ok(1)])
      (simp_all add: header_size_def example_numbers)
  then obtain c reports rate where r:
    "deliver_runs (\<lambda>_. None) 1 ?runs (make_sockperf_channel (replicate 3 zero_info) 3 1 True) = Some c"
    "stats_process (ch_stats c) (usable_timestamps 0 [ts_data (ss_timestamps s)]) = Some (reports, rate)" "unat (fst (reports ! 0)) = 1"
    by (auto simp: example_numbers)
  show ?thesis by (intro exI conjI) (rule s b(4) r)+
qed

end
